(* ===== verification/Ngx_Prelude.thy ===== *)
theory Ngx_Prelude
  imports Main "HOL-Library.Word" "HOL-Library.Char_ord"
begin

text \<open>
  The vocabulary the components share: nginx's machine integers and return codes, C byte
  strings, the memory a connection's pool hands out, and generic facts on lists, options,
  characters and words. \<open>ngx_defs\<close> collects the definitions that every component unfolds,
  \<open>ngx_inv\<close> the facts that keep an invariant.
\<close>

unbundle bit_operations_syntax

named_theorems ngx_defs \<open>definitions unfolded throughout the development\<close>
named_theorems ngx_inv \<open>operations keep the invariants\<close>

subsection \<open>Machine integers and return codes\<close>

text \<open>The 64-bit ABI: \<open>ngx_uint_t\<close>, \<open>ngx_msec_t\<close> and \<open>size_t\<close> are unsigned 64-bit words;
  process identifiers are C ints, with \<open>NGX_INVALID_PID\<close> the value -1.\<close>

type_synonym ngx_uint_t = "64 word"
type_synonym ngx_msec_t = "64 word"
type_synonym ngx_pid_t = int

abbreviation (input) NGX_INVALID_PID :: ngx_pid_t where
  "NGX_INVALID_PID \<equiv> - 1"

abbreviation NGX_MAX_INT_T_VALUE :: int where
  "NGX_MAX_INT_T_VALUE \<equiv> 9223372036854775807"

datatype ngx_rc = NGX_OK | NGX_ERROR | NGX_AGAIN | NGX_BUSY | NGX_DONE | NGX_DECLINED

text \<open>\<open>(ngx_uint_t) NGX_ERROR\<close>, which is also \<open>NGX_CONF_UNSET_UINT\<close> and
  \<open>NGX_CONF_UNSET_MSEC\<close>.\<close>

abbreviation (input) NGX_CONF_UNSET_UINT :: ngx_uint_t where
  "NGX_CONF_UNSET_UINT \<equiv> - 1"

text \<open>A configuration pointer: \<open>NGX_CONF_UNSET_PTR\<close>, \<open>NULL\<close> or an object.\<close>

datatype 'a conf_ptr = Unset_Ptr | Null_Ptr | Ptr 'a

subsection \<open>Bytes\<close>

abbreviation NUL :: char where "NUL \<equiv> CHR 0x00"
abbreviation LF :: char where "LF \<equiv> CHR 0x0A"
abbreviation CR :: char where "CR \<equiv> CHR 0x0D"
abbreviation SP :: char where "SP \<equiv> CHR 0x20"

definition is_digit :: "char \<Rightarrow> bool" where
  "is_digit c \<longleftrightarrow> \<not> (c < CHR ''0'' \<or> CHR ''9'' < c)"

definition digit_val :: "char \<Rightarrow> nat" where
  "digit_val c = of_char c - 48"

text \<open>A cast to \<open>u_char\<close>.\<close>

definition u8 :: "nat \<Rightarrow> char" where
  "u8 n = char_of (n mod 256)"

subsection \<open>Memory\<close>

text \<open>Blocks handed out by a pool, in allocation order. A block holds the bytes written to it
  so far; a pointer is a block and an offset, so pointers into different blocks never alias.\<close>

type_synonym mem = "string list"
type_synonym ptr = "nat \<times> nat"

definition blk_write :: "nat \<Rightarrow> string \<Rightarrow> string \<Rightarrow> string" where
  "blk_write off bs blk = take off blk @ bs @ drop (off + length bs) blk"

text \<open>The bytes \<open>[pos, last)\<close> of a block.\<close>

definition bytes_between :: "nat \<Rightarrow> nat \<Rightarrow> string \<Rightarrow> string" where
  "bytes_between a b blk = take (b - a) (drop a blk)"

subsection \<open>Generic lemmas\<close>

lemma is_digit_iff: "is_digit c \<longleftrightarrow> 48 \<le> (of_char c :: nat) \<and> (of_char c :: nat) \<le> 57"
  by (auto simp: is_digit_def less_char_def)

lemma is_digit_code [code]: "is_digit c \<longleftrightarrow> 48 \<le> (of_char c :: nat) \<and> (of_char c :: nat) \<le> 57"
  by (rule is_digit_iff)

lemma digit_val_le: "is_digit c \<Longrightarrow> digit_val c \<le> 9"
  by (auto simp: is_digit_iff digit_val_def)

lemma is_digit_simps [simp]:
  "\<not> is_digit NUL" "\<not> is_digit LF" "\<not> is_digit CR" "\<not> is_digit SP"
  "\<not> is_digit CHR ''.''" "\<not> is_digit CHR ''/''"
  by (simp_all add: is_digit_iff)

lemma of_char_u8 [simp]: "(of_char (u8 n) :: nat) = n mod 256"
  by (simp add: u8_def)

lemma u8_of_char [simp]: "u8 (of_char c) = c"
  by (simp add: u8_def)

lemma length_blk_write [simp]:
  "off \<le> length blk \<Longrightarrow> length (blk_write off bs blk) = max (length blk) (off + length bs)"
  by (simp add: blk_write_def max_def)

lemma length_bytes_between [simp]: "length (bytes_between p l blk) = min (l - p) (length blk - p)"
  by (simp add: bytes_between_def min.commute)

lemma bytes_between_write:
  "off \<le> length blk \<Longrightarrow> p \<le> off \<Longrightarrow>
   bytes_between p (off + length bs) (blk_write off bs blk) = bytes_between p off blk @ bs"
  by (simp add: bytes_between_def blk_write_def drop_take)

lemma unat_plus_one: "x \<noteq> - 1 \<Longrightarrow> unat (x + 1) = Suc (unat x)" for x :: "64 word"
  by (metis add.commute add_eq_0_iff unatSuc)

lemma unat_plus_one_less:
  fixes x :: "64 word"
  assumes "unat x < 18446744073709551615"
  shows "unat (x + 1) = Suc (unat x)"
proof (rule unat_plus_one)
  show "x \<noteq> - 1"
  proof
    assume "x = - 1"
    then have "x = 18446744073709551615" by simp
    then have "unat x = 18446744073709551615" by (simp only: unat_numeral) simp
    with assms show False by simp
  qed
qed

lemma option_bind_split_asm [dest!]:
  "Option.bind x f = Some y \<Longrightarrow> \<exists>z. x = Some z \<and> f z = Some y"
  by (cases x) auto

text \<open>From one evaluation to the facts about its result.\<close>

lemma case_Some_the: "(case r of None \<Rightarrow> False | Some x \<Rightarrow> P x) \<Longrightarrow> r = Some (the r) \<and> P (the r)"
  by (cases r) simp_all

end
