(* ===== verification/Ngx_String.thy ===== *)
theory Ngx_String
  imports Ngx_Prelude
begin

text \<open>
  The string routines of \<open>src/core\<close> that the health check calls: comparison
  (\<open>ngx_strcasecmp\<close>, \<open>ngx_strncasecmp\<close>, libc's \<open>strncmp\<close> and \<open>strstr\<close> behind their macros),
  search (\<open>ngx_strlchr\<close>), number parsing (\<open>ngx_atoi\<close>, \<open>ngx_atosz\<close>, \<open>ngx_parse_size\<close>), number
  printing (\<open>ngx_sprintf_num\<close>) and \<open>ngx_murmur_hash2\<close>.
  A byte string stands for its bytes followed by the terminating NUL that nginx's configuration
  tokens and the response parser's buffers carry: a read at the end of the list reads NUL.
\<close>

subsection \<open>Comparison\<close>

definition c_hd :: "string \<Rightarrow> nat" where
  "c_hd s = (case s of [] \<Rightarrow> 0 | c # _ \<Rightarrow> of_char c)"

definition c_lower :: "nat \<Rightarrow> nat" where
  "c_lower c = (if 65 \<le> c \<and> c \<le> 90 then c OR 0x20 else c)"

fun ngx_strncmp :: "string \<Rightarrow> string \<Rightarrow> nat \<Rightarrow> int" where
  "ngx_strncmp s1 s2 0 = 0"
| "ngx_strncmp s1 s2 (Suc n) =
     (let c1 = c_hd s1; c2 = c_hd s2
      in if c1 \<noteq> c2 then int c1 - int c2
         else if c1 = 0 then 0
         else ngx_strncmp (tl s1) (tl s2) n)"

function ngx_strcasecmp :: "string \<Rightarrow> string \<Rightarrow> int" where
  "ngx_strcasecmp s1 s2 =
     (let c1 = c_lower (c_hd s1); c2 = c_lower (c_hd s2)
      in if c1 = c2
         then (if c1 \<noteq> 0 then ngx_strcasecmp (tl s1) (tl s2) else 0)
         else int c1 - int c2)"
  by pat_completeness auto
termination
  by (relation "measure (\<lambda>(s1, s2). length s1)")
    (auto simp: c_hd_def c_lower_def split: list.splits)

declare ngx_strcasecmp.simps [simp del]

fun ngx_strncasecmp :: "string \<Rightarrow> string \<Rightarrow> nat \<Rightarrow> int" where
  "ngx_strncasecmp s1 s2 0 = 0"
| "ngx_strncasecmp s1 s2 (Suc n) =
     (let c1 = c_lower (c_hd s1); c2 = c_lower (c_hd s2)
      in if c1 = c2
         then (if c1 \<noteq> 0 then ngx_strncasecmp (tl s1) (tl s2) n else 0)
         else int c1 - int c2)"

subsection \<open>Search\<close>

text \<open>Offsets from the start of the searched string; \<open>None\<close> is \<open>NULL\<close>.\<close>

fun is_prefix :: "string \<Rightarrow> string \<Rightarrow> bool" where
  "is_prefix [] s = True"
| "is_prefix (x # xs) [] = False"
| "is_prefix (x # xs) (y # ys) = (x = y \<and> is_prefix xs ys)"

fun ngx_strstr :: "string \<Rightarrow> string \<Rightarrow> nat option" where
  "ngx_strstr [] pat = (if pat = [] then Some 0 else None)"
| "ngx_strstr (c # cs) pat =
     (if is_prefix pat (c # cs) then Some 0 else map_option Suc (ngx_strstr cs pat))"

fun ngx_strlchr :: "string \<Rightarrow> char \<Rightarrow> nat option" where
  "ngx_strlchr [] c = None"
| "ngx_strlchr (x # xs) c = (if x = c then Some 0 else map_option Suc (ngx_strlchr xs c))"

subsection \<open>Numbers\<close>

text \<open>The loop of \<open>ngx_atoi\<close> and \<open>ngx_atosz\<close>; -1 is \<open>NGX_ERROR\<close>.\<close>

fun atoi_loop :: "int \<Rightarrow> int \<Rightarrow> string \<Rightarrow> nat \<Rightarrow> int" where
  "atoi_loop mx v s 0 = v"
| "atoi_loop mx v [] (Suc n) = - 1"
| "atoi_loop mx v (c # cs) (Suc n) =
     (if \<not> is_digit c then - 1
      else if mx div 10 \<le> v \<and> (mx div 10 < v \<or> mx mod 10 < int (digit_val c)) then - 1
      else atoi_loop mx (v * 10 + int (digit_val c)) cs n)"

definition ngx_atoi :: "string \<Rightarrow> nat \<Rightarrow> int" where
  "ngx_atoi line n = (if n = 0 then - 1 else atoi_loop NGX_MAX_INT_T_VALUE 0 line n)"

text \<open>\<open>NGX_MAX_SIZE_T_VALUE\<close> is the largest \<open>ssize_t\<close> on this ABI.\<close>

abbreviation NGX_MAX_SIZE_T_VALUE :: int where
  "NGX_MAX_SIZE_T_VALUE \<equiv> 9223372036854775807"

definition ngx_atosz :: "string \<Rightarrow> nat \<Rightarrow> int" where
  "ngx_atosz line n = (if n = 0 then - 1 else atoi_loop NGX_MAX_SIZE_T_VALUE 0 line n)"

definition ngx_parse_size :: "string \<Rightarrow> int" where
  "ngx_parse_size line =
     (if line = [] then - 1
      else
        let unit = last line;
            (len, mx, scale) =
              (if unit = CHR ''K'' \<or> unit = CHR ''k''
               then (length line - 1, NGX_MAX_SIZE_T_VALUE div 1024, 1024)
               else if unit = CHR ''M'' \<or> unit = CHR ''m''
               then (length line - 1, NGX_MAX_SIZE_T_VALUE div (1024 * 1024), 1024 * 1024)
               else (length line, NGX_MAX_SIZE_T_VALUE, 1));
            size = ngx_atosz line len
        in if size = - 1 \<or> mx < size then - 1 else size * scale)"

text \<open>\<open>ngx_sprintf_num\<close> in decimal, without padding: the digits, least significant first into the
  temporary buffer, so the returned text is most significant first.\<close>

definition digit_chr :: "nat \<Rightarrow> char" where
  "digit_chr d = char_of (d + 48)"

fun ngx_sprintf_num :: "nat \<Rightarrow> string" where
  "ngx_sprintf_num n =
     (if n < 10 then [digit_chr n] else ngx_sprintf_num (n div 10) @ [digit_chr (n mod 10)])"

declare ngx_sprintf_num.simps [simp del]

subsection \<open>\<open>ngx_murmur_hash2\<close>\<close>

abbreviation b32 :: "char \<Rightarrow> 32 word" where
  "b32 c \<equiv> of_char c"

fun murmur_loop :: "32 word \<Rightarrow> string \<Rightarrow> 32 word \<times> string" where
  "murmur_loop h (a # b # c # d # rest) =
     (let k = b32 a OR push_bit 8 (b32 b) OR push_bit 16 (b32 c) OR push_bit 24 (b32 d);
          k = k * 0x5bd1e995;
          k = k XOR drop_bit 24 k;
          k = k * 0x5bd1e995
      in murmur_loop ((h * 0x5bd1e995) XOR k) rest)"
| "murmur_loop h rest = (h, rest)"

definition murmur_tail :: "32 word \<Rightarrow> string \<Rightarrow> 32 word" where
  "murmur_tail h rest =
     (case rest of
        [a, b, c] \<Rightarrow> (h XOR push_bit 16 (b32 c) XOR push_bit 8 (b32 b) XOR b32 a) * 0x5bd1e995
      | [a, b] \<Rightarrow> (h XOR push_bit 8 (b32 b) XOR b32 a) * 0x5bd1e995
      | [a] \<Rightarrow> (h XOR b32 a) * 0x5bd1e995
      | _ \<Rightarrow> h)"

definition ngx_murmur_hash2 :: "string \<Rightarrow> 32 word" where
  "ngx_murmur_hash2 bytes =
     (let (h, rest) = murmur_loop (of_nat (length bytes)) bytes;
          h = murmur_tail h rest;
          h = h XOR drop_bit 13 h;
          h = h * 0x5bd1e995
      in h XOR drop_bit 15 h)"

subsection \<open>Lemmas: comparison and search\<close>

lemma c_hd_simps [simp]: "c_hd [] = 0" "c_hd (c # s) = of_char c"
  by (simp_all add: c_hd_def)

lemma of_char_eq_0_iff [simp]: "(of_char c :: nat) = 0 \<longleftrightarrow> c = NUL"
  using of_char_eq_iff [where 'a = nat, of c NUL] by simp

lemma is_prefix_append: "is_prefix xs ys \<longleftrightarrow> (\<exists>zs. ys = xs @ zs)"
  by (induction xs ys rule: is_prefix.induct) auto

text \<open>Comparing with a literal without NUL is a prefix test.\<close>

lemma ngx_strncmp_prefix:
  "NUL \<notin> set lit \<Longrightarrow> ngx_strncmp s lit (length lit) = 0 \<longleftrightarrow> is_prefix lit s"
proof (induction lit arbitrary: s)
  case Nil
  then show ?case by simp
next
  case (Cons x xs)
  then show ?case by (cases s) (auto simp: Let_def)
qed

lemma ngx_strncmp_same_length:
  "NUL \<notin> set s \<Longrightarrow> length s = length t \<Longrightarrow> ngx_strncmp s t (length s) = 0 \<longleftrightarrow> s = t"
proof (induction s t rule: list_induct2')
  case (4 x xs y ys)
  then show ?case by (auto simp: Let_def)
qed simp_all

lemma ngx_strncmp_same_length':
  "NUL \<notin> set s \<Longrightarrow> length s = length t \<Longrightarrow> ngx_strncmp s t (length t) = 0 \<longleftrightarrow> s = t"
  using ngx_strncmp_same_length [of s t] by simp

lemma c_lower_eq_0 [simp]: "c_lower c = 0 \<longleftrightarrow> c = 0"
  by (auto simp: c_lower_def or_eq_0_iff)

lemma ngx_strlchr_Some:
  "ngx_strlchr s c = Some i \<Longrightarrow> i < length s \<and> s ! i = c \<and> c \<notin> set (take i s)"
proof (induction s arbitrary: i)
  case Nil
  then show ?case by simp
next
  case (Cons x xs)
  then show ?case by (cases i) (auto split: if_splits)
qed

lemma ngx_strlchr_None: "ngx_strlchr s c = None \<longleftrightarrow> c \<notin> set s"
  by (induction s) auto

lemma ngx_strstr_Some:
  "ngx_strstr s pat = Some i \<Longrightarrow> is_prefix pat (drop i s) \<and> i \<le> length s"
proof (induction s arbitrary: i)
  case Nil
  then show ?case by (auto split: if_splits)
next
  case (Cons x xs)
  then show ?case by (cases i) (auto split: if_splits)
qed

lemma ngx_strstr_None:
  "ngx_strstr s pat = None \<Longrightarrow> i \<le> length s \<Longrightarrow> \<not> is_prefix pat (drop i s)"
proof (induction s arbitrary: i)
  case Nil
  then show ?case by (cases pat) (auto split: if_splits)
next
  case (Cons x xs)
  then show ?case by (cases i) (auto split: if_splits)
qed

subsection \<open>Lemmas: numbers\<close>

text \<open>The reference: the decimal value of a digit string.\<close>

definition dec_value :: "string \<Rightarrow> int" where
  "dec_value s = foldl (\<lambda>v c. v * 10 + int (digit_val c)) 0 s"

lemma foldl_dec_ge:
  "0 \<le> v \<Longrightarrow> v \<le> foldl (\<lambda>v c. v * 10 + int (digit_val c)) v s"
proof (induction s arbitrary: v)
  case Nil
  then show ?case by simp
next
  case (Cons c s)
  have "v \<le> v * 10 + int (digit_val c)" using Cons.prems by simp
  also have "\<dots> \<le> foldl (\<lambda>v c. v * 10 + int (digit_val c)) (v * 10 + int (digit_val c)) s"
    using Cons.prems by (intro Cons.IH) simp
  finally show ?case by simp
qed

lemma atoi_cutoff:
  assumes "0 \<le> v" "0 \<le> (d::int)" "d \<le> 9" "0 \<le> mx"
  shows "(mx div 10 \<le> v \<and> (mx div 10 < v \<or> mx mod 10 < d)) \<longleftrightarrow> mx < v * 10 + d"
  using assms by presburger

lemma atoi_loop_eq:
  "0 \<le> v \<Longrightarrow> v \<le> mx \<Longrightarrow> atoi_loop mx v s (length s) =
     (if list_all is_digit s \<and> foldl (\<lambda>v c. v * 10 + int (digit_val c)) v s \<le> mx
      then foldl (\<lambda>v c. v * 10 + int (digit_val c)) v s else - 1)"
proof (induction s arbitrary: v)
  case Nil
  then show ?case by simp
next
  case (Cons c s)
  let ?v = "v * 10 + int (digit_val c)"
  show ?case
  proof (cases "is_digit c \<and> ?v \<le> mx")
    case True
    then have "atoi_loop mx v (c # s) (length (c # s)) = atoi_loop mx ?v s (length s)"
      using atoi_cutoff [of v "int (digit_val c)" mx] Cons.prems digit_val_le [of c] by auto
    with True Cons show ?thesis by simp
  next
    case False
    have "?v \<le> foldl (\<lambda>v c. v * 10 + int (digit_val c)) ?v s"
      using Cons.prems by (intro foldl_dec_ge) simp
    with False show ?thesis
      using atoi_cutoff [of v "int (digit_val c)" mx] Cons.prems digit_val_le [of c] by auto
  qed
qed

lemma ngx_atoi_eq:
  "ngx_atoi s (length s) =
     (if s \<noteq> [] \<and> list_all is_digit s \<and> dec_value s \<le> NGX_MAX_INT_T_VALUE
      then dec_value s else - 1)"
  unfolding ngx_atoi_def dec_value_def
  using atoi_loop_eq [of 0 NGX_MAX_INT_T_VALUE s] by auto

lemma dec_value_nonneg: "0 \<le> dec_value s"
  unfolding dec_value_def by (rule foldl_dec_ge) simp

lemma digit_chr_digit: "d < 10 \<Longrightarrow> is_digit (digit_chr d) \<and> digit_val (digit_chr d) = d"
  by (simp add: is_digit_iff digit_val_def digit_chr_def)

lemma dec_value_snoc: "dec_value (s @ [c]) = dec_value s * 10 + int (digit_val c)"
  by (simp add: dec_value_def)

lemma ngx_sprintf_num_digits: "list_all is_digit (ngx_sprintf_num n) \<and> ngx_sprintf_num n \<noteq> []"
proof (induction n rule: ngx_sprintf_num.induct)
  case (1 n)
  then show ?case by (subst (1 2) ngx_sprintf_num.simps) (simp add: digit_chr_digit)
qed

lemma dec_value_sprintf_num: "dec_value (ngx_sprintf_num n) = int n"
proof (induction n rule: ngx_sprintf_num.induct)
  case (1 n)
  show ?case
  proof (cases "n < 10")
    case True
    then show ?thesis by (simp add: ngx_sprintf_num.simps [of n] dec_value_def digit_chr_digit)
  next
    case False
    with 1 have "dec_value (ngx_sprintf_num (n div 10)) = int (n div 10)" by simp
    moreover have "int (n div 10) * 10 + int (n mod 10) = int n" by presburger
    ultimately show ?thesis
      using False by (simp add: ngx_sprintf_num.simps [of n] dec_value_snoc digit_chr_digit)
  qed
qed

lemma ngx_atoi_range: "ngx_atoi s n = - 1 \<or> 0 \<le> ngx_atoi s n \<and> ngx_atoi s n \<le> NGX_MAX_INT_T_VALUE"
proof -
  have "atoi_loop mx v s n = - 1 \<or> 0 \<le> atoi_loop mx v s n \<and> atoi_loop mx v s n \<le> mx"
    if "0 \<le> v" "v \<le> mx" for mx v
    using that
  proof (induction mx v s n rule: atoi_loop.induct)
    case (3 mx v c cs n)
    then show ?case
      using atoi_cutoff [of v "int (digit_val c)" mx] digit_val_le [of c] by auto
  qed simp_all
  then show ?thesis by (simp add: ngx_atoi_def)
qed

lemma atoi_loop_append: "atoi_loop mx v (s @ r) (length s) = atoi_loop mx v s (length s)"
  by (induction s arbitrary: v) auto

lemma ngx_atoi_append: "ngx_atoi (s @ r) (length s) = ngx_atoi s (length s)"
  by (simp add: ngx_atoi_def atoi_loop_append)

lemma length_ngx_sprintf_num: "n < 10 ^ Suc k \<Longrightarrow> length (ngx_sprintf_num n) \<le> Suc k"
proof (induction k arbitrary: n)
  case 0
  then show ?case by (simp add: ngx_sprintf_num.simps)
next
  case (Suc k)
  then have "n div 10 < 10 ^ Suc k" by simp
  from Suc.IH [OF this] show ?case
    by (subst ngx_sprintf_num.simps) simp
qed

text \<open>A pattern not found before a byte that is not in it is searched from there.\<close>

lemma is_prefix_straddle:
  "c \<notin> set pat \<Longrightarrow> is_prefix pat (us @ c # ys) \<Longrightarrow> is_prefix pat us"
  by (induction pat us rule: is_prefix.induct) auto

lemma is_prefix_append_right: "is_prefix pat us \<Longrightarrow> is_prefix pat (us @ ys)"
  by (auto simp: is_prefix_append)

lemma ngx_strstr_skip:
  "c \<notin> set pat \<Longrightarrow> pat \<noteq> [] \<Longrightarrow> ngx_strstr us pat = None \<Longrightarrow>
     ngx_strstr (us @ c # ys) pat = map_option (\<lambda>i. i + Suc (length us)) (ngx_strstr ys pat)"
proof (induction us)
  case Nil
  then show ?case by (cases pat) (auto simp: option.map_comp o_def)
next
  case (Cons u us)
  from Cons.prems(3) have n: "\<not> is_prefix pat (u # us)" "ngx_strstr us pat = None"
    by (auto split: if_splits)
  then have "\<not> is_prefix pat (u # us @ c # ys)"
    using is_prefix_straddle [of c pat "u # us" ys] Cons.prems(1) by auto
  with Cons.IH [OF Cons.prems(1,2) n(2)] show ?case
    by (simp add: option.map_comp o_def)
qed

lemma ngx_strlchr_append:
  "c \<notin> set xs \<Longrightarrow> ngx_strlchr (xs @ c # ys) c = Some (length xs)"
  by (induction xs) auto

lemma ngx_strstr_None_prefix: "ngx_strstr (us @ ys) pat = None \<Longrightarrow> ngx_strstr us pat = None"
proof (induction us)
  case Nil
  then show ?case by (cases ys; cases pat) auto
next
  case (Cons u us)
  then show ?case using is_prefix_append_right [of pat "u # us" ys] by (auto split: if_splits)
qed

lemma unat_of_nat_minus: "k \<le> j \<Longrightarrow> j < 18446744073709551616 \<Longrightarrow> unat (of_nat j - of_nat k :: 64 word) = j - k"
  by (simp flip: of_nat_diff add: unat_of_nat)

lemma ngx_strncasecmp_append:
  "ngx_strncasecmp (s @ r) t (length s) = ngx_strncasecmp s t (length s)"
  by (induction s arbitrary: t) (auto simp: Let_def)

subsection \<open>Properties\<close>

text \<open>\<open>ngx_atoi\<close> gives the value of a nonempty string of decimal digits when it fits the signed
  range, and \<open>NGX_ERROR\<close> for every other string.\<close>

theorem ngx_atoi_value:
  "ngx_atoi s (length s) =
     (if s \<noteq> [] \<and> list_all is_digit s \<and> dec_value s \<le> NGX_MAX_INT_T_VALUE then dec_value s else - 1)"
  by (rule ngx_atoi_eq)

text \<open>Printing a number in decimal and reading it back gives the number.\<close>

theorem ngx_atoi_sprintf_num:
  assumes "int n \<le> NGX_MAX_INT_T_VALUE"
  shows "ngx_atoi (ngx_sprintf_num n) (length (ngx_sprintf_num n)) = int n"
  using assms ngx_sprintf_num_digits [of n] by (simp add: ngx_atoi_eq dec_value_sprintf_num)

lemma ngx_atoi_sprintf_num_witness: "ngx_atoi ''80'' 2 = 80"
proof -
  have "ngx_sprintf_num 80 = ''80''" by code_simp
  then show ?thesis using ngx_atoi_sprintf_num [of 80] by (simp add: eval_nat_numeral)
qed

end
