(* ===== verification/Status_Line.thy ===== *)
theory Status_Line
  imports Ngx_String
begin

text \<open>
  The incremental HTTP response-head parser of \<open>ngx_healthcheck_common.c\<close>
  (\<open>ngx_upstream_check_http_parse_status_line\<close>): its enumeration of states, one function for
  the \<open>switch\<close> on one byte, the loop over the bytes received so far, and the function with its
  saved position and state. The lemmas show that the parser is insensitive to how the response
  is cut into chunks, stays inside the buffer, computes a three-digit code, and accepts every
  well-formed head with the body starting right after it.
\<close>

subsection \<open>Data\<close>

datatype sl_state =
    sw_start | sw_H | sw_HT | sw_HTT | sw_HTTP
  | sw_first_major_digit | sw_major_digit | sw_first_minor_digit | sw_minor_digit
  | sw_status | sw_space_after_status | sw_status_text
  | sw_lf | sw_cr | sw_almost_done | receive_body

definition sl_states :: "sl_state list" where
  "sl_states =
     [sw_start, sw_H, sw_HT, sw_HTT, sw_HTTP,
      sw_first_major_digit, sw_major_digit, sw_first_minor_digit, sw_minor_digit,
      sw_status, sw_space_after_status, sw_status_text,
      sw_lf, sw_cr, sw_almost_done, receive_body]"

text \<open>The number the enumeration gives a state; the parser saves it in a \<open>ngx_uint_t\<close>.\<close>

fun sl_num :: "sl_state \<Rightarrow> nat" where
  "sl_num sw_start = 0"
| "sl_num sw_H = 1"
| "sl_num sw_HT = 2"
| "sl_num sw_HTT = 3"
| "sl_num sw_HTTP = 4"
| "sl_num sw_first_major_digit = 5"
| "sl_num sw_major_digit = 6"
| "sl_num sw_first_minor_digit = 7"
| "sl_num sw_minor_digit = 8"
| "sl_num sw_status = 9"
| "sl_num sw_space_after_status = 10"
| "sl_num sw_status_text = 11"
| "sl_num sw_lf = 12"
| "sl_num sw_cr = 13"
| "sl_num sw_almost_done = 14"
| "sl_num receive_body = 15"

text \<open>\<open>ngx_buf_t\<close>: the block \<open>start\<close> points to (\<open>None\<close> for \<open>NULL\<close>) and the offsets of \<open>pos\<close>,
  \<open>last\<close> and \<open>end\<close> from it.\<close>

record ngx_buf_t =
  b_blk :: "nat option"
  b_pos :: nat
  b_last :: nat
  b_end :: nat

record ngx_http_status_t =
  st_code :: ngx_uint_t
  st_count :: ngx_uint_t
  st_start :: "ptr option"
  st_end :: "ptr option"

definition status_zero :: ngx_http_status_t where
  "status_zero = \<lparr>st_code = 0, st_count = 0, st_start = None, st_end = None\<rparr>"

text \<open>What one iteration of the loop does: go on in a state, \<open>return NGX_ERROR\<close>,
  \<open>goto done\<close>, or \<open>return NGX_OK\<close>.\<close>

datatype sl_act = Sl_Next sl_state ngx_http_status_t | Sl_Error | Sl_Done ngx_http_status_t | Sl_Ok

subsection \<open>The parser\<close>

fun sl_step :: "nat \<Rightarrow> nat \<Rightarrow> sl_state \<Rightarrow> char \<Rightarrow> ngx_http_status_t \<Rightarrow> sl_act" where
  "sl_step k p sw_start ch st = (if ch \<noteq> CHR ''H'' then Sl_Error else Sl_Next sw_H st)"
| "sl_step k p sw_H ch st = (if ch \<noteq> CHR ''T'' then Sl_Error else Sl_Next sw_HT st)"
| "sl_step k p sw_HT ch st = (if ch \<noteq> CHR ''T'' then Sl_Error else Sl_Next sw_HTT st)"
| "sl_step k p sw_HTT ch st = (if ch \<noteq> CHR ''P'' then Sl_Error else Sl_Next sw_HTTP st)"
| "sl_step k p sw_HTTP ch st =
     (if ch \<noteq> CHR ''/'' then Sl_Error else Sl_Next sw_first_major_digit st)"
| "sl_step k p sw_first_major_digit ch st =
     (if ch < CHR ''1'' \<or> CHR ''9'' < ch then Sl_Error else Sl_Next sw_major_digit st)"
| "sl_step k p sw_major_digit ch st =
     (if ch = CHR ''.'' then Sl_Next sw_first_minor_digit st
      else if \<not> is_digit ch then Sl_Error else Sl_Next sw_major_digit st)"
| "sl_step k p sw_first_minor_digit ch st =
     (if \<not> is_digit ch then Sl_Error else Sl_Next sw_minor_digit st)"
| "sl_step k p sw_minor_digit ch st =
     (if ch = SP then Sl_Next sw_status st
      else if \<not> is_digit ch then Sl_Error else Sl_Next sw_minor_digit st)"
| "sl_step k p sw_status ch st =
     (if ch = SP then Sl_Next sw_status st
      else if \<not> is_digit ch then Sl_Error
      else
        let st = st\<lparr>st_code := st_code st * 10 + of_nat (digit_val ch),
                    st_count := st_count st + 1\<rparr>
        in if st_count st = 3
           then Sl_Next sw_space_after_status (st\<lparr>st_start := Some (k, p - 2)\<rparr>)
           else Sl_Next sw_status st)"
| "sl_step k p sw_space_after_status ch st =
     (if ch = SP then Sl_Next sw_status_text st
      else if ch = CHR ''.'' then Sl_Next sw_status_text st
      else if ch = CR then Sl_Next sw_almost_done st
      else if ch = LF then Sl_Done st
      else Sl_Error)"
| "sl_step k p sw_status_text ch st =
     (if ch = CR then Sl_Next sw_lf st
      else if ch = LF then Sl_Done st
      else Sl_Next sw_status_text st)"
| "sl_step k p sw_lf ch st = (if ch = LF then Sl_Next sw_cr st else Sl_Error)"
| "sl_step k p sw_cr ch st =
     (if ch = CR then Sl_Next sw_almost_done st else Sl_Next sw_status_text st)"
| "sl_step k p sw_almost_done ch st =
     (if ch = LF then Sl_Done (st\<lparr>st_end := Some (k, p - 1)\<rparr>) else Sl_Error)"
| "sl_step k p receive_body ch st = Sl_Ok"

text \<open>The loop over \<open>p\<close> from \<open>b->pos\<close> to \<open>b->last\<close>; the result is the return code with the final
  \<open>p\<close>, state and status.\<close>

fun sl_loop ::
  "nat \<Rightarrow> nat \<Rightarrow> sl_state \<Rightarrow> ngx_http_status_t \<Rightarrow> string
     \<Rightarrow> ngx_rc \<times> nat \<times> sl_state \<times> ngx_http_status_t" where
  "sl_loop k p s st [] = (NGX_AGAIN, p, s, st)"
| "sl_loop k p s st (ch # bs) =
     (case sl_step k p s ch st of
        Sl_Next s' st' \<Rightarrow> sl_loop k (Suc p) s' st' bs
      | Sl_Error \<Rightarrow> (NGX_ERROR, p, s, st)
      | Sl_Done st' \<Rightarrow> (NGX_DONE, p, s, st')
      | Sl_Ok \<Rightarrow> (NGX_OK, p, s, st))"

text \<open>\<open>NGX_DONE\<close> marks \<open>goto done\<close>, which sets the position and returns \<open>NGX_OK\<close>. A saved state
  outside the enumeration would match no \<open>case\<close>: every byte is skipped.\<close>

definition ngx_upstream_check_http_parse_status_line ::
  "mem \<Rightarrow> ngx_buf_t \<Rightarrow> nat \<Rightarrow> ngx_http_status_t \<Rightarrow> ngx_rc \<times> ngx_buf_t \<times> nat \<times> ngx_http_status_t"
where
  "ngx_upstream_check_http_parse_status_line m b pstate status =
     (if pstate = sl_num receive_body then (NGX_OK, b, pstate, status)
      else
        let k = (case b_blk b of None \<Rightarrow> 0 | Some k \<Rightarrow> k);
            bytes = (case b_blk b of None \<Rightarrow> []
                     | Some k \<Rightarrow> bytes_between (b_pos b) (b_last b) (m ! k))
        in if pstate \<ge> length sl_states then (NGX_AGAIN, b\<lparr>b_pos := b_last b\<rparr>, pstate, status)
           else (case sl_loop k (b_pos b) (sl_states ! pstate) status bytes of
              (NGX_AGAIN, p, s, st) \<Rightarrow> (NGX_AGAIN, b\<lparr>b_pos := p\<rparr>, sl_num s, st)
            | (NGX_DONE, p, s, st) \<Rightarrow>
                (NGX_OK, b\<lparr>b_pos := p + 1\<rparr>, sl_num receive_body,
                 if st_end st = None then st\<lparr>st_end := Some (k, p)\<rparr> else st)
            | (rc, p, s, st) \<Rightarrow> (rc, b, pstate, st)))"

subsection \<open>The enumeration\<close>

lemma sl_states_num [simp]: "sl_states ! sl_num s = s"
  by (cases s) (simp_all add: sl_states_def)

lemma sl_num_less [simp]: "sl_num s < length sl_states"
  by (cases s) (simp_all add: sl_states_def)

lemma sl_num_inject [simp]: "sl_num s = sl_num t \<longleftrightarrow> s = t"
  by (metis sl_states_num)

lemma sl_num_receive_body [simp]: "sl_num s = 15 \<longleftrightarrow> s = receive_body"
  using sl_num_inject [of s receive_body] by simp

lemma length_sl_states [simp]: "length sl_states = 16"
  by (simp add: sl_states_def)

lemma sl_num_bound [simp]: "sl_num s < 16" "\<not> 16 \<le> sl_num s"
  by (cases s; simp)+

subsection \<open>The loop\<close>

text \<open>Cutting the input anywhere and resuming from the saved state changes nothing.\<close>

lemma sl_loop_append:
  "sl_loop k p s st (xs @ ys) =
     (case sl_loop k p s st xs of
        (NGX_AGAIN, p', s', st') \<Rightarrow> sl_loop k p' s' st' ys
      | r \<Rightarrow> r)"
  by (induction xs arbitrary: p s st) (simp_all split: sl_act.split)

lemma sl_loop_pos:
  "sl_loop k p s st bs = (rc, p', s', st') \<Longrightarrow>
     p \<le> p' \<and> p' \<le> p + length bs \<and> (rc = NGX_AGAIN \<longrightarrow> p' = p + length bs)
     \<and> (rc \<noteq> NGX_AGAIN \<longrightarrow> p' < p + length bs)"
proof (induction bs arbitrary: p s st)
  case Nil
  then show ?case by simp
next
  case (Cons ch bs)
  show ?case
  proof (cases "sl_step k p s ch st")
    case (Sl_Next s1 st1)
    with Cons.prems Cons.IH [of "Suc p" s1 st1] show ?thesis by auto
  qed (use Cons.prems in auto)
qed

lemma sl_step_no_receive_body: "sl_step k p s ch st = Sl_Next s' st' \<Longrightarrow> s' \<noteq> receive_body"
  by (cases s) (auto simp: Let_def split: if_splits)

lemma sl_loop_rc:
  "s \<noteq> receive_body \<Longrightarrow> sl_loop k p s st bs = (rc, p', s', st') \<Longrightarrow>
     rc \<in> {NGX_AGAIN, NGX_ERROR, NGX_DONE} \<and> s' \<noteq> receive_body"
proof (induction bs arbitrary: p s st)
  case Nil
  then show ?case by simp
next
  case (Cons ch bs)
  show ?case
  proof (cases "sl_step k p s ch st")
    case (Sl_Next s1 st1)
    with Cons sl_step_no_receive_body [of k p s ch st s1 st1] show ?thesis by simp
  next
    case Sl_Ok
    then have "s = receive_body" by (cases s) (auto simp: Let_def split: if_splits)
    with Cons.prems show ?thesis by simp
  qed (use Cons.prems in auto)
qed

text \<open>The status in each state: no digit before the code, at most three digits of it, and the
  start of the code recorded once it is complete.\<close>

definition sl_before_status :: "sl_state \<Rightarrow> bool" where
  "sl_before_status s \<longleftrightarrow> s \<in> {sw_start, sw_H, sw_HT, sw_HTT, sw_HTTP,
     sw_first_major_digit, sw_major_digit, sw_first_minor_digit, sw_minor_digit}"

definition sl_inv :: "sl_state \<Rightarrow> ngx_http_status_t \<Rightarrow> bool" where
  "sl_inv s st \<longleftrightarrow>
     (if sl_before_status s then st_count st = 0 \<and> st_code st = 0 \<and> st_start st = None \<and> st_end st = None
      else if s = sw_status
      then unat (st_count st) < 3 \<and> unat (st_code st) < 10 ^ unat (st_count st)
           \<and> st_start st = None \<and> st_end st = None
      else st_count st = 3 \<and> unat (st_code st) < 1000 \<and> st_start st \<noteq> None
           \<and> (s \<noteq> receive_body \<longrightarrow> st_end st = None))"

lemma unat_code_digit:
  assumes "unat (c :: 64 word) < 10 ^ n" "n < 3" "d \<le> 9"
  shows "unat (c * 10 + of_nat d) < 10 ^ Suc n"
proof -
  from \<open>n < 3\<close> have n: "n = 0 \<or> n = 1 \<or> n = 2" by auto
  with assms(1) have c: "unat c < 100" by auto
  have "unat (c * 10) = unat c * 10"
    using c by (simp add: unat_word_ariths)
  moreover have "unat (of_nat d :: 64 word) = d"
    using \<open>d \<le> 9\<close> by (simp add: unat_of_nat)
  ultimately have "unat (c * 10 + of_nat d) = unat c * 10 + d"
    using c \<open>d \<le> 9\<close> by (simp add: unat_word_ariths)
  with assms(1,3) show ?thesis by simp
qed

lemma sl_inv_status_digit:
  assumes inv: "sl_inv sw_status st" and d: "is_digit ch"
    and st': "st' = st\<lparr>st_code := st_code st * 10 + of_nat (digit_val ch), st_count := st_count st + 1\<rparr>"
  shows "st_count st' = 3 \<Longrightarrow> sl_inv sw_space_after_status (st'\<lparr>st_start := Some q\<rparr>)"
    and "st_count st' \<noteq> 3 \<Longrightarrow> sl_inv sw_status st'"
proof -
  from inv have cnt: "unat (st_count st) < 3" and code: "unat (st_code st) < 10 ^ unat (st_count st)"
    by (simp_all add: sl_inv_def sl_before_status_def)
  have suc: "unat (st_count st') = Suc (unat (st_count st))"
    using cnt by (simp add: st' unat_plus_one_less)
  have c: "unat (st_code st') < 10 ^ Suc (unat (st_count st))"
    using unat_code_digit [OF code cnt digit_val_le [OF d]] by (simp add: st')
  {
    assume "st_count st' = 3"
    then have "Suc (unat (st_count st)) = 3" using suc by simp
    from c have "unat (st_code st') < 1000"
      unfolding \<open>Suc (unat (st_count st)) = 3\<close> by simp
    then show "sl_inv sw_space_after_status (st'\<lparr>st_start := Some q\<rparr>)"
      using \<open>st_count st' = 3\<close> inv by (simp add: sl_inv_def sl_before_status_def st')
  }
  {
    assume "st_count st' \<noteq> 3"
    then have "unat (st_count st') \<noteq> 3"
      using word_unat_eq_iff [of "st_count st'" 3] by simp
    with suc cnt have "unat (st_count st') < 3" by simp
    with c suc inv show "sl_inv sw_status st'" by (simp add: sl_inv_def sl_before_status_def st')
  }
qed

lemma sl_step_inv:
  assumes "sl_step k p s ch st = Sl_Next s' st'" "sl_inv s st"
  shows "sl_inv s' st'"
proof (cases "s = sw_status")
  case True
  with assms sl_inv_status_digit [OF _ _ refl, of st ch] show ?thesis
    by (auto simp: Let_def split: if_splits)
next
  case False
  with assms show ?thesis
    by (cases s) (auto simp: sl_inv_def sl_before_status_def split: if_splits)
qed

lemma sl_step_done_inv:
  "sl_step k p s ch st = Sl_Done st' \<Longrightarrow> sl_inv s st \<Longrightarrow>
     st_count st' = 3 \<and> unat (st_code st') < 1000 \<and> st_start st' \<noteq> None"
  by (cases s) (auto simp: sl_inv_def sl_before_status_def Let_def split: if_splits)

lemma sl_loop_inv:
  "sl_loop k p s st bs = (rc, p', s', st') \<Longrightarrow> sl_inv s st \<Longrightarrow>
     (rc = NGX_AGAIN \<longrightarrow> sl_inv s' st')
     \<and> (rc = NGX_DONE \<longrightarrow> st_count st' = 3 \<and> unat (st_code st') < 1000 \<and> st_start st' \<noteq> None)"
proof (induction bs arbitrary: p s st)
  case Nil
  then show ?case by simp
next
  case (Cons ch bs)
  show ?case
  proof (cases "sl_step k p s ch st")
    case (Sl_Next s1 st1)
    with Cons show ?thesis using sl_step_inv [OF Sl_Next] by simp
  next
    case (Sl_Done st1)
    with Cons show ?thesis using sl_step_done_inv [OF Sl_Done] by simp
  qed (use Cons.prems in auto)
qed

lemma sl_inv_zero: "sl_inv sw_start status_zero"
  by (simp add: sl_inv_def sl_before_status_def status_zero_def)

subsection \<open>Well-formed heads\<close>

text \<open>Runs of bytes that keep a state.\<close>

lemma sl_loop_major:
  "list_all is_digit ds \<Longrightarrow>
     sl_loop k p sw_major_digit st (ds @ r) = sl_loop k (p + length ds) sw_major_digit st r"
  by (induction ds arbitrary: p) auto

lemma sl_loop_minor:
  "list_all is_digit ds \<Longrightarrow>
     sl_loop k p sw_minor_digit st (ds @ r) = sl_loop k (p + length ds) sw_minor_digit st r"
  by (induction ds arbitrary: p) auto

lemma sl_loop_text:
  "CR \<notin> set t \<Longrightarrow> LF \<notin> set t \<Longrightarrow>
     sl_loop k p sw_status_text st (t @ r) = sl_loop k (p + length t) sw_status_text st r"
  by (induction t arbitrary: p) auto

definition crlf :: string where
  "crlf = [CR, LF]"

text \<open>A header line: not empty, no CR or LF in it.\<close>

definition wf_header :: "string \<Rightarrow> bool" where
  "wf_header h \<longleftrightarrow> h \<noteq> [] \<and> CR \<notin> set h \<and> LF \<notin> set h"

definition header_lines :: "string list \<Rightarrow> string" where
  "header_lines hs = concat (map (\<lambda>h. h @ crlf) hs)"

lemma header_lines_simps [simp]:
  "header_lines [] = []" "header_lines (h # hs) = h @ crlf @ header_lines hs"
  by (simp_all add: header_lines_def)

lemma length_crlf [simp]: "length crlf = 2"
  by (simp add: crlf_def)

lemma sl_loop_crlf_text:
  "sl_loop k p sw_status_text st (crlf @ r) = sl_loop k (p + 2) sw_cr st r"
  by (simp add: crlf_def)

lemma sl_loop_header:
  assumes "wf_header h"
  shows "sl_loop k p sw_cr st (h @ crlf @ r) = sl_loop k (p + length h + 2) sw_cr st r"
proof -
  from assms obtain c t where h: "h = c # t" by (auto simp: wf_header_def neq_Nil_conv)
  with assms have "sl_loop k p sw_cr st (h @ crlf @ r) = sl_loop k (Suc p) sw_status_text st (t @ crlf @ r)"
    by (auto simp: wf_header_def)
  also have "\<dots> = sl_loop k (p + length h + 2) sw_cr st r"
    using assms h by (simp add: wf_header_def sl_loop_text sl_loop_crlf_text)
  finally show ?thesis .
qed

lemma sl_loop_headers:
  "list_all wf_header hs \<Longrightarrow>
     sl_loop k p sw_cr st (header_lines hs @ r) = sl_loop k (p + length (header_lines hs)) sw_cr st r"
  by (induction hs arbitrary: p) (simp_all add: sl_loop_header add.commute add.left_commute)

text \<open>A response head: version, a three-digit code, a reason and header lines.\<close>

definition response_head :: "string \<Rightarrow> string \<Rightarrow> string \<Rightarrow> string \<Rightarrow> string list \<Rightarrow> string" where
  "response_head maj mnr code reason hs =
     ''HTTP/'' @ maj @ ''.'' @ mnr @ '' '' @ code @ '' '' @ reason @ crlf @ header_lines hs @ crlf"

definition wf_response :: "string \<Rightarrow> string \<Rightarrow> string \<Rightarrow> string \<Rightarrow> string list \<Rightarrow> bool" where
  "wf_response maj mnr code reason hs \<longleftrightarrow>
     maj \<noteq> [] \<and> list_all is_digit maj \<and> hd maj \<noteq> CHR ''0'' \<and>
     mnr \<noteq> [] \<and> list_all is_digit mnr \<and>
     length code = 3 \<and> list_all is_digit code \<and>
     CR \<notin> set reason \<and> LF \<notin> set reason \<and> list_all wf_header hs"

lemma first_major:
  "is_digit c \<Longrightarrow> c \<noteq> CHR ''0'' \<Longrightarrow> \<not> (c < CHR ''1'' \<or> CHR ''9'' < c)"
proof -
  assume d: "is_digit c" and n: "c \<noteq> CHR ''0''"
  have "(of_char c :: nat) \<noteq> 48"
    using n of_char_eq_iff [where 'a = nat, of c "CHR ''0''"] by simp
  with d show ?thesis by (simp add: is_digit_iff less_char_def)
qed

lemma sl_loop_code:
  assumes "list_all is_digit code" "length code = 3"
  shows "sl_loop k p sw_status status_zero (code @ r) =
    sl_loop k (p + 3) sw_space_after_status
      (status_zero\<lparr>st_code := of_int (dec_value code), st_count := 3, st_start := Some (k, p)\<rparr>) r"
proof -
  from assms(2) obtain a b c where code: "code = [a, b, c]"
    by (auto simp: length_Suc_conv numeral_3_eq_3)
  from assms(1) have d: "a \<noteq> SP" "b \<noteq> SP" "c \<noteq> SP" "is_digit a" "is_digit b" "is_digit c"
    by (auto simp: code)
  have n: "(1::64 word) \<noteq> 3" "(2::64 word) \<noteq> 3" by simp_all
  show ?thesis
    using d n by (simp add: code status_zero_def Let_def dec_value_def algebra_simps eval_nat_numeral)
qed

lemma sl_loop_response_head:
  assumes wf: "wf_response maj mnr code reason hs"
  shows "sl_loop k p sw_start status_zero (response_head maj mnr code reason hs @ body) =
    (NGX_DONE, p + length (response_head maj mnr code reason hs) - 1, sw_almost_done,
     \<lparr>st_code = of_int (dec_value code), st_count = 3,
      st_start = Some (k, p + 7 + length maj + length mnr),
      st_end = Some (k, p + length (response_head maj mnr code reason hs) - 2)\<rparr>)"
proof -
  from wf obtain a maj' where maj: "maj = a # maj'" "is_digit a" "a \<noteq> CHR ''0''" "list_all is_digit maj'"
    by (auto simp: wf_response_def neq_Nil_conv)
  from wf obtain b mnr' where mnr: "mnr = b # mnr'" "is_digit b" "list_all is_digit mnr'"
    by (auto simp: wf_response_def neq_Nil_conv)
  let ?st = "status_zero\<lparr>st_code := of_int (dec_value code), st_count := 3,
      st_start := Some (k, p + 7 + length maj + length mnr)\<rparr>"
  let ?tail = "'' '' @ reason @ crlf @ header_lines hs @ crlf @ body"
  have "sl_loop k p sw_start status_zero (response_head maj mnr code reason hs @ body) =
      sl_loop k (p + 6) sw_major_digit status_zero (maj' @ ''.'' @ mnr @ '' '' @ code @ ?tail)"
    using first_major [OF maj(2,3)] by (simp add: response_head_def maj(1) eval_nat_numeral)
  also have "\<dots> = sl_loop k (p + 8 + length maj') sw_minor_digit status_zero (mnr' @ '' '' @ code @ ?tail)"
    using maj(4) mnr(1,2) by (simp add: sl_loop_major eval_nat_numeral)
  also have "\<dots> = sl_loop k (p + 7 + length maj + length mnr) sw_status status_zero (code @ ?tail)"
    using mnr(1,3) maj(1) by (simp add: sl_loop_minor eval_nat_numeral)
  also have "\<dots> = sl_loop k (p + 10 + length maj + length mnr) sw_space_after_status ?st ?tail"
    using wf sl_loop_code [of code k "p + 7 + length maj + length mnr" ?tail]
    by (simp add: wf_response_def add.commute add.left_commute)
  also have "\<dots> = sl_loop k (p + 11 + length maj + length mnr + length reason) sw_status_text ?st
      (crlf @ header_lines hs @ crlf @ body)"
    using wf by (simp add: wf_response_def sl_loop_text eval_nat_numeral)
  also have "\<dots> = sl_loop k (p + 13 + length maj + length mnr + length reason + length (header_lines hs))
      sw_cr ?st (crlf @ body)"
    using wf by (simp add: wf_response_def sl_loop_crlf_text sl_loop_headers add.commute add.left_commute)
  finally show ?thesis
    using wf by (simp add: wf_response_def crlf_def status_zero_def response_head_def eval_nat_numeral)
qed

subsection \<open>Properties\<close>

lemma bytes_between_append:
  "p \<le> q \<Longrightarrow> q \<le> l \<Longrightarrow> bytes_between p l xs = bytes_between p q xs @ bytes_between q l xs"
proof -
  assume "p \<le> q" "q \<le> l"
  then obtain d e where "q = p + d" "l = p + d + e" using le_Suc_ex by metis
  then show ?thesis by (simp add: bytes_between_def take_add drop_drop add.commute)
qed

text \<open>C19: Parsing a response head does not depend on how it arrives. If the parser asked for more
  after the first part, resuming it when more bytes are in the buffer gives the verdict of parsing
  everything at once; unless that is an error, also the same position, state and status.\<close>

theorem status_line_chunks:
  assumes "b_blk b = Some k" and "b_pos b \<le> l" and "l \<le> l'" and "l' \<le> length (m ! k)"
    and "s < 15"
    and "ngx_upstream_check_http_parse_status_line m (b\<lparr>b_last := l\<rparr>) s st = (NGX_AGAIN, b1, s1, st1)"
  shows "(case ngx_upstream_check_http_parse_status_line m (b\<lparr>b_last := l'\<rparr>) s st of
            (NGX_ERROR, _, _, _) \<Rightarrow>
              fst (ngx_upstream_check_http_parse_status_line m (b1\<lparr>b_last := l'\<rparr>) s1 st1) = NGX_ERROR
          | r \<Rightarrow> ngx_upstream_check_http_parse_status_line m (b1\<lparr>b_last := l'\<rparr>) s1 st1 = r)"
proof -
  let ?s = "sl_states ! s"
  let ?x = "bytes_between (b_pos b) l (m ! k)" and ?y = "bytes_between l l' (m ! k)"
  have s15: "s \<noteq> sl_num receive_body" using assms(5) by simp
  have ne: "?s \<noteq> receive_body"
  proof
    assume "?s = receive_body"
    moreover have "s < length sl_states" using assms(5) by simp
    moreover have "sl_states ! 15 = receive_body" "distinct sl_states" by (simp_all add: sl_states_def)
    ultimately have "s = 15" using nth_eq_iff_index_eq [of sl_states s 15] by simp
    with assms(5) show False by simp
  qed
  obtain rc p s' st' where r: "sl_loop k (b_pos b) ?s st ?x = (rc, p, s', st')" by (metis prod_cases4)
  have "rc = NGX_AGAIN"
    using assms(1,5,6) r sl_loop_rc [OF ne r]
    by (cases rc) (auto simp: ngx_upstream_check_http_parse_status_line_def)
  then have a: "sl_loop k (b_pos b) ?s st ?x = (NGX_AGAIN, p, s', st')" "p = l"
    "b1 = b\<lparr>b_last := l, b_pos := l\<rparr>" "s1 = sl_num s'" "st1 = st'" "s' \<noteq> receive_body"
    using assms r sl_loop_pos [OF r] sl_loop_rc [OF ne r]
    by (auto simp: ngx_upstream_check_http_parse_status_line_def)
  have whole: "sl_loop k (b_pos b) ?s st (bytes_between (b_pos b) l' (m ! k)) = sl_loop k l s' st' ?y"
    using a bytes_between_append [OF assms(2,3)] by (simp add: sl_loop_append)
  obtain rc2 p2 s2 st2 where r2: "sl_loop k l s' st' ?y = (rc2, p2, s2, st2)" by (metis prod_cases4)
  from sl_loop_rc [OF a(6) r2] consider "rc2 = NGX_AGAIN" | "rc2 = NGX_ERROR" | "rc2 = NGX_DONE" by auto
  then show ?thesis
    using assms(1,5) a whole r2
    by cases (simp_all add: ngx_upstream_check_http_parse_status_line_def)
qed

definition sample_buf :: "string \<Rightarrow> ngx_buf_t" where
  "sample_buf bs = \<lparr>b_blk = Some 0, b_pos = 0, b_last = length bs, b_end = 2048\<rparr>"

definition sample_head :: string where
  "sample_head = response_head ''1'' ''1'' ''200'' ''OK'' [''Server: x'']"

lemma status_line_chunks_witness:
  "fst (ngx_upstream_check_http_parse_status_line [sample_head]
      ((sample_buf sample_head)\<lparr>b_pos := 12, b_last := length sample_head\<rparr>) 10
      \<lparr>st_code = 200, st_count = 3, st_start = Some (0, 9), st_end = None\<rparr>) = NGX_OK"
proof -
  let ?b = "sample_buf sample_head"
  have "ngx_upstream_check_http_parse_status_line [sample_head] (?b\<lparr>b_last := 12\<rparr>) 0 status_zero
      = (NGX_AGAIN, ?b\<lparr>b_last := 12, b_pos := 12\<rparr>, 10,
         \<lparr>st_code = 200, st_count = 3, st_start = Some (0, 9), st_end = None\<rparr>)"
    by code_simp
  moreover have "length sample_head = 30" by code_simp
  moreover have "fst (ngx_upstream_check_http_parse_status_line [sample_head]
      (?b\<lparr>b_last := length sample_head\<rparr>) 0 status_zero) = NGX_OK" by code_simp
  ultimately show ?thesis
    using status_line_chunks [of ?b 0 12 "length sample_head" "[sample_head]" 0 status_zero]
    by (auto simp: sample_buf_def split: ngx_rc.splits prod.splits)
qed

text \<open>A well-formed response head is accepted: the parser gives the three digits of the code
  and leaves the position at the first byte of the body, whatever follows.\<close>

theorem status_line_accepts:
  assumes "wf_response maj mnr code reason hs" and "b_blk b = Some k" and "b_pos b \<le> b_last b"
    and "bytes_between (b_pos b) (b_last b) (m ! k) = response_head maj mnr code reason hs @ body"
  shows "\<exists>st. ngx_upstream_check_http_parse_status_line m b 0 status_zero =
      (NGX_OK, b\<lparr>b_pos := b_pos b + length (response_head maj mnr code reason hs)\<rparr>, 15, st)
    \<and> st_code st = of_int (dec_value code) \<and> st_count st = 3"
proof -
  have "0 < length (response_head maj mnr code reason hs)" by (simp add: response_head_def)
  then show ?thesis
    using assms(2,4) sl_loop_response_head [OF assms(1), of k "b_pos b" body]
    by (simp add: ngx_upstream_check_http_parse_status_line_def sl_states_def)
qed

lemma status_line_accepts_witness:
  "\<exists>st. ngx_upstream_check_http_parse_status_line [sample_head @ ''body''] (sample_buf (sample_head @ ''body''))
      0 status_zero = (NGX_OK, (sample_buf (sample_head @ ''body''))\<lparr>b_pos := 30\<rparr>, 15, st)
    \<and> st_code st = 200 \<and> st_count st = 3"
proof -
  have "wf_response ''1'' ''1'' ''200'' ''OK'' [''Server: x'']" "length sample_head = 30"
    "dec_value ''200'' = 200" by code_simp+
  then show ?thesis
    using status_line_accepts [of "''1''" "''1''" "''200''" "''OK''" "[''Server: x'']"
        "sample_buf (sample_head @ ''body'')" 0 "[sample_head @ ''body'']" "''body''"]
    by (simp add: sample_buf_def bytes_between_def flip: sample_head_def)
qed

text \<open>The first five bytes the parser accepts.\<close>

lemma sl_loop_prefix:
  assumes "sl_loop k p sw_start st bs = (NGX_DONE, p', s', st')"
  shows "is_prefix ''HTTP/'' bs"
proof -
  have 5: "\<exists>r. bs = CHR ''/'' # r" if "sl_loop k p sw_HTTP st bs = (NGX_DONE, p', s', st')" for p bs
    using that by (cases bs) (auto split: if_splits)
  have 4: "\<exists>r. bs = CHR ''P'' # CHR ''/'' # r" if "sl_loop k p sw_HTT st bs = (NGX_DONE, p', s', st')" for p bs
    using that 5 by (cases bs) (auto split: if_splits)
  have 3: "\<exists>r. bs = CHR ''T'' # CHR ''P'' # CHR ''/'' # r"
    if "sl_loop k p sw_HT st bs = (NGX_DONE, p', s', st')" for p bs
    using that 4 by (cases bs) (auto split: if_splits)
  have 2: "\<exists>r. bs = CHR ''T'' # CHR ''T'' # CHR ''P'' # CHR ''/'' # r"
    if "sl_loop k p sw_H st bs = (NGX_DONE, p', s', st')" for p bs
    using that 3 by (cases bs) (auto split: if_splits)
  show ?thesis
    using assms 2 by (cases bs) (fastforce split: if_splits)+
qed

text \<open>C22: Whatever bytes arrive, the parser stays in the buffer, and when a fresh parse succeeds the
  bytes start with \<open>HTTP/\<close>, the code has three digits (it is below 1000) and the body starts
  inside the received bytes.\<close>

theorem status_line_sound:
  assumes "b_blk b = Some k" and "b_pos b \<le> b_last b" and "b_last b \<le> length (m ! k)"
    and "ngx_upstream_check_http_parse_status_line m b 0 status_zero = (rc, b', s', st')"
  shows "(\<exists>p. b' = b\<lparr>b_pos := p\<rparr> \<and> b_pos b \<le> p \<and> p \<le> b_last b)
    \<and> (rc = NGX_OK \<longrightarrow> is_prefix ''HTTP/'' (bytes_between (b_pos b) (b_last b) (m ! k))
         \<and> unat (st_code st') < 1000 \<and> st_count st' = 3)"
proof -
  let ?bs = "bytes_between (b_pos b) (b_last b) (m ! k)"
  obtain rc1 p1 s1 st1 where l: "sl_loop k (b_pos b) sw_start status_zero ?bs = (rc1, p1, s1, st1)"
    by (metis prod_cases4)
  have len: "b_pos b + length ?bs = b_last b" using assms(2,3) by simp
  note pos = sl_loop_pos [OF l, unfolded len]
  note i = sl_loop_inv [OF l sl_inv_zero]
  have s0: "sl_states ! 0 = sw_start" by (simp add: sl_states_def)
  have "rc1 \<in> {NGX_AGAIN, NGX_ERROR, NGX_DONE}" using sl_loop_rc [OF _ l] by simp
  then consider "rc1 = NGX_AGAIN" | "rc1 = NGX_ERROR" | "rc1 = NGX_DONE" by blast
  then show ?thesis
  proof cases
    case 1
    with assms l s0 pos show ?thesis by (auto simp: ngx_upstream_check_http_parse_status_line_def)
  next
    case 2
    with assms l s0 show ?thesis
      by (auto simp: ngx_upstream_check_http_parse_status_line_def intro!: exI [of _ "b_pos b"])
  next
    case 3
    with assms l s0 pos i sl_loop_prefix show ?thesis
      by (auto simp: ngx_upstream_check_http_parse_status_line_def)
  qed
qed

lemma status_line_sound_witness:
  "is_prefix ''HTTP/'' sample_head"
proof -
  have "fst (ngx_upstream_check_http_parse_status_line [sample_head] (sample_buf sample_head) 0 status_zero) = NGX_OK"
    by code_simp
  then obtain b' s' st' where
    "ngx_upstream_check_http_parse_status_line [sample_head] (sample_buf sample_head) 0 status_zero = (NGX_OK, b', s', st')"
    by (metis prod.collapse)
  from status_line_sound [OF _ _ _ this, of 0] show ?thesis
    by (simp add: sample_buf_def bytes_between_def)
qed

end
