(* ===== verification/Ngx_Event.thy ===== *)
theory Ngx_Event
  imports Ngx_Prelude
begin

text \<open>
  What the checks use of nginx's event core: \<open>ngx_event_add_timer\<close> of \<open>ngx_event_timer.h\<close>,
  the expiry test of \<open>ngx_event_expire_timers\<close>, and \<open>ngx_event_connect_peer\<close> of
  \<open>ngx_event_connect.c\<close>. A timer is its key when it is set.
\<close>

subsection \<open>Timers\<close>

abbreviation (input) NGX_TIMER_LAZY_DELAY :: int where
  "NGX_TIMER_LAZY_DELAY \<equiv> 300"

definition ngx_event_add_timer :: "ngx_msec_t \<Rightarrow> ngx_msec_t option \<Rightarrow> ngx_msec_t \<Rightarrow> ngx_msec_t option" where
  "ngx_event_add_timer now ev timer =
     (let key = now + timer
      in case ev of
           None \<Rightarrow> Some key
         | Some old \<Rightarrow> if \<bar>sint (key - old)\<bar> < NGX_TIMER_LAZY_DELAY then Some old else Some key)"

text \<open>A timer is due when its key, as a signed distance from now, is not positive.\<close>

definition timer_due :: "ngx_msec_t \<Rightarrow> ngx_msec_t option \<Rightarrow> bool" where
  "timer_due now ev = (case ev of None \<Rightarrow> False | Some key \<Rightarrow> \<not> 0 < sint (key - now))"

subsection \<open>Connecting\<close>

text \<open>The results of the calls \<open>ngx_event_connect_peer\<close> makes for a peer connection with no local
  address and no socket options: the socket, a free connection, non-blocking mode, \<open>ngx_add_conn\<close>
  where the event method has it, \<open>connect()\<close>, and \<open>ngx_add_event\<close> for reading and writing.\<close>

datatype connect_result = Connected | In_Progress | Connect_Failed

record connect_io =
  k_socket :: bool
  k_connection :: bool
  k_nonblocking :: bool
  k_add_conn :: "bool option"
  k_connect :: connect_result
  k_add_read :: bool
  k_add_write :: bool

text \<open>The return code, and whether \<open>pc->connection\<close> is set.\<close>

definition ngx_event_connect_peer :: "connect_io \<Rightarrow> ngx_rc \<times> bool" where
  "ngx_event_connect_peer k =
     (if \<not> k_socket k then (NGX_ERROR, False)
      else if \<not> k_connection k then (NGX_ERROR, False)
      else if \<not> k_nonblocking k then (NGX_ERROR, False)
      else if k_add_conn k = Some False then (NGX_ERROR, False)
      else if k_connect k = Connect_Failed then (NGX_DECLINED, False)
      else if k_add_conn k \<noteq> None then
        (if k_connect k = In_Progress then (NGX_AGAIN, True) else (NGX_OK, True))
      else if \<not> k_add_read k then (NGX_ERROR, False)
      else if k_connect k = In_Progress then
        (if \<not> k_add_write k then (NGX_ERROR, False) else (NGX_AGAIN, True))
      else (NGX_OK, True))"

subsection \<open>Lemmas\<close>

lemma ngx_event_add_timer_set [simp]:
  "ngx_event_add_timer now ev timer \<noteq> None" "\<exists>key. ngx_event_add_timer now ev timer = Some key"
  by (simp_all add: ngx_event_add_timer_def Let_def split: option.split)

text \<open>Adding a timer leaves it within the lazy delay of the time asked for.\<close>

lemma ngx_event_add_timer_lazy:
  "ngx_event_add_timer now ev timer = Some key \<Longrightarrow> \<bar>sint (now + timer - key)\<bar> < NGX_TIMER_LAZY_DELAY"
  by (auto simp: ngx_event_add_timer_def Let_def split: option.splits if_splits)

lemma ngx_event_connect_peer_cases:
  "ngx_event_connect_peer k = (rc, con) \<Longrightarrow>
     rc \<in> {NGX_OK, NGX_AGAIN, NGX_ERROR, NGX_DECLINED} \<and> (con \<longleftrightarrow> rc \<in> {NGX_OK, NGX_AGAIN})"
  by (auto simp: ngx_event_connect_peer_def split: if_splits)

end
