(* ===== verification/Check_Types.thy ===== *)
theory Check_Types
  imports Status_Line Ngx_Event
begin

text \<open>
  The data of the health checker: the structures of \<open>common.h.in\<close> shared by the http and the
  stream module, the check context, the environment a handler run sees (clock, signals, results
  of socket and allocation calls), and the two tables of check types.
\<close>

subsection \<open>Constants\<close>

text \<open>\<open>NGX_HTTP_CHECK_CONNECT_DONE\<close> and its siblings; 0 is the value \<open>ngx_memzero\<close> leaves.\<close>

datatype check_state = Check_Zero | Check_Connect_Done | Check_Send_Done | Check_Recv_Done | Check_All_Done

abbreviation (input) NGX_CHECK_HTTP_2XX :: ngx_uint_t where "NGX_CHECK_HTTP_2XX \<equiv> 0x0002"
abbreviation (input) NGX_CHECK_HTTP_3XX :: ngx_uint_t where "NGX_CHECK_HTTP_3XX \<equiv> 0x0004"
abbreviation (input) NGX_CHECK_HTTP_4XX :: ngx_uint_t where "NGX_CHECK_HTTP_4XX \<equiv> 0x0008"
abbreviation (input) NGX_CHECK_HTTP_5XX :: ngx_uint_t where "NGX_CHECK_HTTP_5XX \<equiv> 0x0010"
abbreviation (input) NGX_CHECK_HTTP_ERR :: ngx_uint_t where "NGX_CHECK_HTTP_ERR \<equiv> 0x8000"
abbreviation (input) NGX_CONF_BITMASK_SET :: ngx_uint_t where "NGX_CONF_BITMASK_SET \<equiv> 1"

text \<open>The event handlers a connection or a check type can point to.\<close>

datatype ev_handler = Peek_Handler | Send_Handler | Recv_Handler | Dummy_Handler | Discard_Handler

text \<open>The packet functions (\<open>init\<close>, \<open>parse\<close>, \<open>reinit\<close>) a check type can point to.\<close>

datatype packet_init_pt = Init_Http | Init_Ssl_Hello | Init_Mysql | Init_Ajp
datatype packet_parse_pt = Parse_Http | Parse_Fastcgi | Parse_Ssl_Hello | Parse_Mysql | Parse_Ajp
datatype packet_reinit_pt = Reinit_Http | Reinit_Ssl_Hello | Reinit_Mysql | Reinit_Ajp

datatype sock_type = SOCK_STREAM | SOCK_DGRAM

subsection \<open>\<open>ngx_check_conf_t\<close>\<close>

datatype check_kind = Ck_Tcp | Ck_Http | Ck_Ssl_Hello | Ck_Mysql | Ck_Ajp | Ck_Udp

record ngx_check_conf_t =
  ct_type :: check_kind
  ct_name :: string
  ct_default_send :: "string option"
  ct_default_status_alive :: ngx_uint_t
  ct_send_handler :: ev_handler
  ct_recv_handler :: ev_handler
  ct_init :: "packet_init_pt option"
  ct_parse :: "packet_parse_pt option"
  ct_reinit :: "packet_reinit_pt option"
  ct_need_pool :: bool
  ct_need_keepalive :: bool

subsection \<open>\<open>ngx_upstream_check_srv_conf_t\<close>\<close>

text \<open>\<open>uc_send\<close> is \<open>None\<close> while \<open>send.data\<close> is \<open>NULL\<close>. The union \<open>code\<close> is read and written through
  \<open>status_alive\<close> only. A compiled regular expression is its pattern and whether it is caseless.\<close>

type_synonym regex = "string \<times> bool"

record ngx_upstream_check_srv_conf_t =
  uc_port :: ngx_uint_t
  uc_fall_count :: ngx_uint_t
  uc_rise_count :: ngx_uint_t
  uc_check_interval :: ngx_msec_t
  uc_check_timeout :: ngx_msec_t
  uc_check_keepalive_requests :: ngx_uint_t
  uc_check_type_conf :: "ngx_check_conf_t conf_ptr"
  uc_send :: "string option"
  uc_status_alive :: ngx_uint_t
  uc_expect_body_regex :: "regex option"
  uc_fastcgi_params :: "string list"
  uc_default_down :: ngx_uint_t

subsection \<open>Shared memory\<close>

text \<open>A sockaddr is its bytes; \<open>socklen\<close> is their number. A peer whose slot has not been
  initialised has no address.\<close>

record ngx_upstream_check_peer_shm_t =
  sh_owner :: ngx_pid_t
  sh_access_time :: ngx_msec_t
  sh_fall_count :: ngx_uint_t
  sh_rise_count :: ngx_uint_t
  sh_busyness :: ngx_uint_t
  sh_access_count :: ngx_uint_t
  sh_sockaddr :: "string option"
  sh_socklen :: nat
  sh_down :: ngx_uint_t
  sh_upstream_name :: "string option"

record ngx_upstream_check_peers_shm_t =
  ps_generation :: ngx_uint_t
  ps_checksum :: ngx_uint_t
  ps_number :: nat
  ps_peers :: "ngx_upstream_check_peer_shm_t list"

subsection \<open>Addresses, connections, contexts\<close>

record ngx_addr_t =
  a_sockaddr :: string
  a_name :: string

record ngx_connection_t =
  c_error :: bool
  c_requests :: ngx_uint_t
  c_write_handler :: ev_handler
  c_read_handler :: ev_handler
  c_pool :: bool

text \<open>The send buffer: the bytes it points into and the offsets of \<open>pos\<close> and \<open>last\<close>; \<open>start\<close> is
  offset 0 and \<open>end\<close> the length.\<close>

record send_buf_t =
  s_bytes :: string
  s_pos :: nat
  s_last :: nat

text \<open>\<open>ngx_http_upstream_check_ctx_t\<close> (and its stream twin), with the blocks its receive buffer
  and its status pointers refer to.\<close>

record check_ctx_t =
  x_send :: send_buf_t
  x_recv :: ngx_buf_t
  x_state :: nat
  x_status :: ngx_http_status_t
  x_padding :: nat
  x_length :: nat
  x_mem :: mem

record ngx_upstream_check_peer_t =
  p_state :: check_state
  p_pool :: bool
  p_index :: nat
  p_upstream_name :: string
  p_check_peer_addr :: ngx_addr_t
  p_peer_addr :: ngx_addr_t
  p_check_ev :: "ngx_msec_t option"
  p_check_timeout_ev :: "ngx_msec_t option"
  p_pc_type :: sock_type
  p_connection :: "ngx_connection_t option"
  p_check_data :: "check_ctx_t option"
  p_send_handler :: ev_handler
  p_recv_handler :: ev_handler
  p_init :: "packet_init_pt option"
  p_parse :: "packet_parse_pt option"
  p_reinit :: "packet_reinit_pt option"
  p_conf :: ngx_upstream_check_srv_conf_t

subsection \<open>The environment of a handler run\<close>

text \<open>What the kernel and the rest of nginx answer during one run: data arriving on the socket
  (each \<open>recv\<close> takes what fits; when nothing is left it would block), results of \<open>send\<close>, the
  one-byte peek (\<open>n\<close> and whether \<open>errno\<close> is \<open>EAGAIN\<close>), connecting, rearming events, and for which
  sizes the pool can allocate. \<open>e_junk\<close> is the value an uninitialised local variable happens to
  have, \<open>e_regex\<close> the outcome of PCRE on a subject (\<open>False\<close>: \<open>NGX_REGEX_NO_MATCHED\<close>). The signal
  flags and the clock do not change within one run.\<close>

datatype io = Io_Bytes string | Io_Again | Io_Error

datatype sent = Sent nat | Sent_Again | Sent_Error

record env =
  e_now :: ngx_msec_t
  e_pid :: ngx_pid_t
  e_exit :: bool
  e_connect :: connect_io
  e_peek :: "(int \<times> bool) list"
  e_recv :: "io list"
  e_send :: "sent list"
  e_read_event :: ngx_rc
  e_write_event :: ngx_rc
  e_palloc :: "nat \<Rightarrow> bool"
  e_pagesize :: nat
  e_regex :: "regex \<Rightarrow> string \<Rightarrow> bool"
  e_junk :: ngx_uint_t

subsection \<open>The check types of the http module\<close>

text \<open>The TLS client hello sent by \<open>ssl_hello\<close>, with the 28 bytes of \<open>NGX_SSL_RANDOM\<close>.\<close>

definition ngx_ssl_random :: string where
  "ngx_ssl_random = ''NGX_HTTP_CHECK_SSL_HELLO'' @ [LF, LF, LF, LF]"

definition bytes_of :: "nat list \<Rightarrow> string" where
  "bytes_of ns = map char_of ns"

definition sslv3_client_hello_pkt :: string where
  "sslv3_client_hello_pkt =
     bytes_of [0x16, 0x03, 0x01, 0x00, 0x6f, 0x01, 0x00, 0x00, 0x6b, 0x03, 0x03,
       0x00, 0x00, 0x00, 0x00]
     @ ngx_ssl_random
     @ bytes_of [0x00, 0x00, 0x1a,
       0xc0, 0x2b, 0xc0, 0x2f, 0xcc, 0xa9, 0xcc, 0xa8,
       0xc0, 0x0a, 0xc0, 0x09, 0xc0, 0x13, 0xc0, 0x14,
       0x00, 0x33, 0x00, 0x39, 0x00, 0x2f, 0x00, 0x35,
       0x00, 0x0a,
       0x01, 0x00, 0x00, 0x28,
       0x00, 0x0a, 0x00, 0x08, 0x00, 0x06,
       0x00, 0x17, 0x00, 0x18, 0x00, 0x19,
       0x00, 0x0d, 0x00, 0x18, 0x00, 0x16,
       0x04, 0x01, 0x05, 0x01, 0x06, 0x01, 0x02, 0x01,
       0x04, 0x03, 0x05, 0x03, 0x06, 0x03, 0x02, 0x03,
       0x05, 0x02, 0x04, 0x02, 0x02, 0x02]"

text \<open>\<open>ngx_string\<close> of the packet drops its last byte, the 0x00 it ends with.\<close>

definition ngx_ajp_cping_packet :: string where
  "ngx_ajp_cping_packet = bytes_of [0x12, 0x34, 0x00, 0x01, 0x0a]"

definition ngx_ajp_cpong_packet :: string where
  "ngx_ajp_cpong_packet = bytes_of [0x41, 0x42, 0x00, 0x01, 0x09]"

definition http_default_send :: string where
  "http_default_send = ''GET / HTTP/1.0'' @ [CR, LF, CR, LF]"

definition ngx_check_types :: "ngx_check_conf_t list" where
  "ngx_check_types =
    [\<lparr>ct_type = Ck_Tcp, ct_name = ''tcp'', ct_default_send = None, ct_default_status_alive = 0,
      ct_send_handler = Peek_Handler, ct_recv_handler = Peek_Handler,
      ct_init = None, ct_parse = None, ct_reinit = None,
      ct_need_pool = False, ct_need_keepalive = True\<rparr>,
     \<lparr>ct_type = Ck_Http, ct_name = ''http'', ct_default_send = Some http_default_send,
      ct_default_status_alive = NGX_CONF_BITMASK_SET OR NGX_CHECK_HTTP_2XX OR NGX_CHECK_HTTP_3XX,
      ct_send_handler = Send_Handler, ct_recv_handler = Recv_Handler,
      ct_init = Some Init_Http, ct_parse = Some Parse_Http, ct_reinit = Some Reinit_Http,
      ct_need_pool = True, ct_need_keepalive = True\<rparr>,
     \<lparr>ct_type = Ck_Http, ct_name = ''fastcgi'', ct_default_send = None, ct_default_status_alive = 0,
      ct_send_handler = Send_Handler, ct_recv_handler = Recv_Handler,
      ct_init = Some Init_Http, ct_parse = Some Parse_Fastcgi, ct_reinit = Some Reinit_Http,
      ct_need_pool = True, ct_need_keepalive = False\<rparr>,
     \<lparr>ct_type = Ck_Ssl_Hello, ct_name = ''ssl_hello'',
      ct_default_send = Some sslv3_client_hello_pkt, ct_default_status_alive = 0,
      ct_send_handler = Send_Handler, ct_recv_handler = Recv_Handler,
      ct_init = Some Init_Ssl_Hello, ct_parse = Some Parse_Ssl_Hello, ct_reinit = Some Reinit_Ssl_Hello,
      ct_need_pool = True, ct_need_keepalive = False\<rparr>,
     \<lparr>ct_type = Ck_Mysql, ct_name = ''mysql'', ct_default_send = None, ct_default_status_alive = 0,
      ct_send_handler = Send_Handler, ct_recv_handler = Recv_Handler,
      ct_init = Some Init_Mysql, ct_parse = Some Parse_Mysql, ct_reinit = Some Reinit_Mysql,
      ct_need_pool = True, ct_need_keepalive = False\<rparr>,
     \<lparr>ct_type = Ck_Ajp, ct_name = ''ajp'',
      ct_default_send = Some ngx_ajp_cping_packet, ct_default_status_alive = 0,
      ct_send_handler = Send_Handler, ct_recv_handler = Recv_Handler,
      ct_init = Some Init_Ajp, ct_parse = Some Parse_Ajp, ct_reinit = Some Reinit_Ajp,
      ct_need_pool = True, ct_need_keepalive = False\<rparr>]"

subsection \<open>The check types of the stream module\<close>

definition ngx_stream_check_types :: "ngx_check_conf_t list" where
  "ngx_stream_check_types =
    [\<lparr>ct_type = Ck_Tcp, ct_name = ''tcp'', ct_default_send = None, ct_default_status_alive = 0,
      ct_send_handler = Peek_Handler, ct_recv_handler = Peek_Handler,
      ct_init = None, ct_parse = None, ct_reinit = None,
      ct_need_pool = False, ct_need_keepalive = False\<rparr>,
     \<lparr>ct_type = Ck_Udp, ct_name = ''udp'', ct_default_send = Some ''NGX_UDP_CHECKER'',
      ct_default_status_alive = 0,
      ct_send_handler = Send_Handler, ct_recv_handler = Peek_Handler,
      ct_init = Some Init_Http, ct_parse = None, ct_reinit = Some Reinit_Http,
      ct_need_pool = True, ct_need_keepalive = False\<rparr>,
     \<lparr>ct_type = Ck_Http, ct_name = ''http'', ct_default_send = Some http_default_send,
      ct_default_status_alive = NGX_CONF_BITMASK_SET OR NGX_CHECK_HTTP_2XX OR NGX_CHECK_HTTP_3XX,
      ct_send_handler = Send_Handler, ct_recv_handler = Recv_Handler,
      ct_init = Some Init_Http, ct_parse = Some Parse_Http, ct_reinit = Some Reinit_Http,
      ct_need_pool = True, ct_need_keepalive = True\<rparr>]"

text \<open>\<open>ngx_http_get_check_type_conf\<close>: the first row whose name has the length of the argument and
  compares equal. The stream module has its own copy over its own table.\<close>

fun find_check_type :: "ngx_check_conf_t list \<Rightarrow> string \<Rightarrow> ngx_check_conf_t option" where
  "find_check_type [] str = None"
| "find_check_type (t # ts) str =
     (if length str \<noteq> length (ct_name t) then find_check_type ts str
      else if ngx_strncmp str (ct_name t) (length str) = 0 then Some t
      else find_check_type ts str)"

definition ngx_http_get_check_type_conf :: "string \<Rightarrow> ngx_check_conf_t option" where
  "ngx_http_get_check_type_conf str = find_check_type ngx_check_types str"

definition ngx_stream_get_check_type_conf :: "string \<Rightarrow> ngx_check_conf_t option" where
  "ngx_stream_get_check_type_conf str = find_check_type ngx_stream_check_types str"

subsection \<open>Sample values\<close>

text \<open>A configuration, an environment and a shared slot for the examples: check every second, down
  after two failures, up after three successes, type http; a quiet socket on Linux pages.\<close>

definition sample_conf :: ngx_upstream_check_srv_conf_t where
  "sample_conf =
     \<lparr>uc_port = 0, uc_fall_count = 2, uc_rise_count = 3, uc_check_interval = 1000,
      uc_check_timeout = 500, uc_check_keepalive_requests = 1,
      uc_check_type_conf = Ptr (ngx_check_types ! 1), uc_send = Some http_default_send,
      uc_status_alive = 2, uc_expect_body_regex = Some (''hi'', False), uc_fastcgi_params = [],
      uc_default_down = 1\<rparr>"

definition sample_connect :: connect_io where
  "sample_connect =
     \<lparr>k_socket = True, k_connection = True, k_nonblocking = True, k_add_conn = Some True,
      k_connect = Connected, k_add_read = True, k_add_write = True\<rparr>"

definition sample_env :: env where
  "sample_env =
     \<lparr>e_now = 100000, e_pid = 7, e_exit = False, e_connect = sample_connect, e_peek = [], e_recv = [],
      e_send = [], e_read_event = NGX_OK, e_write_event = NGX_OK, e_palloc = (\<lambda>_. True),
      e_pagesize = 4096, e_regex = (\<lambda>re body. body = fst re), e_junk = 0\<rparr>"

subsection \<open>Lemmas\<close>

lemma find_check_type_Some:
  "NUL \<notin> set str \<Longrightarrow> find_check_type ts str = Some t \<Longrightarrow> t \<in> set ts \<and> ct_name t = str"
  by (induction ts) (auto simp: ngx_strncmp_same_length' split: if_splits)

lemma find_check_type_None:
  "NUL \<notin> set str \<Longrightarrow> find_check_type ts str = None \<longleftrightarrow> str \<notin> ct_name ` set ts"
  by (induction ts) (auto simp: ngx_strncmp_same_length')

text \<open>What the rows of both tables have in common.\<close>

definition wf_check_type :: "ngx_check_conf_t \<Rightarrow> bool" where
  "wf_check_type t \<longleftrightarrow>
     ct_send_handler t \<in> {Peek_Handler, Send_Handler} \<and>
     ct_recv_handler t \<in> {Peek_Handler, Recv_Handler} \<and>
     (ct_send_handler t = Send_Handler \<longleftrightarrow> ct_need_pool t) \<and>
     (ct_send_handler t = Send_Handler \<longleftrightarrow> ct_init t \<noteq> None) \<and>
     (ct_recv_handler t = Recv_Handler \<longrightarrow> ct_send_handler t = Send_Handler \<and> ct_parse t \<noteq> None)"

lemma wf_check_types: "t \<in> set ngx_check_types \<union> set ngx_stream_check_types \<Longrightarrow> wf_check_type t"
  by (auto simp: ngx_check_types_def ngx_stream_check_types_def wf_check_type_def)

text \<open>The rows the examples use, for evaluation without the rest of the table.\<close>

lemma check_types_rows [code_unfold]:
  "ngx_check_types ! 0 =
     \<lparr>ct_type = Ck_Tcp, ct_name = ''tcp'', ct_default_send = None, ct_default_status_alive = 0,
      ct_send_handler = Peek_Handler, ct_recv_handler = Peek_Handler,
      ct_init = None, ct_parse = None, ct_reinit = None, ct_need_pool = False, ct_need_keepalive = True\<rparr>"
  "ngx_check_types ! 1 =
     \<lparr>ct_type = Ck_Http, ct_name = ''http'', ct_default_send = Some http_default_send,
      ct_default_status_alive = 7,
      ct_send_handler = Send_Handler, ct_recv_handler = Recv_Handler,
      ct_init = Some Init_Http, ct_parse = Some Parse_Http, ct_reinit = Some Reinit_Http,
      ct_need_pool = True, ct_need_keepalive = True\<rparr>"
  "ngx_check_types ! 4 =
     \<lparr>ct_type = Ck_Mysql, ct_name = ''mysql'', ct_default_send = None, ct_default_status_alive = 0,
      ct_send_handler = Send_Handler, ct_recv_handler = Recv_Handler,
      ct_init = Some Init_Mysql, ct_parse = Some Parse_Mysql, ct_reinit = Some Reinit_Mysql,
      ct_need_pool = True, ct_need_keepalive = False\<rparr>"
  "ngx_stream_check_types ! 0 =
     \<lparr>ct_type = Ck_Tcp, ct_name = ''tcp'', ct_default_send = None, ct_default_status_alive = 0,
      ct_send_handler = Peek_Handler, ct_recv_handler = Peek_Handler,
      ct_init = None, ct_parse = None, ct_reinit = None, ct_need_pool = False, ct_need_keepalive = False\<rparr>"
  "ngx_stream_check_types ! 1 =
     \<lparr>ct_type = Ck_Udp, ct_name = ''udp'', ct_default_send = Some ''NGX_UDP_CHECKER'',
      ct_default_status_alive = 0,
      ct_send_handler = Send_Handler, ct_recv_handler = Peek_Handler,
      ct_init = Some Init_Http, ct_parse = None, ct_reinit = Some Reinit_Http,
      ct_need_pool = True, ct_need_keepalive = False\<rparr>"
  by (simp_all add: ngx_check_types_def ngx_stream_check_types_def)

end
