(* ===== verification/Check_Packets.thy ===== *)
theory Check_Packets
  imports Check_Types
begin

text \<open>
  The packet functions of the check types (\<open>init\<close>, \<open>parse\<close>, \<open>reinit\<close>): http, ssl_hello, mysql
  and ajp of \<open>ngx_http_upstream_check_module.c\<close>, and the http ones of the stream module, which
  are the same code. A \<open>parse\<close> gives the return code, the new context and whether it set the
  connection's \<open>error\<close> flag; \<open>None\<close> is an invalid memory access. FastCGI, with its record
  layer, is in \<open>Fastcgi_Check\<close>.
\<close>

subsection \<open>\<open>init\<close> and \<open>reinit\<close>\<close>

abbreviation recv_null :: ngx_buf_t where
  "recv_null \<equiv> \<lparr>b_blk = None, b_pos = 0, b_last = 0, b_end = 0\<rparr>"

definition send_data :: "ngx_upstream_check_srv_conf_t \<Rightarrow> string" where
  "send_data uc = (case uc_send uc of None \<Rightarrow> [] | Some s \<Rightarrow> s)"

definition ngx_http_upstream_check_http_init ::
  "ngx_upstream_check_srv_conf_t \<Rightarrow> check_ctx_t \<Rightarrow> check_ctx_t" where
  "ngx_http_upstream_check_http_init uc ctx =
     ctx\<lparr>x_send := \<lparr>s_bytes = send_data uc, s_pos = 0, s_last = length (send_data uc)\<rparr>,
         x_recv := recv_null, x_state := 0, x_status := status_zero\<rparr>"

definition ngx_http_upstream_check_http_reinit :: "check_ctx_t \<Rightarrow> check_ctx_t" where
  "ngx_http_upstream_check_http_reinit ctx =
     ctx\<lparr>x_send := (x_send ctx)\<lparr>s_pos := 0, s_last := length (s_bytes (x_send ctx))\<rparr>,
         x_recv := (x_recv ctx)\<lparr>b_pos := 0, b_last := 0\<rparr>, x_state := 0, x_status := status_zero\<rparr>"

definition ngx_http_upstream_check_ssl_hello_init ::
  "ngx_upstream_check_srv_conf_t \<Rightarrow> check_ctx_t \<Rightarrow> check_ctx_t" where
  "ngx_http_upstream_check_ssl_hello_init uc ctx =
     ctx\<lparr>x_send := \<lparr>s_bytes = send_data uc, s_pos = 0, s_last = length (send_data uc)\<rparr>,
         x_recv := recv_null\<rparr>"

definition ngx_http_upstream_check_ssl_hello_reinit :: "check_ctx_t \<Rightarrow> check_ctx_t" where
  "ngx_http_upstream_check_ssl_hello_reinit ctx =
     ctx\<lparr>x_send := (x_send ctx)\<lparr>s_pos := 0, s_last := length (s_bytes (x_send ctx))\<rparr>,
         x_recv := (x_recv ctx)\<lparr>b_pos := 0, b_last := 0\<rparr>\<rparr>"

definition ngx_http_upstream_check_mysql_init ::
  "ngx_upstream_check_srv_conf_t \<Rightarrow> check_ctx_t \<Rightarrow> check_ctx_t" where
  "ngx_http_upstream_check_mysql_init uc ctx =
     ctx\<lparr>x_send := \<lparr>s_bytes = send_data uc, s_pos = 0, s_last = length (send_data uc)\<rparr>,
         x_recv := recv_null\<rparr>"

definition ngx_http_upstream_check_mysql_reinit :: "check_ctx_t \<Rightarrow> check_ctx_t" where
  "ngx_http_upstream_check_mysql_reinit ctx =
     ctx\<lparr>x_send := (x_send ctx)\<lparr>s_pos := 0, s_last := length (s_bytes (x_send ctx))\<rparr>,
         x_recv := (x_recv ctx)\<lparr>b_pos := 0, b_last := 0\<rparr>\<rparr>"

definition ngx_http_upstream_check_ajp_init ::
  "ngx_upstream_check_srv_conf_t \<Rightarrow> check_ctx_t \<Rightarrow> check_ctx_t" where
  "ngx_http_upstream_check_ajp_init uc ctx =
     ctx\<lparr>x_send := \<lparr>s_bytes = send_data uc, s_pos = 0, s_last = length (send_data uc)\<rparr>,
         x_recv := recv_null\<rparr>"

definition ngx_http_upstream_check_ajp_reinit :: "check_ctx_t \<Rightarrow> check_ctx_t" where
  "ngx_http_upstream_check_ajp_reinit ctx =
     ctx\<lparr>x_send := (x_send ctx)\<lparr>s_pos := 0, s_last := length (s_bytes (x_send ctx))\<rparr>,
         x_recv := (x_recv ctx)\<lparr>b_pos := 0, b_last := 0\<rparr>\<rparr>"

subsection \<open>The http response\<close>

text \<open>The class bit of a status code, and whether the connection is marked in error.\<close>

definition http_code_class :: "ngx_uint_t \<Rightarrow> ngx_uint_t \<times> bool" where
  "http_code_class code =
     (if 200 \<le> code \<and> code < 300 then (NGX_CHECK_HTTP_2XX, False)
      else if 300 \<le> code \<and> code < 400 then (NGX_CHECK_HTTP_3XX, False)
      else if 400 \<le> code \<and> code < 500 then (NGX_CHECK_HTTP_4XX, True)
      else if 500 \<le> code \<and> code < 600 then (NGX_CHECK_HTTP_5XX, True)
      else (NGX_CHECK_HTTP_ERR, True))"

text \<open>Storing NUL through a pointer, and the C string at one: both fail outside the block.\<close>

definition store_nul :: "mem \<Rightarrow> ptr \<Rightarrow> mem option" where
  "store_nul m q =
     (case q of (k, a) \<Rightarrow>
        if k < length m \<and> a < length (m ! k) then Some (m[k := (m ! k)[a := NUL]]) else None)"

definition c_string_at :: "mem \<Rightarrow> ptr \<Rightarrow> string option" where
  "c_string_at m q =
     (case q of (k, a) \<Rightarrow>
        if k < length m \<and> NUL \<in> set (drop a (m ! k))
        then Some (takeWhile (\<lambda>c. c \<noteq> NUL) (drop a (m ! k))) else None)"

text \<open>The value of the \<open>Content-Length\<close> line between the status code and the end of the head:
  \<open>Some None\<close> when there is none. The digits start 16 bytes after the name, the length is
  \<open>size_t\<close> arithmetic, and comparing pointers of different blocks is an invalid access.\<close>

definition http_content_length :: "mem \<Rightarrow> ptr \<Rightarrow> ptr \<Rightarrow> ngx_uint_t option option" where
  "http_content_length m st_a st_e =
     (case c_string_at m st_a of
        None \<Rightarrow> None
      | Some head \<Rightarrow>
          (case ngx_strstr head ''Content-Length:'' of
             None \<Rightarrow> Some None
           | Some i \<Rightarrow>
               (case (st_a, st_e) of ((k, a), (k', e)) \<Rightarrow>
                  if k \<noteq> k' then None
                  else (case ngx_strlchr (bytes_between (a + i) e (m ! k)) CR of
                          None \<Rightarrow> Some None
                        | Some j \<Rightarrow>
                            Some (Some (word_of_int
                              (ngx_atoi (drop (a + i + 16) (m ! k))
                                        (unat (of_nat j - 16 :: ngx_uint_t)))))))))"

definition http_body_verdict ::
  "env \<Rightarrow> ngx_upstream_check_srv_conf_t \<Rightarrow> ngx_uint_t \<Rightarrow> ngx_uint_t option \<Rightarrow> string \<Rightarrow> ngx_rc" where
  "http_body_verdict e uc code_n cl body =
     (let found_body_len = (case cl of None \<Rightarrow> e_junk e | Some _ \<Rightarrow> 1);
          body_len = (case cl of None \<Rightarrow> 0 | Some n \<Rightarrow> n)
      in if code_n AND uc_status_alive uc = 0 then NGX_ERROR
         else (case uc_expect_body_regex uc of
                 None \<Rightarrow> NGX_OK
               | Some re \<Rightarrow>
                   if found_body_len = 1 \<and> of_nat (length body) < body_len then NGX_AGAIN
                   else if \<not> e_regex e re body
                   then (if found_body_len = 1 then NGX_ERROR else NGX_AGAIN)
                   else NGX_OK))"

definition ngx_http_upstream_check_http_parse ::
  "env \<Rightarrow> ngx_upstream_check_srv_conf_t \<Rightarrow> check_ctx_t \<Rightarrow> (ngx_rc \<times> check_ctx_t \<times> bool) option" where
  "ngx_http_upstream_check_http_parse e uc ctx =
     (if b_pos (x_recv ctx) < b_last (x_recv ctx) then
        (case ngx_upstream_check_http_parse_status_line (x_mem ctx) (x_recv ctx) (x_state ctx)
                (x_status ctx) of
           (rc, b, s, st) \<Rightarrow>
             let ctx = ctx\<lparr>x_recv := b, x_state := s, x_status := st\<rparr>
             in if rc = NGX_AGAIN \<or> rc = NGX_ERROR then Some (rc, ctx, False)
                else
                  let (code_n, err) = http_code_class (st_code st)
                  in (case (st_start st, st_end st, b_blk b) of
                        (Some a, Some z, Some k) \<Rightarrow>
                          (case store_nul (x_mem ctx) z of
                             None \<Rightarrow> None
                           | Some m \<Rightarrow>
                               (case http_content_length m a z of
                                  None \<Rightarrow> None
                                | Some cl \<Rightarrow>
                                    let body = bytes_between (b_pos b) (b_last b) (m ! k)
                                    in Some (http_body_verdict e uc code_n cl body,
                                             ctx\<lparr>x_mem := m\<rparr>, err)))
                      | _ \<Rightarrow> None))
      else Some (NGX_AGAIN, ctx, False))"

subsection \<open>The other packets\<close>

text \<open>The received bytes from \<open>pos\<close> to \<open>last\<close>.\<close>

definition buf_bytes :: "ngx_buf_t \<Rightarrow> mem \<Rightarrow> string" where
  "buf_bytes b m =
     (case b_blk b of None \<Rightarrow> [] | Some k \<Rightarrow> bytes_between (b_pos b) (b_last b) (m ! k))"

definition recv_bytes :: "check_ctx_t \<Rightarrow> string" where
  "recv_bytes ctx = buf_bytes (x_recv ctx) (x_mem ctx)"

text \<open>\<open>sizeof(ngx_ssl_server_hello_t)\<close>, packed, with a 64-bit \<open>time_t\<close>; the offsets of
  \<open>msg_type\<close> and \<open>handshake_type\<close> are 0 and 5.\<close>

definition ngx_http_upstream_check_ssl_hello_parse :: "check_ctx_t \<Rightarrow> ngx_rc" where
  "ngx_http_upstream_check_ssl_hello_parse ctx =
     (let resp = recv_bytes ctx
      in if length resp < 47 then NGX_AGAIN
         else if resp ! 0 \<noteq> CHR 0x16 then NGX_ERROR
         else if resp ! 5 \<noteq> CHR 0x02 then NGX_ERROR
         else NGX_OK)"

text \<open>\<open>sizeof(ngx_mysql_handshake_init_t)\<close> is 5; \<open>packet_number\<close> is at offset 3.\<close>

definition ngx_http_upstream_check_mysql_parse :: "check_ctx_t \<Rightarrow> ngx_rc" where
  "ngx_http_upstream_check_mysql_parse ctx =
     (let handshake = recv_bytes ctx
      in if length handshake < 5 then NGX_AGAIN
         else if handshake ! 3 \<noteq> NUL then NGX_ERROR
         else NGX_OK)"

definition ngx_http_upstream_check_ajp_parse :: "check_ctx_t \<Rightarrow> ngx_rc" where
  "ngx_http_upstream_check_ajp_parse ctx =
     (let p = recv_bytes ctx
      in if length p < length ngx_ajp_cpong_packet then NGX_AGAIN
         else if take (length ngx_ajp_cpong_packet) p = ngx_ajp_cpong_packet then NGX_OK
         else NGX_ERROR)"

subsection \<open>Well-formed contexts\<close>

text \<open>The offsets of both buffers are in order and the received bytes are in the block.\<close>

definition wf_recv :: "ngx_buf_t \<Rightarrow> mem \<Rightarrow> bool" where
  "wf_recv b m \<longleftrightarrow>
     b_pos b \<le> b_last b \<and> b_last b \<le> b_end b \<and>
     (case b_blk b of
        None \<Rightarrow> b_end b = 0
      | Some k \<Rightarrow> k < length m \<and> b_last b \<le> length (m ! k) \<and> length (m ! k) \<le> b_end b)"

definition wf_ctx :: "check_ctx_t \<Rightarrow> bool" where
  "wf_ctx ctx \<longleftrightarrow>
     s_pos (x_send ctx) \<le> s_last (x_send ctx) \<and> s_last (x_send ctx) \<le> length (s_bytes (x_send ctx)) \<and>
     wf_recv (x_recv ctx) (x_mem ctx)"

lemma wf_recv_pos [ngx_inv]:
  "wf_recv b m \<Longrightarrow> b_pos b \<le> p \<Longrightarrow> p \<le> b_last b \<Longrightarrow> wf_recv (b\<lparr>b_pos := p\<rparr>) m"
  by (simp add: wf_recv_def split: option.splits)

lemma wf_recv_le: "wf_recv b m \<Longrightarrow> b_pos b \<le> b_last b"
  by (simp add: wf_recv_def)

text \<open>Ready for the next request: nothing sent, nothing received.\<close>

definition ready_ctx :: "check_ctx_t \<Rightarrow> bool" where
  "ready_ctx ctx \<longleftrightarrow>
     s_pos (x_send ctx) = 0 \<and> s_last (x_send ctx) = length (s_bytes (x_send ctx)) \<and>
     b_pos (x_recv ctx) = 0 \<and> b_last (x_recv ctx) = 0"

text \<open>What the engine relies on, whatever the check type: after \<open>init\<close> and after \<open>reinit\<close> the
  whole request is to be sent and nothing is received, and \<open>parse\<close> keeps the request and stays
  inside the receive buffer.\<close>

locale packet_functions =
  fixes init :: "ngx_upstream_check_srv_conf_t \<Rightarrow> check_ctx_t \<Rightarrow> check_ctx_t"
    and parse :: "env \<Rightarrow> ngx_upstream_check_srv_conf_t \<Rightarrow> check_ctx_t \<Rightarrow> (ngx_rc \<times> check_ctx_t \<times> bool) option"
    and reinit :: "check_ctx_t \<Rightarrow> check_ctx_t"
  assumes init_ready: "ready_ctx (init uc ctx)"
    and init_wf: "wf_ctx (init uc ctx)"
    and init_bytes: "s_bytes (x_send (init uc ctx)) = send_data uc"
    and reinit_ready: "ready_ctx (reinit ctx)"
    and reinit_wf: "wf_ctx ctx \<Longrightarrow> wf_ctx (reinit ctx)"
    and reinit_bytes: "s_bytes (x_send (reinit ctx)) = s_bytes (x_send ctx)"
    and parse_send: "wf_ctx ctx \<Longrightarrow> parse e uc ctx = Some (rc, ctx', err) \<Longrightarrow> x_send ctx' = x_send ctx"
    and parse_wf: "wf_ctx ctx \<Longrightarrow> parse e uc ctx = Some (rc, ctx', err) \<Longrightarrow> wf_ctx ctx'"
begin

text \<open>A check leaves the context as a new one would be: the same request, nothing received.\<close>

lemma check_cycle:
  assumes "wf_ctx ctx" "parse e uc ctx = Some (rc, ctx', err)"
  shows "ready_ctx (reinit ctx') \<and> wf_ctx (reinit ctx')
         \<and> s_bytes (x_send (reinit ctx')) = s_bytes (x_send ctx)"
  using assms reinit_ready reinit_wf reinit_bytes parse_send parse_wf by metis

end

subsection \<open>The status line parser inside the buffer\<close>

text \<open>A pointer of the status is into the current block, behind the current position; the code
  cannot have been read before ten bytes.\<close>

definition sl_ptr_inv :: "nat \<Rightarrow> nat \<Rightarrow> sl_state \<Rightarrow> ngx_http_status_t \<Rightarrow> bool" where
  "sl_ptr_inv k p s st \<longleftrightarrow>
     min (sl_num s) 10 \<le> p \<and>
     (\<forall>q. st_start st = Some q \<longrightarrow> fst q = k \<and> snd q + 3 \<le> p)"

lemma sl_step_ptr_inv:
  "sl_step k p s ch st = Sl_Next s' st' \<Longrightarrow> sl_ptr_inv k p s st \<Longrightarrow> sl_ptr_inv k (Suc p) s' st'"
  by (cases s) (auto simp: sl_ptr_inv_def Let_def split: if_splits)

lemma sl_step_done_ptr:
  "sl_step k p s ch st = Sl_Done st' \<Longrightarrow> sl_ptr_inv k p s st \<Longrightarrow> sl_inv s st \<Longrightarrow>
     st_start st' = st_start st \<and> (st_end st' = None \<or> st_end st' = Some (k, p - 1))"
  by (cases s) (auto simp: sl_ptr_inv_def sl_inv_def sl_before_status_def Let_def split: if_splits)

lemma sl_loop_ptr_inv:
  "sl_loop k p s st bs = (rc, p', s', st') \<Longrightarrow> sl_ptr_inv k p s st \<Longrightarrow> sl_inv s st \<Longrightarrow>
     (rc = NGX_AGAIN \<longrightarrow> sl_ptr_inv k p' s' st')
     \<and> (rc = NGX_DONE \<longrightarrow>
         (\<exists>a. st_start st' = Some (k, a) \<and> a + 3 \<le> p')
         \<and> (st_end st' = None \<or> st_end st' = Some (k, p' - 1)))"
proof (induction bs arbitrary: p s st)
  case Nil
  then show ?case by simp
next
  case (Cons ch bs)
  show ?case
  proof (cases "sl_step k p s ch st")
    case (Sl_Next s1 st1)
    with Cons show ?thesis using sl_step_inv [OF Sl_Next] sl_step_ptr_inv [OF Sl_Next] by simp
  next
    case (Sl_Done st1)
    from sl_step_done_inv [OF Sl_Done] Cons.prems(3) obtain q where q: "st_start st1 = Some q"
      by auto
    then have "st_start st = Some q" using sl_step_done_ptr [OF Sl_Done Cons.prems(2,3)] by simp
    with Cons.prems(2) have "fst q = k \<and> snd q + 3 \<le> p" by (cases q) (simp add: sl_ptr_inv_def)
    with q Sl_Done Cons.prems sl_step_done_ptr [OF Sl_Done Cons.prems(2,3)] show ?thesis
      by (cases q) auto
  qed (use Cons.prems in auto)
qed

text \<open>The context between two calls of the http parser, while the buffer stays in one block.\<close>

definition http_ctx_inv :: "check_ctx_t \<Rightarrow> bool" where
  "http_ctx_inv ctx \<longleftrightarrow>
     (\<exists>k s. b_blk (x_recv ctx) = Some k \<and> x_state ctx = sl_num s \<and> sl_inv s (x_status ctx) \<and>
        (if s = receive_body
         then \<exists>a z. st_start (x_status ctx) = Some (k, a) \<and> st_end (x_status ctx) = Some (k, z)
                    \<and> a \<le> z \<and> z < length (x_mem ctx ! k)
         else sl_ptr_inv k (b_pos (x_recv ctx)) s (x_status ctx)))"

lemma status_line_buf:
  assumes "wf_ctx ctx"
    "ngx_upstream_check_http_parse_status_line (x_mem ctx) (x_recv ctx) (x_state ctx) (x_status ctx)
       = (rc, b, s, st)"
  shows "\<exists>p. b = x_recv ctx\<lparr>b_pos := p\<rparr> \<and> b_pos (x_recv ctx) \<le> p \<and> p \<le> b_last (x_recv ctx)"
proof (cases "b_blk (x_recv ctx)")
  case None
  with assms have "b = x_recv ctx \<or> b = x_recv ctx\<lparr>b_pos := b_last (x_recv ctx)\<rparr>
      \<or> b = x_recv ctx\<lparr>b_pos := b_pos (x_recv ctx)\<rparr>"
    by (auto simp: ngx_upstream_check_http_parse_status_line_def Let_def split: if_splits)
  with assms(1) show ?thesis
    by (elim disjE) (auto simp: wf_ctx_def wf_recv_def intro: exI [of _ "b_pos (x_recv ctx)"]
        exI [of _ "b_last (x_recv ctx)"])
next
  case (Some k)
  let ?b = "x_recv ctx"
  obtain rc' p' s' st' where l:
    "sl_loop k (b_pos ?b) (sl_states ! x_state ctx) (x_status ctx)
       (bytes_between (b_pos ?b) (b_last ?b) (x_mem ctx ! k)) = (rc', p', s', st')"
    by (metis prod_cases4)
  have len: "b_pos ?b + length (bytes_between (b_pos ?b) (b_last ?b) (x_mem ctx ! k)) = b_last ?b"
    using assms(1) Some by (auto simp: wf_ctx_def wf_recv_def)
  note pos = sl_loop_pos [OF l, unfolded len]
  have "b \<in> {?b, ?b\<lparr>b_pos := b_last ?b\<rparr>} \<or> (rc' = NGX_AGAIN \<and> b = ?b\<lparr>b_pos := p'\<rparr>)
      \<or> (rc' = NGX_DONE \<and> b = ?b\<lparr>b_pos := p' + 1\<rparr>)"
    using assms(2) Some l
    by (cases rc') (auto simp: ngx_upstream_check_http_parse_status_line_def Let_def split: if_splits)
  with pos assms(1) show ?thesis
    by (auto simp: wf_ctx_def wf_recv_def intro: exI [of _ "b_pos ?b"] exI [of _ "b_last ?b"]
        exI [of _ p'] exI [of _ "Suc p'"])
qed

text \<open>Inside one block the status line parser keeps the invariant, and its success has the pointers
  the response parser uses.\<close>

lemma status_line_inv:
  assumes wf: "wf_ctx ctx" and inv: "http_ctx_inv ctx"
    and p: "ngx_upstream_check_http_parse_status_line (x_mem ctx) (x_recv ctx) (x_state ctx)
      (x_status ctx) = (rc, b, s, st)"
  shows "rc \<in> {NGX_OK, NGX_AGAIN, NGX_ERROR}"
    and "rc = NGX_AGAIN \<Longrightarrow> http_ctx_inv (ctx\<lparr>x_recv := b, x_state := s, x_status := st\<rparr>)"
    and "rc = NGX_OK \<Longrightarrow> s = sl_num receive_body
           \<and> http_ctx_inv (ctx\<lparr>x_recv := b, x_state := s, x_status := st\<rparr>)"
proof -
  let ?b = "x_recv ctx"
  from inv obtain k s0 where k: "b_blk ?b = Some k" and s0: "x_state ctx = sl_num s0"
    and sinv: "sl_inv s0 (x_status ctx)"
    and rb: "s0 = receive_body \<Longrightarrow> \<exists>a z. st_start (x_status ctx) = Some (k, a)
        \<and> st_end (x_status ctx) = Some (k, z) \<and> a \<le> z \<and> z < length (x_mem ctx ! k)"
    and ptr: "s0 \<noteq> receive_body \<Longrightarrow> sl_ptr_inv k (b_pos ?b) s0 (x_status ctx)"
    unfolding http_ctx_inv_def by metis
  have "rc \<in> {NGX_OK, NGX_AGAIN, NGX_ERROR} \<and>
    (rc = NGX_AGAIN \<longrightarrow> http_ctx_inv (ctx\<lparr>x_recv := b, x_state := s, x_status := st\<rparr>)) \<and>
    (rc = NGX_OK \<longrightarrow> s = sl_num receive_body
           \<and> http_ctx_inv (ctx\<lparr>x_recv := b, x_state := s, x_status := st\<rparr>))"
  proof (cases "s0 = receive_body")
    case True
    with p s0 have r: "rc = NGX_OK" "b = ?b" "s = x_state ctx" "st = x_status ctx"
      by (simp_all add: ngx_upstream_check_http_parse_status_line_def)
    then have e: "ctx\<lparr>x_recv := b, x_state := s, x_status := st\<rparr> = ctx" by simp
    show ?thesis unfolding e using r True s0 inv by simp
  next
    case False
    obtain rc' p' s' st' where l:
      "sl_loop k (b_pos ?b) s0 (x_status ctx)
         (bytes_between (b_pos ?b) (b_last ?b) (x_mem ctx ! k)) = (rc', p', s', st')"
      by (metis prod_cases4)
    have len: "b_pos ?b + length (bytes_between (b_pos ?b) (b_last ?b) (x_mem ctx ! k)) = b_last ?b"
      using wf k by (auto simp: wf_ctx_def wf_recv_def)
    note pos = sl_loop_pos [OF l, unfolded len]
    note r = sl_loop_rc [OF False l]
    note i = sl_loop_inv [OF l sinv] sl_loop_ptr_inv [OF l ptr [OF False] sinv]
    from p False k s0 l r
    consider "rc' = NGX_AGAIN" "rc = NGX_AGAIN" "b = ?b\<lparr>b_pos := p'\<rparr>" "s = sl_num s'" "st = st'"
      | "rc' = NGX_DONE" "rc = NGX_OK" "b = ?b\<lparr>b_pos := p' + 1\<rparr>" "s = sl_num receive_body"
        "st = (if st_end st' = None then st'\<lparr>st_end := Some (k, p')\<rparr> else st')"
      | "rc = NGX_ERROR"
      by (cases rc') (auto simp: ngx_upstream_check_http_parse_status_line_def Let_def)
    then show ?thesis
    proof cases
      case 1
      with i r k show ?thesis
        by (auto simp: http_ctx_inv_def intro!: exI [of _ s'])
    next
      case 2
      with i obtain a where a: "st_start st' = Some (k, a)" "a + 3 \<le> p'"
        "st_end st' = None \<or> st_end st' = Some (k, p' - 1)"
        "st_count st' = 3" "unat (st_code st') < 1000" by auto
      have "p' < length (x_mem ctx ! k)"
        using pos 2 wf k by (auto simp: wf_ctx_def wf_recv_def)
      with a 2 k show ?thesis
        by (auto simp: http_ctx_inv_def sl_inv_def sl_before_status_def intro!: exI [of _ receive_body])
    qed auto
  qed
  then show "rc \<in> {NGX_OK, NGX_AGAIN, NGX_ERROR}"
    and "rc = NGX_AGAIN \<Longrightarrow> http_ctx_inv (ctx\<lparr>x_recv := b, x_state := s, x_status := st\<rparr>)"
    and "rc = NGX_OK \<Longrightarrow> s = sl_num receive_body
           \<and> http_ctx_inv (ctx\<lparr>x_recv := b, x_state := s, x_status := st\<rparr>)" by auto
qed

subsection \<open>The http response parser\<close>

lemma store_nul_Some:
  "k < length m \<Longrightarrow> a < length (m ! k) \<Longrightarrow> store_nul m (k, a) = Some (m[k := (m ! k)[a := NUL]])"
  by (simp add: store_nul_def)

lemma http_content_length_total:
  assumes "k < length m" "z < length (m ! k)" "a \<le> z"
  shows "\<exists>cl. http_content_length (m[k := (m ! k)[z := NUL]]) (k, a) (k, z) = Some cl"
proof -
  have "drop a ((m ! k)[z := NUL]) ! (z - a) = NUL" using assms by simp
  moreover have "z - a < length (drop a ((m ! k)[z := NUL]))" using assms by simp
  ultimately have "NUL \<in> set (drop a ((m ! k)[z := NUL]))" by (metis nth_mem)
  then show ?thesis
    using assms by (auto simp: http_content_length_def c_string_at_def split: option.split)
qed

lemma wf_ctx_store:
  "wf_ctx ctx \<Longrightarrow> b_pos (x_recv ctx) \<le> p \<Longrightarrow> p \<le> b_last (x_recv ctx) \<Longrightarrow>
     store_nul (x_mem ctx) z = Some m \<Longrightarrow>
     wf_ctx (ctx\<lparr>x_recv := x_recv ctx\<lparr>b_pos := p\<rparr>, x_state := s, x_status := st, x_mem := m\<rparr>)"
  by (auto simp: wf_ctx_def wf_recv_def store_nul_def nth_list_update split: option.splits prod.splits if_splits)

lemma http_parse_keeps:
  assumes "wf_ctx ctx" "ngx_http_upstream_check_http_parse e uc ctx = Some (rc, ctx', err)"
  shows "wf_ctx ctx' \<and> x_send ctx' = x_send ctx"
proof (cases "b_pos (x_recv ctx) < b_last (x_recv ctx)")
  case False
  with assms show ?thesis by (simp add: ngx_http_upstream_check_http_parse_def)
next
  case True
  obtain rc0 b s st where p: "ngx_upstream_check_http_parse_status_line (x_mem ctx) (x_recv ctx)
      (x_state ctx) (x_status ctx) = (rc0, b, s, st)" by (metis prod_cases4)
  from status_line_buf [OF assms(1) p] obtain q
    where q: "b = x_recv ctx\<lparr>b_pos := q\<rparr>" "b_pos (x_recv ctx) \<le> q" "q \<le> b_last (x_recv ctx)" by auto
  have "wf_ctx (ctx\<lparr>x_recv := b, x_state := s, x_status := st\<rparr>)"
    using assms(1) q by (auto simp: wf_ctx_def wf_recv_def split: option.splits)
  moreover have "wf_ctx (ctx\<lparr>x_recv := b, x_state := s, x_status := st, x_mem := m\<rparr>)"
    if "store_nul (x_mem ctx) z = Some m" for z m
    using wf_ctx_store [OF assms(1) q(2,3) that] q(1) by simp
  ultimately show ?thesis
    using assms(2) True p
    by (auto simp: ngx_http_upstream_check_http_parse_def Let_def
        split: if_splits prod.splits option.splits)
qed

text \<open>While the receive buffer has not moved, the http parser never touches invalid memory, and it
  keeps its invariant for the next call.\<close>

lemma http_parse_total:
  assumes wf: "wf_ctx ctx" and inv: "http_ctx_inv ctx"
  shows "\<exists>rc ctx' err. ngx_http_upstream_check_http_parse e uc ctx = Some (rc, ctx', err)
           \<and> (rc \<noteq> NGX_ERROR \<longrightarrow> http_ctx_inv ctx')"
proof (cases "b_pos (x_recv ctx) < b_last (x_recv ctx)")
  case False
  with inv show ?thesis by (auto simp: ngx_http_upstream_check_http_parse_def)
next
  case True
  obtain rc0 b s st where p: "ngx_upstream_check_http_parse_status_line (x_mem ctx) (x_recv ctx)
      (x_state ctx) (x_status ctx) = (rc0, b, s, st)" by (metis prod_cases4)
  let ?ctx = "ctx\<lparr>x_recv := b, x_state := s, x_status := st\<rparr>"
  note i = status_line_inv [OF wf inv p]
  from status_line_buf [OF wf p] obtain q where q: "b = x_recv ctx\<lparr>b_pos := q\<rparr>" by auto
  show ?thesis
  proof (cases "rc0 = NGX_OK")
    case False
    with True p i show ?thesis by (auto simp: ngx_http_upstream_check_http_parse_def Let_def)
  next
    case ok: True
    then have "s = sl_num receive_body" "http_ctx_inv ?ctx" using i(3) by auto
    then obtain k a z where kaz: "b_blk b = Some k" "st_start st = Some (k, a)" "st_end st = Some (k, z)"
      "a \<le> z" "z < length (x_mem ctx ! k)" and sinv: "sl_inv receive_body st"
      unfolding http_ctx_inv_def by auto
    have k: "k < length (x_mem ctx)"
      using wf kaz(1) q by (simp add: wf_ctx_def wf_recv_def)
    let ?m = "(x_mem ctx)[k := (x_mem ctx ! k)[z := NUL]]"
    obtain cl where cl: "http_content_length ?m (k, a) (k, z) = Some cl"
      using http_content_length_total [OF k kaz(5,4)] by auto
    have "http_ctx_inv (?ctx\<lparr>x_mem := ?m\<rparr>)"
      using kaz k sinv \<open>s = sl_num receive_body\<close>
      by (auto simp: http_ctx_inv_def intro!: exI [of _ receive_body])
    then show ?thesis
      using True p ok kaz k cl
      by (auto simp: ngx_http_upstream_check_http_parse_def store_nul_Some Let_def split: prod.split)
  qed
qed

subsection \<open>Verdicts on whole responses\<close>

text \<open>A whole response has arrived at a fresh context, at the start of block \<open>k\<close>.\<close>

definition received :: "nat \<Rightarrow> string \<Rightarrow> string \<Rightarrow> check_ctx_t \<Rightarrow> bool" where
  "received k head body ctx \<longleftrightarrow>
     b_blk (x_recv ctx) = Some k \<and> b_pos (x_recv ctx) = 0
     \<and> b_last (x_recv ctx) = length head + length body
     \<and> k < length (x_mem ctx) \<and> is_prefix (head @ body) (x_mem ctx ! k)
     \<and> x_state ctx = 0 \<and> x_status ctx = status_zero"

text \<open>From the status code to the end of the last header line.\<close>

definition head_text :: "string \<Rightarrow> string \<Rightarrow> string list \<Rightarrow> string" where
  "head_text code reason hs = code @ '' '' @ reason @ crlf @ header_lines hs"

definition text_content_length :: "string \<Rightarrow> string \<Rightarrow> ngx_uint_t option" where
  "text_content_length t r =
     (case ngx_strstr t ''Content-Length:'' of
        None \<Rightarrow> None
      | Some i \<Rightarrow>
          map_option
            (\<lambda>j. word_of_int (ngx_atoi (drop (i + 16) (t @ r)) (unat (of_nat j - 16 :: ngx_uint_t))))
            (ngx_strlchr (drop i t) CR))"

lemma http_content_length_text:
  assumes m: "k < length m" "m ! k = pre @ t @ NUL # r" and t: "NUL \<notin> set t"
  shows "http_content_length m (k, length pre) (k, length pre + length t)
    = Some (text_content_length t (NUL # r))"
proof -
  have "takeWhile (\<lambda>c. c \<noteq> NUL) (t @ NUL # r) = t" using t by (induction t) auto
  then have s: "c_string_at m (k, length pre) = Some t"
    using m by (simp add: c_string_at_def)
  show ?thesis
  proof (cases "ngx_strstr t ''Content-Length:''")
    case None
    then show ?thesis by (simp add: http_content_length_def s text_content_length_def)
  next
    case (Some i)
    then have "i \<le> length t" using ngx_strstr_Some by blast
    then have b: "bytes_between (length pre + i) (length pre + length t) (m ! k) = drop i t"
      using m(2) by (simp add: bytes_between_def)
    have d: "drop (length pre + i + 16) (m ! k) = drop (i + 16) (t @ NUL # r)"
      using m(2) by simp
    show ?thesis
      by (simp add: http_content_length_def s Some text_content_length_def b d del: drop_append
          split: option.split)
  qed
qed

lemma http_parse_received:
  assumes wf: "wf_response maj mnr code reason hs"
    and r: "received k (response_head maj mnr code reason hs) body ctx"
    and nul: "NUL \<notin> set (head_text code reason hs)"
  shows "\<exists>ctx' rest. ngx_http_upstream_check_http_parse e uc ctx =
    Some (http_body_verdict e uc (fst (http_code_class (of_int (dec_value code))))
            (text_content_length (head_text code reason hs) rest) body,
          ctx', snd (http_code_class (of_int (dec_value code))))"
proof -
  let ?head = "response_head maj mnr code reason hs"
  define pre where "pre = ''HTTP/'' @ maj @ ''.'' @ mnr @ '' ''"
  let ?t = "head_text code reason hs"
  have head: "?head = pre @ ?t @ crlf" by (simp add: response_head_def head_text_def pre_def)
  have len_pre: "length pre = 7 + length maj + length mnr" by (simp add: pre_def)
  from r obtain rest where blk: "x_mem ctx ! k = ?head @ body @ rest" and k: "k < length (x_mem ctx)"
    by (auto simp: received_def is_prefix_append)
  let ?st = "\<lparr>st_code = of_int (dec_value code), st_count = 3,
      st_start = Some (k, length pre), st_end = Some (k, length pre + length ?t)\<rparr>"
  have bb: "bytes_between 0 (length ?head + length body) (x_mem ctx ! k) = ?head @ body"
    using blk by (simp add: bytes_between_def)
  have "ngx_upstream_check_http_parse_status_line (x_mem ctx) (x_recv ctx) (x_state ctx) (x_status ctx)
      = (NGX_OK, x_recv ctx\<lparr>b_pos := length ?head\<rparr>, 15, ?st)"
    using r sl_loop_response_head [OF wf, of k 0 body] bb
    by (simp add: ngx_upstream_check_http_parse_status_line_def received_def head len_pre sl_states_def)
  moreover
  let ?m = "(x_mem ctx)[k := (x_mem ctx ! k)[length pre + length ?t := NUL]]"
  have mk: "?m ! k = pre @ ?t @ NUL # LF # body @ rest"
    using k blk by (simp add: head crlf_def list_update_append)
  have mk_body: "drop (length ?head) (?m ! k) = body @ rest"
    using mk by (simp add: head)
  have cl: "http_content_length ?m (k, length pre) (k, length pre + length ?t)
      = Some (text_content_length ?t (NUL # LF # body @ rest))"
    using http_content_length_text [of k ?m pre ?t "LF # body @ rest"] k mk nul by simp
  have st: "store_nul (x_mem ctx) (k, length pre + length ?t) = Some ?m"
    using k blk by (intro store_nul_Some) (simp_all add: head)
  have body: "bytes_between (length ?head) (length ?head + length body) (?m ! k) = body"
    using mk_body by (simp add: bytes_between_def head)
  moreover have "0 < length ?head + length body" by (simp add: head)
  ultimately show ?thesis
    using r cl st
    by (auto simp: ngx_http_upstream_check_http_parse_def received_def Let_def
        simp del: One_nat_def split: prod.split)
qed

lemma text_content_length_header:
  assumes none: "ngx_strstr (us @ [LF]) ''Content-Length:'' = None" and n: "n < 9223372036854775808"
  shows "text_content_length (us @ [LF] @ ''Content-Length: '' @ ngx_sprintf_num n @ crlf @ t2) r
    = Some (of_nat n)"
proof -
  let ?ds = "ngx_sprintf_num n"
  let ?h = "''Content-Length: '' @ ?ds"
  have len: "length ?ds \<le> 19" using n length_ngx_sprintf_num [of n 18] by simp
  have cr: "CR \<notin> set ?h" using ngx_sprintf_num_digits [of n] by (auto simp: list_all_iff)
  have "ngx_strstr (us @ LF # ?h @ crlf @ t2) ''Content-Length:'' = Some (Suc (length us))"
    using ngx_strstr_skip [of LF "''Content-Length:''" us "?h @ crlf @ t2"]
      ngx_strstr_None_prefix [OF none] by simp
  moreover have "ngx_strlchr (?h @ CR # LF # t2) CR = Some (16 + length ?ds)"
    using ngx_strlchr_append [OF cr, of "LF # t2"] by simp
  moreover have "unat (of_nat (16 + length ?ds) - 16 :: ngx_uint_t) = length ?ds"
    using len unat_of_nat_minus [of 16 "16 + length ?ds"] by simp
  moreover have "ngx_atoi (?ds @ CR # LF # t2 @ r) (length ?ds) = int n"
    using n ngx_sprintf_num_digits [of n]
    by (simp add: ngx_atoi_append ngx_atoi_eq dec_value_sprintf_num)
  ultimately show ?thesis
    by (simp add: text_content_length_def crlf_def)
qed

lemma dec_value_3: "length code = 3 \<Longrightarrow> list_all is_digit code \<Longrightarrow> dec_value code < 1000"
proof -
  assume "length code = 3" and d: "list_all is_digit code"
  then obtain a b c where code: "code = [a, b, c]"
    by (auto simp: length_Suc_conv numeral_3_eq_3)
  with d have "digit_val a \<le> 9" "digit_val b \<le> 9" "digit_val c \<le> 9" by (auto intro: digit_val_le)
  then show ?thesis by (simp add: code dec_value_def)
qed

lemma http_code_class_error:
  assumes "0 \<le> v" "v < 1000"
  shows "snd (http_code_class (of_int v)) \<longleftrightarrow> \<not> (200 \<le> v \<and> v < 400)"
proof -
  have "uint (of_int v :: 64 word) = v" using assms by (simp add: uint_word_of_int)
  then show ?thesis by (auto simp: http_code_class_def word_le_def word_less_def)
qed

text \<open>C18: The http check of a whole well-formed response with a \<open>Content-Length\<close> line fails when the
  class of its status code is not among those expected; with no body expression it succeeds
  otherwise; with one it waits while the body is shorter than announced and then decides by
  whether the body matches. The connection is marked in error exactly for codes outside 2xx and
  3xx. Nothing is read outside the buffer.\<close>

theorem http_parse_verdict:
  assumes "wf_response maj mnr code reason (hs1 @ (''Content-Length: '' @ ngx_sprintf_num n) # hs2)"
    and "received k (response_head maj mnr code reason
           (hs1 @ (''Content-Length: '' @ ngx_sprintf_num n) # hs2)) body ctx"
    and "NUL \<notin> set (head_text code reason (hs1 @ (''Content-Length: '' @ ngx_sprintf_num n) # hs2))"
    and "ngx_strstr (head_text code reason hs1) ''Content-Length:'' = None"
    and "n < 9223372036854775808" and "length body < 18446744073709551616"
  shows "\<exists>ctx'. ngx_http_upstream_check_http_parse e uc ctx =
    Some (if fst (http_code_class (of_int (dec_value code))) AND uc_status_alive uc = 0 then NGX_ERROR
          else (case uc_expect_body_regex uc of
                  None \<Rightarrow> NGX_OK
                | Some re \<Rightarrow> if length body < n then NGX_AGAIN
                             else if e_regex e re body then NGX_OK else NGX_ERROR),
          ctx', \<not> (200 \<le> dec_value code \<and> dec_value code < 400))"
proof -
  let ?h = "''Content-Length: '' @ ngx_sprintf_num n"
  have "crlf @ header_lines hs1 = (CR # butlast (LF # header_lines hs1)) @ [LF]"
    by (induction hs1 rule: rev_induct)
      (simp_all add: crlf_def header_lines_def butlast_append split: list.split)
  then obtain us where us: "head_text code reason hs1 = us @ [LF]"
    unfolding head_text_def by (metis append.assoc)
  have "head_text code reason (hs1 @ ?h # hs2) = us @ [LF] @ ?h @ crlf @ header_lines hs2"
    using us by (simp add: head_text_def header_lines_def)
  then have cl: "text_content_length (head_text code reason (hs1 @ ?h # hs2)) r = Some (of_nat n)" for r
    using text_content_length_header [of us n "header_lines hs2" r] assms(4,5) us by simp
  have lt: "(of_nat (length body) :: ngx_uint_t) < of_nat n \<longleftrightarrow> length body < n"
    using assms(5,6) by (simp add: word_less_nat_alt unat_of_nat)
  have "dec_value code < 1000" using assms(1) by (auto simp: wf_response_def intro: dec_value_3)
  then show ?thesis
    using http_parse_received [OF assms(1-3), of e uc] cl lt
      http_code_class_error [OF dec_value_nonneg]
    by (auto simp: http_body_verdict_def Let_def split: option.splits if_splits)
qed

definition sample_ctx :: "string \<Rightarrow> check_ctx_t" where
  "sample_ctx bs =
     \<lparr>x_send = \<lparr>s_bytes = http_default_send, s_pos = 18, s_last = 18\<rparr>,
      x_recv = \<lparr>b_blk = Some 0, b_pos = 0, b_last = length bs, b_end = 2048\<rparr>,
      x_state = 0, x_status = status_zero, x_padding = 0, x_length = 0, x_mem = [bs]\<rparr>"

lemma http_parse_verdict_witness:
  "\<exists>ctx'. ngx_http_upstream_check_http_parse sample_env sample_conf
     (sample_ctx (response_head ''1'' ''1'' ''200'' ''OK''
        ([''Server: x''] @ (''Content-Length: '' @ ngx_sprintf_num 2) # []) @ ''hi'')) =
     Some (NGX_OK, ctx', False)"
proof -
  have r: "received 0 (response_head ''1'' ''1'' ''200'' ''OK''
        ([''Server: x''] @ (''Content-Length: '' @ ngx_sprintf_num 2) # [])) ''hi''
     (sample_ctx (response_head ''1'' ''1'' ''200'' ''OK''
        ([''Server: x''] @ (''Content-Length: '' @ ngx_sprintf_num 2) # []) @ ''hi''))"
    by code_simp
  have w: "wf_response ''1'' ''1'' ''200'' ''OK''
      ([''Server: x''] @ (''Content-Length: '' @ ngx_sprintf_num 2) # [])"
    by code_simp
  have n: "NUL \<notin> set (head_text ''200'' ''OK''
      ([''Server: x''] @ (''Content-Length: '' @ ngx_sprintf_num 2) # []))"
    by code_simp
  have c: "ngx_strstr (head_text ''200'' ''OK'' [''Server: x'']) ''Content-Length:'' = None"
    by code_simp
  have d: "dec_value ''200'' = 200" by code_simp
  have f: "fst (http_code_class 200) AND uc_status_alive sample_conf \<noteq> 0"
    "uc_expect_body_regex sample_conf = Some (''hi'', False)" "e_regex sample_env (''hi'', False) ''hi''"
    by (simp_all add: http_code_class_def sample_conf_def sample_env_def)
  show ?thesis
    using http_parse_verdict [OF w r n c, of sample_env sample_conf] d f by simp
qed

end
