(* ===== verification/Fastcgi_Check.thy ===== *)
theory Fastcgi_Check
  imports Check_Packets
begin

text \<open>
  The FastCGI check of \<open>ngx_http_upstream_check_module.c\<close>: the request it builds
  (\<open>ngx_http_upstream_check_create_fastcgi_request\<close>), the record header parser
  (\<open>..._fastcgi_process_record\<close>), the header line parser (\<open>..._parse_fastcgi_status\<close>) and the
  response parser over both (\<open>..._fastcgi_parse\<close>).
\<close>

subsection \<open>The request\<close>

text \<open>\<open>ngx_http_fastcgi_request_start\<close>: the header of the begin record, its body, and the first
  four bytes of the params header.\<close>

definition ngx_http_fastcgi_request_start :: string where
  "ngx_http_fastcgi_request_start =
     bytes_of [1, 1, 0, 1, 0, 8, 0, 0,  0, 1, 0, 0, 0, 0, 0, 0,  1, 4, 0, 1]"

text \<open>The length of a name or a value: one byte, or four with the top bit set above 127.\<close>

definition fastcgi_len :: "nat \<Rightarrow> string" where
  "fastcgi_len n =
     (if n > 127
      then [u8 ((n div 2 ^ 24) mod 128 + 128), u8 (n div 2 ^ 16), u8 (n div 2 ^ 8), u8 n]
      else [u8 n])"

fun fastcgi_pairs :: "string list \<Rightarrow> (string \<times> string) list" where
  "fastcgi_pairs (k # v # r) = (k, v) # fastcgi_pairs r"
| "fastcgi_pairs _ = []"

text \<open>The size the first loop computes counts one byte for the length of every name.\<close>

definition fastcgi_params_len :: "(string \<times> string) list \<Rightarrow> nat" where
  "fastcgi_params_len ps =
     sum_list (map (\<lambda>(k, v). 1 + length k + (if length v > 127 then 4 else 1) + length v) ps)"

definition fastcgi_params_bytes :: "(string \<times> string) list \<Rightarrow> string" where
  "fastcgi_params_bytes ps =
     concat (map (\<lambda>(k, v). fastcgi_len (length k) @ fastcgi_len (length v) @ k @ v) ps)"

definition fastcgi_padding :: "nat \<Rightarrow> nat" where
  "fastcgi_padding len = (let padding = 8 - len mod 8 in if padding = 8 then 0 else padding)"

text \<open>The size of the buffer and what is written to it: the request start, the rest of the params
  header, the parameters, the padding and an empty params record. \<open>b->last\<close> moves past a stdin
  header of eight bytes that is not written: the fresh buffer's bytes are sent, given as \<open>junk\<close>.
  \<open>None\<close> is an access past the end of the buffer (a write here, or the read when it is sent).\<close>

definition fastcgi_request_size :: "(string \<times> string) list \<Rightarrow> nat" where
  "fastcgi_request_size ps =
     8 + 8 + 8 + fastcgi_params_len ps + fastcgi_padding (fastcgi_params_len ps) + 8 + 8"

definition ngx_http_upstream_check_create_fastcgi_request ::
  "string \<Rightarrow> (string \<times> string) list \<Rightarrow> string option" where
  "ngx_http_upstream_check_create_fastcgi_request junk ps =
     (let len = fastcgi_params_len ps;
          padding = fastcgi_padding len;
          b = ngx_http_fastcgi_request_start
              @ [u8 (len div 256), u8 len, u8 padding, NUL]
              @ fastcgi_params_bytes ps
              @ replicate padding NUL
              @ bytes_of [1, 4, 0, 1, 0, 0, 0, 0]
              @ take 8 (junk @ replicate 8 NUL)
      in if length b > fastcgi_request_size ps then None else Some b)"

definition fastcgi_default_params :: "string list" where
  "fastcgi_default_params =
     [''REQUEST_METHOD'', ''GET'', ''REQUEST_URI'', ''/'', ''SCRIPT_FILENAME'', ''index.php'']"

subsection \<open>Record headers\<close>

text \<open>\<open>ngx_http_fastcgi_state_e\<close>, by number in the context's \<open>state\<close>.\<close>

abbreviation (input) fc_version :: nat where "fc_version \<equiv> 0"
abbreviation (input) fc_data :: nat where "fc_data \<equiv> 8"
abbreviation (input) fc_padding :: nat where "fc_padding \<equiv> 9"

datatype fr_act = Fr_Next nat check_ctx_t | Fr_Error | Fr_Ok check_ctx_t

definition fr_step :: "nat \<Rightarrow> nat \<Rightarrow> char \<Rightarrow> check_ctx_t \<Rightarrow> fr_act" where
  "fr_step p state ch ctx =
     (if state = 0 then (if ch \<noteq> CHR 0x01 then Fr_Error else Fr_Next 1 ctx)
      else if state = 1 then
        (if ch = CHR 0x06 \<or> ch = CHR 0x07 \<or> ch = CHR 0x03
         then Fr_Next 2 (ctx\<lparr>x_status := (x_status ctx)\<lparr>st_code := of_char ch\<rparr>\<rparr>)
         else Fr_Error)
      else if state = 2 then (if ch \<noteq> CHR 0x00 then Fr_Error else Fr_Next 3 ctx)
      else if state = 3 then (if ch \<noteq> CHR 0x01 then Fr_Error else Fr_Next 4 ctx)
      else if state = 4 then Fr_Next 5 (ctx\<lparr>x_length := of_char ch * 256\<rparr>)
      else if state = 5 then Fr_Next 6 (ctx\<lparr>x_length := x_length ctx OR of_char ch\<rparr>)
      else if state = 6 then Fr_Next 7 (ctx\<lparr>x_padding := of_char ch\<rparr>)
      else if state = 7 then
        Fr_Ok (ctx\<lparr>x_recv := (x_recv ctx)\<lparr>b_pos := p + 1\<rparr>, x_state := fc_data\<rparr>)
      else Fr_Next state ctx)"

text \<open>At the end of the input the state is saved, but the position is not.\<close>

fun fr_loop :: "nat \<Rightarrow> nat \<Rightarrow> check_ctx_t \<Rightarrow> string \<Rightarrow> ngx_rc \<times> check_ctx_t" where
  "fr_loop p state ctx [] = (NGX_AGAIN, ctx\<lparr>x_state := state\<rparr>)"
| "fr_loop p state ctx (ch # bs) =
     (case fr_step p state ch ctx of
        Fr_Next s' ctx' \<Rightarrow> fr_loop (Suc p) s' ctx' bs
      | Fr_Error \<Rightarrow> (NGX_ERROR, ctx)
      | Fr_Ok ctx' \<Rightarrow> (NGX_OK, ctx'))"

definition ngx_http_upstream_check_fastcgi_process_record ::
  "check_ctx_t \<Rightarrow> ngx_rc \<times> check_ctx_t" where
  "ngx_http_upstream_check_fastcgi_process_record ctx =
     fr_loop (b_pos (x_recv ctx)) (x_state ctx) ctx (recv_bytes ctx)"

subsection \<open>Header lines\<close>

datatype fs_state =
    fs_start | fs_name | fs_space_before_value | fs_value | fs_space_after_value
  | fs_ignore_line | fs_almost_done | fs_header_almost_done

fun fs_num :: "fs_state \<Rightarrow> nat" where
  "fs_num fs_start = 0"
| "fs_num fs_name = 1"
| "fs_num fs_space_before_value = 2"
| "fs_num fs_value = 3"
| "fs_num fs_space_after_value = 4"
| "fs_num fs_ignore_line = 5"
| "fs_num fs_almost_done = 6"
| "fs_num fs_header_almost_done = 7"

text \<open>\<open>lowcase[ch]\<close> is not 0: a hyphen, a digit or a letter.\<close>

definition lowcase :: "char \<Rightarrow> bool" where
  "lowcase ch \<longleftrightarrow>
     ch = CHR ''-'' \<or> is_digit ch \<or>
     65 \<le> (of_char ch :: nat) \<and> (of_char ch :: nat) \<le> 90 \<or>
     97 \<le> (of_char ch :: nat) \<and> (of_char ch :: nat) \<le> 122"

record fs_local =
  f_state :: fs_state
  f_find :: bool
  f_name_s :: "nat option"
  f_status :: ngx_http_status_t

datatype fs_act = Fs_Next fs_local | Fs_Ret ngx_rc ngx_http_status_t | Fs_Done ngx_http_status_t | Fs_Fault

definition fs_digit :: "char \<Rightarrow> ngx_http_status_t \<Rightarrow> ngx_http_status_t" where
  "fs_digit ch st =
     st\<lparr>st_code := st_code st * 10 + of_nat (digit_val ch), st_count := st_count st + 1\<rparr>"

text \<open>One byte. \<open>blk\<close> is the block and \<open>p\<close> the offset of \<open>ch\<close> in it; the name is compared from
  \<open>name_s\<close>, which is still \<open>NULL\<close> when the line starts with a byte \<open>lowcase\<close> has no entry for.\<close>

definition fs_step :: "string \<Rightarrow> nat \<Rightarrow> char \<Rightarrow> fs_local \<Rightarrow> fs_act" where
  "fs_step blk p ch l =
     (case f_state l of
        fs_start \<Rightarrow>
          (if ch = CR then Fs_Next (l\<lparr>f_state := fs_header_almost_done\<rparr>)
           else if ch = LF then Fs_Done (f_status l)
           else if lowcase ch then Fs_Next (l\<lparr>f_name_s := Some p, f_state := fs_name\<rparr>)
           else if ch = NUL then Fs_Ret NGX_ERROR (f_status l)
           else Fs_Next (l\<lparr>f_state := fs_name\<rparr>))
      | fs_name \<Rightarrow>
          (if lowcase ch then Fs_Next l
           else if ch = CHR '':'' then
             (case f_name_s l of
                None \<Rightarrow> Fs_Fault
              | Some a \<Rightarrow>
                  Fs_Next (l\<lparr>f_state := fs_space_before_value,
                    f_find := (if ngx_strncasecmp (drop a blk) ''status'' (p - a) = 0
                               then True else f_find l)\<rparr>))
           else if ch = CR then Fs_Next (l\<lparr>f_state := fs_almost_done\<rparr>)
           else if ch = LF then Fs_Done (f_status l)
           else if ch = NUL then Fs_Ret NGX_ERROR (f_status l)
           else Fs_Next l)
      | fs_space_before_value \<Rightarrow>
          (if ch = SP then Fs_Next l
           else if ch = CR then Fs_Next (l\<lparr>f_state := fs_almost_done\<rparr>)
           else if ch = LF then Fs_Done (f_status l)
           else if ch = NUL then Fs_Ret NGX_ERROR (f_status l)
           else if f_find l then
             (if ch < CHR ''1'' \<or> CHR ''9'' < ch then Fs_Ret NGX_ERROR (f_status l)
              else if st_count (f_status l) \<noteq> 0
              then Fs_Ret NGX_ERROR (fs_digit ch (f_status l))
              else Fs_Next (l\<lparr>f_state := fs_value, f_status := fs_digit ch (f_status l)\<rparr>))
           else Fs_Next (l\<lparr>f_state := fs_value\<rparr>))
      | fs_value \<Rightarrow>
          (if f_find l \<and> \<not> is_digit ch then Fs_Ret NGX_ERROR (f_status l)
           else
             let st = (if f_find l then fs_digit ch (f_status l) else f_status l)
             in if f_find l \<and> st_count st = 3 then Fs_Ret NGX_DONE st
                else if ch = SP then Fs_Next (l\<lparr>f_state := fs_space_after_value, f_status := st\<rparr>)
                else if ch = CR then Fs_Next (l\<lparr>f_state := fs_almost_done, f_status := st\<rparr>)
                else if ch = LF then Fs_Done st
                else if ch = NUL then Fs_Ret NGX_ERROR st
                else Fs_Next (l\<lparr>f_status := st\<rparr>))
      | fs_space_after_value \<Rightarrow>
          (if ch = SP then Fs_Next l
           else if ch = CR then Fs_Next (l\<lparr>f_state := fs_almost_done\<rparr>)
           else if ch = LF then Fs_Next (l\<lparr>f_state := fs_start\<rparr>)
           else if ch = NUL then Fs_Ret NGX_ERROR (f_status l)
           else Fs_Next (l\<lparr>f_state := fs_value\<rparr>))
      | fs_ignore_line \<Rightarrow>
          (if ch = LF then Fs_Next (l\<lparr>f_state := fs_start\<rparr>) else Fs_Next l)
      | fs_almost_done \<Rightarrow>
          (if ch = LF then Fs_Done (f_status l)
           else if ch = CR then Fs_Next l
           else Fs_Ret NGX_ERROR (f_status l))
      | fs_header_almost_done \<Rightarrow>
          (if ch = LF then Fs_Done (f_status l) else Fs_Ret NGX_ERROR (f_status l)))"

text \<open>The result: return code, position (kept unless the line ended or the input ran out), the
  state to save if any, and the status. \<open>None\<close> is the \<open>NULL\<close> access.\<close>

fun fs_loop ::
  "string \<Rightarrow> nat \<Rightarrow> fs_local \<Rightarrow> string
     \<Rightarrow> (ngx_rc \<times> nat option \<times> fs_state option \<times> ngx_http_status_t) option" where
  "fs_loop blk p l [] = Some (NGX_AGAIN, Some p, Some (f_state l), f_status l)"
| "fs_loop blk p l (ch # bs) =
     (case fs_step blk p ch l of
        Fs_Next l' \<Rightarrow> fs_loop blk (Suc p) l' bs
      | Fs_Ret rc st \<Rightarrow> Some (rc, None, None, st)
      | Fs_Done st \<Rightarrow> Some (NGX_OK, Some (p + 1), Some fs_start, st)
      | Fs_Fault \<Rightarrow> None)"

definition ngx_http_upstream_check_parse_fastcgi_status ::
  "check_ctx_t \<Rightarrow> (ngx_rc \<times> check_ctx_t) option" where
  "ngx_http_upstream_check_parse_fastcgi_status ctx =
     (let blk = (case b_blk (x_recv ctx) of None \<Rightarrow> [] | Some k \<Rightarrow> x_mem ctx ! k);
          l = \<lparr>f_state = fs_start, f_find = False, f_name_s = None,
               f_status = (x_status ctx)\<lparr>st_count := 0, st_code := 0\<rparr>\<rparr>
      in map_option
           (\<lambda>(rc, pos, s, st).
              (rc, ctx\<lparr>x_status := st,
                       x_recv := (case pos of None \<Rightarrow> x_recv ctx | Some p \<Rightarrow> (x_recv ctx)\<lparr>b_pos := p\<rparr>),
                       x_state := (case s of None \<Rightarrow> x_state ctx | Some s \<Rightarrow> fs_num s)\<rparr>))
           (fs_loop blk (b_pos (x_recv ctx)) l (recv_bytes ctx)))"

subsection \<open>The response\<close>

text \<open>The inner loop: header lines until an error, the end of the record's data or a status code.\<close>

partial_function (option) fastcgi_status_lines :: "check_ctx_t \<Rightarrow> (ngx_rc \<times> check_ctx_t) option" where
  "fastcgi_status_lines ctx =
     Option.bind (ngx_http_upstream_check_parse_fastcgi_status ctx)
       (\<lambda>(rc, ctx'). if rc = NGX_OK then fastcgi_status_lines ctx' else Some (rc, ctx'))"

definition fastcgi_code_class :: "ngx_uint_t \<Rightarrow> ngx_uint_t" where
  "fastcgi_code_class code = fst (http_code_class code)"

text \<open>What follows a complete record header (or a call resumed in the data of one).\<close>

definition fastcgi_parse_data ::
  "ngx_upstream_check_srv_conf_t \<Rightarrow> check_ctx_t \<Rightarrow> (ngx_rc \<times> check_ctx_t) option" where
  "fastcgi_parse_data uc ctx =
     (if st_code (x_status ctx) = 7 then Some (NGX_ERROR, ctx)
      else if \<not> b_pos (x_recv ctx) + x_length ctx < b_last (x_recv ctx) then Some (NGX_ERROR, ctx)
      else
        let ctx = ctx\<lparr>x_recv := (x_recv ctx)\<lparr>b_last := b_pos (x_recv ctx) + x_length ctx\<rparr>,
                      x_status := (x_status ctx)\<lparr>st_code := 0\<rparr>\<rparr>
        in Option.bind (fastcgi_status_lines ctx)
             (\<lambda>(rc, ctx).
                if rc = NGX_ERROR then Some (NGX_ERROR, ctx)
                else if uc_status_alive uc = 0 \<or> rc \<noteq> NGX_DONE then Some (NGX_OK, ctx)
                else if fastcgi_code_class (st_code (x_status ctx)) AND uc_status_alive uc \<noteq> 0
                then Some (NGX_OK, ctx)
                else Some (NGX_ERROR, ctx)))"

text \<open>The record header, when the state is still in it, and the tests on its type and length.\<close>

definition fastcgi_parse_header :: "check_ctx_t \<Rightarrow> ngx_rc \<times> check_ctx_t" where
  "fastcgi_parse_header ctx =
     (if x_state ctx < fc_data
      then (case ngx_http_upstream_check_fastcgi_process_record ctx of
              (rc, ctx) \<Rightarrow>
                if rc = NGX_AGAIN \<or> rc = NGX_ERROR then (rc, ctx)
                else if st_code (x_status ctx) \<noteq> 6 \<and> st_code (x_status ctx) \<noteq> 7 then (NGX_ERROR, ctx)
                else if st_code (x_status ctx) = 6 \<and> x_length ctx = 0 then (NGX_ERROR, ctx)
                else (NGX_OK, ctx))
      else (NGX_OK, ctx))"

text \<open>The padding state: \<open>Inl\<close> goes round the loop, \<open>Inr\<close> returns \<open>NGX_AGAIN\<close>. What is set to
  \<open>ngx_http_fastcgi_st_version\<close> (0) is \<open>status.code\<close>, not \<open>state\<close>.\<close>

definition fastcgi_skip_padding :: "check_ctx_t \<Rightarrow> check_ctx_t + check_ctx_t" where
  "fastcgi_skip_padding ctx =
     (let pos = b_pos (x_recv ctx); lst = b_last (x_recv ctx)
      in if pos + x_padding ctx < lst
         then Inl (ctx\<lparr>x_status := (x_status ctx)\<lparr>st_code := 0\<rparr>,
                       x_recv := (x_recv ctx)\<lparr>b_pos := pos + x_padding ctx\<rparr>\<rparr>)
         else if pos + x_padding ctx = lst
         then Inr (ctx\<lparr>x_status := (x_status ctx)\<lparr>st_code := 0\<rparr>,
                       x_recv := (x_recv ctx)\<lparr>b_pos := lst\<rparr>\<rparr>)
         else Inr (ctx\<lparr>x_padding := x_padding ctx - (lst - pos),
                       x_recv := (x_recv ctx)\<lparr>b_pos := lst\<rparr>\<rparr>))"

partial_function (option) fastcgi_parse_loop ::
  "ngx_upstream_check_srv_conf_t \<Rightarrow> check_ctx_t \<Rightarrow> (ngx_rc \<times> check_ctx_t) option" where
  "fastcgi_parse_loop uc ctx =
     (case fastcgi_parse_header ctx of
        (rc, ctx) \<Rightarrow>
          if rc \<noteq> NGX_OK then Some (rc, ctx)
          else if x_state ctx = fc_padding then
            (case fastcgi_skip_padding ctx of
               Inl ctx \<Rightarrow> fastcgi_parse_loop uc ctx
             | Inr ctx \<Rightarrow> Some (NGX_AGAIN, ctx))
          else fastcgi_parse_data uc ctx)"

definition ngx_http_upstream_check_fastcgi_parse ::
  "ngx_upstream_check_srv_conf_t \<Rightarrow> check_ctx_t \<Rightarrow> (ngx_rc \<times> check_ctx_t) option" where
  "ngx_http_upstream_check_fastcgi_parse uc ctx =
     (if b_last (x_recv ctx) \<le> b_pos (x_recv ctx) then Some (NGX_AGAIN, ctx)
      else fastcgi_parse_loop uc ctx)"

subsection \<open>The request is well-formed\<close>

text \<open>A reference decoder of FastCGI name-value pairs.\<close>

fun fastcgi_get_len :: "string \<Rightarrow> (nat \<times> string) option" where
  "fastcgi_get_len [] = None"
| "fastcgi_get_len (a # r) =
     (if of_char a < (128::nat) then Some (of_char a, r)
      else (case r of
              b # c # d # r' \<Rightarrow>
                Some ((of_char a - 128) * 16777216 + of_char b * 65536 + of_char c * 256 + of_char d, r')
            | _ \<Rightarrow> None))"

lemma fastcgi_get_len_length: "fastcgi_get_len s = Some (n, r) \<Longrightarrow> length r < length s"
  by (cases s rule: fastcgi_get_len.cases) (auto split: if_splits list.splits)

function fastcgi_decode :: "string \<Rightarrow> (string \<times> string) list option" where
  "fastcgi_decode s =
     (if s = [] then Some []
      else (case fastcgi_get_len s of
              None \<Rightarrow> None
            | Some (kn, r) \<Rightarrow>
                (case fastcgi_get_len r of
                   None \<Rightarrow> None
                 | Some (vn, r') \<Rightarrow>
                     if length r' < kn + vn then None
                     else map_option (\<lambda>ps. (take kn r', take vn (drop kn r')) # ps)
                            (fastcgi_decode (drop (kn + vn) r')))))"
  by pat_completeness auto
termination
  by (relation "measure length") (auto dest!: fastcgi_get_len_length)

declare fastcgi_decode.simps [simp del]

lemma fastcgi_get_len_enc:
  assumes "n < 2147483648"
  shows "fastcgi_get_len (fastcgi_len n @ r) = Some (n, r)"
proof (cases "n > 127")
  case True
  have hi: "n div 16777216 mod 128 = n div 16777216" "(n div 16777216 + 128) mod 256 = n div 16777216 + 128"
    using assms by simp_all
  have "n div 256 div 256 = n div 65536" "n div 65536 div 256 = n div 16777216"
    by (simp_all flip: div_mult2_eq)
  then have "n div 16777216 * 16777216 + n div 65536 mod 256 * 65536 + n div 256 mod 256 * 256 + n mod 256 = n"
    using div_mult_mod_eq [of n 256] div_mult_mod_eq [of "n div 256" 256]
      div_mult_mod_eq [of "n div 65536" 256] by linarith
  with hi show ?thesis using True by (simp add: fastcgi_len_def)
qed (simp add: fastcgi_len_def)

lemma fastcgi_len_not_Nil [simp]: "fastcgi_len n \<noteq> []"
  by (simp add: fastcgi_len_def)

lemma fastcgi_params_bytes_simps [simp]:
  "fastcgi_params_bytes [] = []"
  "fastcgi_params_bytes ((k, v) # ps) =
     fastcgi_len (length k) @ fastcgi_len (length v) @ k @ v @ fastcgi_params_bytes ps"
  by (simp_all add: fastcgi_params_bytes_def)

lemma fastcgi_decode_params:
  "list_all (\<lambda>(k, v). length k < 2147483648 \<and> length v < 2147483648) ps \<Longrightarrow>
     fastcgi_decode (fastcgi_params_bytes ps) = Some ps"
proof (induction ps)
  case Nil
  then show ?case by (simp add: fastcgi_decode.simps)
next
  case (Cons kv ps)
  obtain k v where kv: "kv = (k, v)" by (cases kv)
  with Cons show ?case
    by (subst fastcgi_decode.simps) (simp add: fastcgi_get_len_enc)
qed

lemma length_fastcgi_len: "length (fastcgi_len n) = (if n > 127 then 4 else 1)"
  by (simp add: fastcgi_len_def)

lemma length_fastcgi_params_bytes:
  "length (fastcgi_params_bytes ps) =
     fastcgi_params_len ps + 3 * length (filter (\<lambda>(k, v). length k > 127) ps)"
  by (induction ps) (auto simp: fastcgi_params_len_def length_fastcgi_len)

lemma fastcgi_padding_mod: "(len + fastcgi_padding len) mod 8 = 0 \<and> fastcgi_padding len < 8"
proof -
  have "len mod 8 < 8" by simp
  then show ?thesis by (auto simp: fastcgi_padding_def Let_def) presburger
qed

text \<open>C21: When no parameter name is longer than 127 bytes and the block fits a record, the FastCGI
  request fits its buffer exactly: begin request, a params record whose header announces the
  length of the parameter block and of the padding (to a multiple of eight), an empty params
  record, and eight bytes for the stdin header; decoding the block gives the parameters back.\<close>

theorem fastcgi_request_wf:
  assumes "list_all (\<lambda>(k, v). length k \<le> 127 \<and> length v < 2147483648) ps"
    and "fastcgi_params_len ps < 65536" and "length junk = 8"
  shows "\<exists>params pad.
    ngx_http_upstream_check_create_fastcgi_request junk ps =
      Some (ngx_http_fastcgi_request_start
            @ [u8 (length params div 256), u8 (length params), u8 pad, NUL]
            @ params @ replicate pad NUL @ bytes_of [1, 4, 0, 1, 0, 0, 0, 0] @ junk)
    \<and> fastcgi_decode params = Some ps
    \<and> (length params + pad) mod 8 = 0 \<and> pad < 8
    \<and> of_char (u8 (length params div 256)) * 256 + of_char (u8 (length params)) = length params
    \<and> fastcgi_request_size ps = 40 + length params + pad"
proof -
  have "filter (\<lambda>(k, v). length k > 127) ps = []"
    using assms(1) by (auto simp: list_all_iff filter_empty_conv)
  then have len: "length (fastcgi_params_bytes ps) = fastcgi_params_len ps"
    by (simp add: length_fastcgi_params_bytes)
  have "list_all (\<lambda>(k, v). length k < 2147483648 \<and> length v < 2147483648) ps"
    using assms(1) by (auto simp: list_all_iff)
  note dec = fastcgi_decode_params [OF this]
  have "fastcgi_params_len ps div 256 mod 256 * 256 + fastcgi_params_len ps mod 256 = fastcgi_params_len ps"
    using assms(2) by simp
  then show ?thesis
    using assms(3) len dec fastcgi_padding_mod [of "fastcgi_params_len ps"]
    by (intro exI [of _ "fastcgi_params_bytes ps"] exI [of _ "fastcgi_padding (fastcgi_params_len ps)"])
      (simp add: ngx_http_upstream_check_create_fastcgi_request_def Let_def
        fastcgi_request_size_def ngx_http_fastcgi_request_start_def bytes_of_def)
qed

lemma fastcgi_request_wf_witness:
  "fastcgi_pairs fastcgi_default_params =
     [(''REQUEST_METHOD'', ''GET''), (''REQUEST_URI'', ''/''), (''SCRIPT_FILENAME'', ''index.php'')]
   \<and> (\<exists>b. ngx_http_upstream_check_create_fastcgi_request (replicate 8 NUL)
             (fastcgi_pairs fastcgi_default_params) = Some b)"
proof -
  have p: "fastcgi_pairs fastcgi_default_params =
     [(''REQUEST_METHOD'', ''GET''), (''REQUEST_URI'', ''/''), (''SCRIPT_FILENAME'', ''index.php'')]"
    by (simp add: fastcgi_default_params_def)
  have "list_all (\<lambda>(k, v). length k \<le> 127 \<and> length v < 2147483648) (fastcgi_pairs fastcgi_default_params)"
    "fastcgi_params_len (fastcgi_pairs fastcgi_default_params) < 65536"
    by (simp_all add: p fastcgi_params_len_def)
  from fastcgi_request_wf [OF this, of "replicate 8 NUL"] p show ?thesis by auto
qed

text \<open>A parameter name longer than 127 bytes makes the request overrun its buffer: its length
  is written in four bytes and counted as one.\<close>

theorem fastcgi_request_overrun:
  assumes "(k, v) \<in> set ps" "length k > 127"
  shows "ngx_http_upstream_check_create_fastcgi_request junk ps = None"
proof -
  have "filter (\<lambda>(k, v). length k > 127) ps \<noteq> []"
    using assms by (auto simp: filter_empty_conv)
  then have "length (fastcgi_params_bytes ps) > fastcgi_params_len ps"
    by (simp add: length_fastcgi_params_bytes)
  then show ?thesis
    by (simp add: ngx_http_upstream_check_create_fastcgi_request_def Let_def fastcgi_request_size_def
        ngx_http_fastcgi_request_start_def bytes_of_def)
qed

lemma fastcgi_request_overrun_witness:
  "ngx_http_upstream_check_create_fastcgi_request [] [(replicate 128 CHR ''A'', ''x'')] = None"
  by (rule fastcgi_request_overrun [of "replicate 128 CHR ''A''" "''x''"]) simp_all

subsection \<open>The header line parser terminates and stays in the record\<close>

lemma fs_loop_pos:
  "fs_loop blk p l bs = Some (rc, pos, s, st) \<Longrightarrow>
     (case pos of None \<Rightarrow> rc \<noteq> NGX_OK \<and> rc \<noteq> NGX_AGAIN
      | Some q \<Rightarrow> p \<le> q \<and> q \<le> p + length bs \<and> (rc = NGX_OK \<longrightarrow> p < q))
     \<and> (rc = NGX_AGAIN \<longrightarrow> pos = Some (p + length bs))
     \<and> (rc = NGX_OK \<longrightarrow> s = Some fs_start)"
proof (induction bs arbitrary: p l)
  case Nil
  then show ?case by auto
next
  case (Cons ch bs)
  show ?case
  proof (cases "fs_step blk p ch l")
    case (Fs_Next l')
    with Cons.prems have "fs_loop blk (Suc p) l' bs = Some (rc, pos, s, st)" by simp
    from Cons.IH [OF this] show ?thesis by (auto split: option.splits)
  next
    case (Fs_Ret rc' st')
    then have "rc' \<in> {NGX_ERROR, NGX_DONE}"
      by (auto simp: fs_step_def Let_def split: fs_state.splits if_splits option.splits)
    with Fs_Ret Cons.prems show ?thesis by auto
  qed (use Cons.prems in auto)
qed

subsection \<open>Header blocks\<close>

lemma lowcase_not [simp]: "\<not> lowcase CR" "\<not> lowcase LF" "\<not> lowcase NUL" "\<not> lowcase SP" "\<not> lowcase CHR '':''"
  by (simp_all add: lowcase_def is_digit_iff)

lemma fs_loop_name:
  "list_all lowcase n \<Longrightarrow> f_state l = fs_name \<Longrightarrow> fs_loop blk p l (n @ r) = fs_loop blk (p + length n) l r"
  by (induction n arbitrary: p) (simp_all add: fs_step_def)

lemma fs_loop_value:
  "\<lbrakk>CR \<notin> set v; LF \<notin> set v; NUL \<notin> set v; \<not> f_find l;
    f_state l \<in> {fs_space_before_value, fs_value, fs_space_after_value}\<rbrakk> \<Longrightarrow>
     fs_loop blk p l (v @ crlf @ r) = Some (NGX_OK, Some (p + length v + 2), Some fs_start, f_status l)"
proof (induction v arbitrary: p l)
  case Nil
  then show ?case by (auto simp: fs_step_def crlf_def Let_def)
next
  case (Cons c v)
  then have c: "c \<noteq> CR" "c \<noteq> LF" "c \<noteq> NUL" by auto
  have "\<exists>l'. fs_step blk p c l = Fs_Next l' \<and> \<not> f_find l' \<and> f_status l' = f_status l
      \<and> f_state l' \<in> {fs_space_before_value, fs_value, fs_space_after_value}"
    using Cons.prems c by (cases "f_state l") (simp_all add: fs_step_def Let_def)
  then obtain l' where l': "fs_step blk p c l = Fs_Next l'" "\<not> f_find l'" "f_status l' = f_status l"
    "f_state l' \<in> {fs_space_before_value, fs_value, fs_space_after_value}" by blast
  have "fs_loop blk p l ((c # v) @ crlf @ r) = fs_loop blk (Suc p) l' (v @ crlf @ r)"
    using l'(1) by simp
  also have "\<dots> = Some (NGX_OK, Some (Suc p + length v + 2), Some fs_start, f_status l')"
    using Cons.prems l'(2,4) by (intro Cons.IH) simp_all
  finally show ?case using l'(3) by simp
qed

text \<open>A header line other than \<open>Status\<close>: name, colon, space and value.\<close>

definition plain_header :: "string \<times> string \<Rightarrow> bool" where
  "plain_header nv \<longleftrightarrow>
     (case nv of (n, v) \<Rightarrow>
        n \<noteq> [] \<and> list_all lowcase n \<and> ngx_strncasecmp n ''status'' (length n) \<noteq> 0
        \<and> CR \<notin> set v \<and> LF \<notin> set v \<and> NUL \<notin> set v)"

definition header_line :: "string \<times> string \<Rightarrow> string" where
  "header_line nv = fst nv @ '': '' @ snd nv"

lemma fs_loop_colon:
  assumes "n \<noteq> []" "list_all lowcase n" "drop p blk = n @ '':'' @ r'" "f_state l = fs_start" "\<not> f_find l"
  shows "fs_loop blk p l (n @ '':'' @ r) =
    fs_loop blk (p + length n + 1)
      (l\<lparr>f_name_s := Some p, f_state := fs_space_before_value,
         f_find := (ngx_strncasecmp n ''status'' (length n) = 0)\<rparr>) r"
proof -
  from assms(1) obtain c n' where n: "n = c # n'" by (auto simp: neq_Nil_conv)
  with assms(2) have c: "lowcase c" "list_all lowcase n'" by auto
  have "c \<noteq> CR" "c \<noteq> LF" using c(1) lowcase_not by metis+
  have cmp: "ngx_strncasecmp (drop p blk) ''status'' (length n) = ngx_strncasecmp n ''status'' (length n)"
    using assms(3) ngx_strncasecmp_append [of n "'':'' @ r'" "''status''"] by simp
  let ?l = "l\<lparr>f_name_s := Some p, f_state := fs_name\<rparr>"
  have "fs_loop blk p l (n @ '':'' @ r) = fs_loop blk (Suc p) ?l (n' @ '':'' @ r)"
    using c \<open>c \<noteq> CR\<close> \<open>c \<noteq> LF\<close> assms(4) by (simp add: n fs_step_def)
  also have "\<dots> = fs_loop blk (Suc p + length n') ?l ('':'' @ r)"
    using c(2) by (intro fs_loop_name) simp_all
  also have "Suc p + length n' = p + length n" by (simp add: n)
  finally show ?thesis
    using assms(5) by (simp add: fs_step_def cmp del: ngx_strncasecmp.simps)
qed

lemma fs_loop_plain:
  assumes "plain_header nv" "drop p blk = header_line nv @ crlf @ r'" "f_state l = fs_start" "\<not> f_find l"
  shows "fs_loop blk p l (header_line nv @ crlf @ r) =
    Some (NGX_OK, Some (p + length (header_line nv) + 2), Some fs_start, f_status l)"
proof -
  obtain n v where nv: "nv = (n, v)" by (cases nv)
  let ?l = "l\<lparr>f_name_s := Some p, f_state := fs_space_before_value, f_find := False\<rparr>"
  have d: "drop p blk = n @ '':'' @ ('' '' @ v @ crlf @ r')"
    using assms(2) nv by (simp add: header_line_def)
  have "fs_loop blk p l (header_line nv @ crlf @ r) =
      fs_loop blk (p + length n + 1) ?l ('' '' @ v @ crlf @ r)"
    using fs_loop_colon [OF _ _ d assms(3,4)] assms(1)
    by (simp add: plain_header_def header_line_def nv del: ngx_strncasecmp.simps fs_loop.simps)
  also have "\<dots> = Some (NGX_OK, Some (p + length n + 1 + length ('' '' @ v) + 2), Some fs_start, f_status ?l)"
    using fs_loop_value [of "'' '' @ v" ?l blk "p + length n + 1" r] assms(1) nv
    by (simp add: plain_header_def del: ngx_strncasecmp.simps fs_loop.simps)
  finally show ?thesis using nv by (simp add: header_line_def)
qed

text \<open>The \<open>Status\<close> line gives its three digits.\<close>

lemma fs_loop_status:
  assumes "length code = 3" "list_all is_digit code" "hd code \<noteq> CHR ''0''"
    and "drop p blk = ''Status: '' @ code @ r'" "f_state l = fs_start" "\<not> f_find l"
    and "st_count (f_status l) = 0" "st_code (f_status l) = 0"
  shows "\<exists>st. fs_loop blk p l (''Status: '' @ code @ r) = Some (NGX_DONE, None, None, st)
           \<and> st_code st = of_int (dec_value code)"
proof -
  from assms(1) obtain a b c where code: "code = [a, b, c]"
    by (auto simp: length_Suc_conv numeral_3_eq_3)
  with assms(2) have d: "is_digit a" "is_digit b" "is_digit c" by auto
  have ne: "x \<noteq> SP" "x \<noteq> CR" "x \<noteq> LF" "x \<noteq> NUL" if "is_digit x" for x
    using that is_digit_simps by metis+
  have a: "\<not> a < CHR ''1''" "\<not> CHR ''9'' < a"
    using first_major [OF d(1)] assms(3) code by auto
  have st: "ngx_strncasecmp ''Status'' ''status'' 6 = 0" by code_simp
  have low: "list_all lowcase ''Status''" by code_simp
  have "fs_loop blk p l (''Status: '' @ code @ r) =
    fs_loop blk (p + 7) (l\<lparr>f_name_s := Some p, f_state := fs_space_before_value, f_find := True\<rparr>)
      ('' '' @ code @ r)"
    using fs_loop_colon [of "''Status''" p blk "'' '' @ code @ r'" l "'' '' @ code @ r"] assms(4-6) low st
    by (simp add: eval_nat_numeral)
  then show ?thesis
    using d ne [OF d(1)] ne [OF d(2)] a assms(7,8)
    by (simp add: code fs_step_def fs_digit_def Let_def dec_value_def algebra_simps)
qed

subsection \<open>Verdicts on whole records\<close>

lemma recv_bytes_drop:
  assumes "wf_ctx ctx" "b_blk (x_recv ctx) = Some k"
  shows "drop (b_pos (x_recv ctx)) (x_mem ctx ! k) =
    recv_bytes ctx @ drop (b_last (x_recv ctx)) (x_mem ctx ! k)"
  using assms append_take_drop_id [of "b_last (x_recv ctx) - b_pos (x_recv ctx)"
      "drop (b_pos (x_recv ctx)) (x_mem ctx ! k)"]
  by (simp add: wf_ctx_def wf_recv_def recv_bytes_def buf_bytes_def bytes_between_def)

lemma recv_bytes_length:
  "wf_ctx ctx \<Longrightarrow> length (recv_bytes ctx) = b_last (x_recv ctx) - b_pos (x_recv ctx)"
  by (auto simp: wf_ctx_def wf_recv_def recv_bytes_def buf_bytes_def split: option.splits)

lemma recv_bytes_blk: "recv_bytes ctx \<noteq> [] \<Longrightarrow> \<exists>k. b_blk (x_recv ctx) = Some k"
  by (auto simp: recv_bytes_def buf_bytes_def split: option.splits)

text \<open>Moving \<open>pos\<close> over \<open>n\<close> received bytes.\<close>

lemma recv_bytes_advance:
  assumes "wf_ctx ctx" "n \<le> length (recv_bytes ctx)"
  shows "wf_ctx (ctx\<lparr>x_status := st, x_recv := x_recv ctx\<lparr>b_pos := b_pos (x_recv ctx) + n\<rparr>, x_state := s\<rparr>)
    \<and> recv_bytes (ctx\<lparr>x_status := st, x_recv := x_recv ctx\<lparr>b_pos := b_pos (x_recv ctx) + n\<rparr>, x_state := s\<rparr>)
      = drop n (recv_bytes ctx)"
  using assms recv_bytes_length [OF assms(1)]
  by (auto simp: wf_ctx_def wf_recv_def recv_bytes_def buf_bytes_def bytes_between_def drop_take add.commute split: option.splits)

lemma parse_fastcgi_status_plain:
  assumes wf: "wf_ctx ctx" and nv: "plain_header nv" and bs: "recv_bytes ctx = header_line nv @ crlf @ tail"
  shows "\<exists>ctx'. ngx_http_upstream_check_parse_fastcgi_status ctx = Some (NGX_OK, ctx')
    \<and> wf_ctx ctx' \<and> recv_bytes ctx' = tail"
proof -
  from recv_bytes_blk [of ctx] bs obtain k where k: "b_blk (x_recv ctx) = Some k"
    by (auto simp: crlf_def)
  let ?n = "length (header_line nv) + 2"
  let ?st = "(x_status ctx)\<lparr>st_count := 0, st_code := 0\<rparr>"
  let ?ctx = "ctx\<lparr>x_status := ?st, x_recv := x_recv ctx\<lparr>b_pos := b_pos (x_recv ctx) + ?n\<rparr>, x_state := 0\<rparr>"
  have "drop (b_pos (x_recv ctx)) (x_mem ctx ! k) =
      header_line nv @ crlf @ (tail @ drop (b_last (x_recv ctx)) (x_mem ctx ! k))"
    using recv_bytes_drop [OF wf k] bs by simp
  then have "ngx_http_upstream_check_parse_fastcgi_status ctx = Some (NGX_OK, ?ctx)"
    using k bs fs_loop_plain [OF nv, of "b_pos (x_recv ctx)" "x_mem ctx ! k" _
        "\<lparr>f_state = fs_start, f_find = False, f_name_s = None, f_status = ?st\<rparr>" tail]
    by (simp add: ngx_http_upstream_check_parse_fastcgi_status_def Let_def)
  moreover have "wf_ctx ?ctx \<and> recv_bytes ?ctx = tail"
    using recv_bytes_advance [OF wf, where n = ?n and st = ?st and s = 0] bs by simp
  ultimately show ?thesis by blast
qed

lemma fastcgi_status_lines_plain:
  "wf_ctx ctx \<Longrightarrow> list_all plain_header hs \<Longrightarrow>
     recv_bytes ctx = header_lines (map header_line hs) @ tail \<Longrightarrow>
     \<exists>ctx'. fastcgi_status_lines ctx = fastcgi_status_lines ctx' \<and> wf_ctx ctx' \<and> recv_bytes ctx' = tail"
proof (induction hs arbitrary: ctx)
  case Nil
  then show ?case by auto
next
  case (Cons nv hs)
  then obtain ctx1 where c1: "ngx_http_upstream_check_parse_fastcgi_status ctx = Some (NGX_OK, ctx1)"
    "wf_ctx ctx1" "recv_bytes ctx1 = header_lines (map header_line hs) @ tail"
    using parse_fastcgi_status_plain [of ctx nv "header_lines (map header_line hs) @ tail"] by auto
  then have "fastcgi_status_lines ctx = fastcgi_status_lines ctx1"
    by (subst fastcgi_status_lines.simps) simp
  with Cons.IH [OF c1(2) _ c1(3)] Cons.prems(2) show ?case by auto
qed

lemma fastcgi_status_lines_status:
  assumes wf: "wf_ctx ctx" and bs: "recv_bytes ctx = ''Status: '' @ code @ r"
    and code: "length code = 3" "list_all is_digit code" "hd code \<noteq> CHR ''0''"
  shows "\<exists>ctx'. fastcgi_status_lines ctx = Some (NGX_DONE, ctx')
    \<and> st_code (x_status ctx') = of_int (dec_value code)"
proof -
  from recv_bytes_blk [of ctx] bs obtain k where k: "b_blk (x_recv ctx) = Some k" by auto
  have "drop (b_pos (x_recv ctx)) (x_mem ctx ! k) =
      ''Status: '' @ code @ (r @ drop (b_last (x_recv ctx)) (x_mem ctx ! k))"
    using recv_bytes_drop [OF wf k] bs by simp
  from fs_loop_status [OF code this,
      of "\<lparr>f_state = fs_start, f_find = False, f_name_s = None,
           f_status = (x_status ctx)\<lparr>st_count := 0, st_code := 0\<rparr>\<rparr>" r]
  obtain st where "fs_loop (x_mem ctx ! k) (b_pos (x_recv ctx))
      \<lparr>f_state = fs_start, f_find = False, f_name_s = None,
       f_status = (x_status ctx)\<lparr>st_count := 0, st_code := 0\<rparr>\<rparr> (''Status: '' @ code @ r)
      = Some (NGX_DONE, None, None, st)" "st_code st = of_int (dec_value code)"
    by auto
  then show ?thesis
    using k bs
    by (subst fastcgi_status_lines.simps)
      (simp add: ngx_http_upstream_check_parse_fastcgi_status_def Let_def del: fs_loop.simps)
qed

lemma fastcgi_status_lines_end:
  assumes "recv_bytes ctx = []"
  shows "\<exists>ctx'. fastcgi_status_lines ctx = Some (NGX_AGAIN, ctx')"
  using assms by (subst fastcgi_status_lines.simps)
    (simp add: ngx_http_upstream_check_parse_fastcgi_status_def Let_def)

lemma or_byte: "lo < 256 \<Longrightarrow> hi * 256 OR lo = hi * 256 + (lo :: nat)"
proof -
  assume lo: "lo < 256"
  have "\<not> bit (hi * 256) n \<or> \<not> bit lo n" for n
  proof (cases "n < 8")
    case True
    have "hi * 256 = push_bit 8 hi" by (simp add: push_bit_eq_mult)
    with True show ?thesis by (simp add: bit_push_bit_iff_nat)
  next
    case False
    then have "(2::nat) ^ 8 \<le> 2 ^ n" by (intro power_increasing) simp_all
    with lo have "lo div 2 ^ n = 0" by simp
    then show ?thesis by (simp add: bit_iff_odd)
  qed
  then show ?thesis by (metis disjunctive_add)
qed

text \<open>A record as the application sends it: header with type, content length and padding length.\<close>

definition fastcgi_header :: "nat \<Rightarrow> nat \<Rightarrow> nat \<Rightarrow> string" where
  "fastcgi_header t len pad =
     [CHR 0x01, u8 t, CHR 0x00, CHR 0x01, u8 (len div 256), u8 len, u8 pad, CHR 0x00]"

lemma fr_loop_header:
  "fr_loop p 0 ctx (CHR 0x01 # CHR 0x06 # CHR 0x00 # CHR 0x01 # h # l # d # z # r) =
     (NGX_OK, ctx\<lparr>x_status := (x_status ctx)\<lparr>st_code := 6\<rparr>, x_length := of_char h * 256 OR of_char l,
        x_padding := of_char d, x_recv := x_recv ctx\<lparr>b_pos := p + 8\<rparr>, x_state := 8\<rparr>)"
  by (simp add: fr_step_def)

lemma process_record_stdout:
  assumes wf: "wf_ctx ctx" and st: "x_state ctx = 0" and len: "len < 65536"
    and bs: "recv_bytes ctx = fastcgi_header 6 len pad @ r"
  shows "\<exists>ctx'. ngx_http_upstream_check_fastcgi_process_record ctx = (NGX_OK, ctx')
    \<and> st_code (x_status ctx') = 6 \<and> x_length ctx' = len \<and> x_state ctx' = 8
    \<and> wf_ctx ctx' \<and> recv_bytes ctx' = r"
proof -
  let ?ctx = "ctx\<lparr>x_status := (x_status ctx)\<lparr>st_code := 6\<rparr>, x_length := len, x_padding := pad mod 256,
      x_recv := x_recv ctx\<lparr>b_pos := b_pos (x_recv ctx) + 8\<rparr>, x_state := 8\<rparr>"
  from recv_bytes_blk [of ctx] bs obtain k where k: "b_blk (x_recv ctx) = Some k"
    by (auto simp: fastcgi_header_def)
  have l: "len div 256 mod 256 * 256 OR len mod 256 = len"
    using len by (simp add: or_byte)
  have six: "u8 6 = CHR 0x06" by code_simp
  have "ngx_http_upstream_check_fastcgi_process_record ctx = (NGX_OK, ?ctx)"
    using st bs six
    by (simp only: ngx_http_upstream_check_fastcgi_process_record_def fastcgi_header_def append_Cons
        append_Nil fr_loop_header of_char_u8 l)
  moreover have "wf_ctx ?ctx \<and> recv_bytes ?ctx = r"
  proof -
    let ?ctx1 = "ctx\<lparr>x_status := (x_status ctx)\<lparr>st_code := 6\<rparr>,
      x_recv := x_recv ctx\<lparr>b_pos := b_pos (x_recv ctx) + 8\<rparr>, x_state := 8\<rparr>"
    have "length (fastcgi_header 6 len pad) = 8" by (simp add: fastcgi_header_def)
    then have "wf_ctx ?ctx1 \<and> recv_bytes ?ctx1 = r"
      using recv_bytes_advance [OF wf, where n = 8 and s = 8] bs by simp
    with k show ?thesis by (simp add: wf_ctx_def wf_recv_def recv_bytes_def buf_bytes_def)
  qed
  ultimately show ?thesis by (intro exI [of _ ?ctx]) simp
qed

lemma fastcgi_parse_record:
  assumes wf: "wf_ctx ctx" and st: "x_state ctx = 0" and len: "length content < 65536" "content \<noteq> []"
    and bs: "recv_bytes ctx = fastcgi_header 6 (length content) pad @ content @ trail"
  shows "\<exists>ctx'. wf_ctx ctx' \<and> x_state ctx' = 8 \<and> st_code (x_status ctx') = 6 \<and> x_length ctx' = length content
    \<and> recv_bytes ctx' = content @ trail
    \<and> ngx_http_upstream_check_fastcgi_parse uc ctx = fastcgi_parse_data uc ctx'"
proof -
  from process_record_stdout [OF wf st len(1) bs] obtain ctx' where c:
    "ngx_http_upstream_check_fastcgi_process_record ctx = (NGX_OK, ctx')"
    "st_code (x_status ctx') = 6" "x_length ctx' = length content" "x_state ctx' = 8"
    "wf_ctx ctx'" "recv_bytes ctx' = content @ trail" by auto
  have "recv_bytes ctx \<noteq> []" using bs by (simp add: fastcgi_header_def)
  then have "b_pos (x_recv ctx) < b_last (x_recv ctx)" using recv_bytes_length [OF wf] by (cases "recv_bytes ctx") auto
  then have "ngx_http_upstream_check_fastcgi_parse uc ctx = fastcgi_parse_data uc ctx'"
    using c len(2) st
    by (simp add: ngx_http_upstream_check_fastcgi_parse_def)
      (subst fastcgi_parse_loop.simps, simp add: fastcgi_parse_header_def)
  with c show ?thesis by blast
qed

lemma fastcgi_parse_data_lines:
  assumes "wf_ctx ctx" "st_code (x_status ctx) = 6" "x_length ctx = length content"
    "recv_bytes ctx = content @ trail" "trail \<noteq> []"
  shows "\<exists>ctx'. wf_ctx ctx' \<and> recv_bytes ctx' = content \<and>
    fastcgi_parse_data uc ctx =
      Option.bind (fastcgi_status_lines ctx')
        (\<lambda>(rc, ctx).
           if rc = NGX_ERROR then Some (NGX_ERROR, ctx)
           else if uc_status_alive uc = 0 \<or> rc \<noteq> NGX_DONE then Some (NGX_OK, ctx)
           else if fastcgi_code_class (st_code (x_status ctx)) AND uc_status_alive uc \<noteq> 0
           then Some (NGX_OK, ctx) else Some (NGX_ERROR, ctx))"
proof -
  let ?ctx = "ctx\<lparr>x_recv := (x_recv ctx)\<lparr>b_last := b_pos (x_recv ctx) + x_length ctx\<rparr>,
      x_status := (x_status ctx)\<lparr>st_code := 0\<rparr>\<rparr>"
  from recv_bytes_blk [of ctx] assms(4,5) obtain k where k: "b_blk (x_recv ctx) = Some k" by auto
  have lt: "b_pos (x_recv ctx) + x_length ctx < b_last (x_recv ctx)"
    using recv_bytes_length [OF assms(1)] assms(3-5) by (cases trail) auto
  have "drop (b_pos (x_recv ctx)) (x_mem ctx ! k) = content @ trail @ drop (b_last (x_recv ctx)) (x_mem ctx ! k)"
    using recv_bytes_drop [OF assms(1) k] assms(4) by simp
  then have "recv_bytes ?ctx = content"
    using k assms(3) by (simp add: recv_bytes_def buf_bytes_def bytes_between_def)
  moreover have "wf_ctx ?ctx" using assms(1) lt k by (simp add: wf_ctx_def wf_recv_def)
  ultimately show ?thesis
    using lt assms(2) by (intro exI [of _ ?ctx]) (simp add: fastcgi_parse_data_def Let_def)
qed





text \<open>C33: A header line that starts with a byte which is neither a letter, a digit nor a hyphen, and
  contains a colon, makes the FastCGI check compare a name through a null pointer.\<close>

theorem fastcgi_null_name:
  assumes "wf_ctx ctx" "recv_bytes ctx = c # n @ '':'' @ r"
    and "\<not> lowcase c" "c \<noteq> CR" "c \<noteq> LF" "c \<noteq> NUL" and "list_all lowcase n"
  shows "ngx_http_upstream_check_parse_fastcgi_status ctx = None"
proof -
  have "fs_loop blk p \<lparr>f_state = fs_start, f_find = False, f_name_s = None, f_status = st\<rparr>
      (c # n @ '':'' @ r) = None" for blk p st
    using assms(3-6) fs_loop_name [OF assms(7), of
        "\<lparr>f_state = fs_name, f_find = False, f_name_s = None, f_status = st\<rparr>" blk "Suc p" "'':'' @ r"]
    by (simp add: fs_step_def)
  then show ?thesis
    using assms(2) by (simp add: ngx_http_upstream_check_parse_fastcgi_status_def Let_def)
qed

lemma fastcgi_null_name_witness:
  "ngx_http_upstream_check_parse_fastcgi_status (sample_ctx ''_x: y'') = None"
proof (rule fastcgi_null_name)
  show "wf_ctx (sample_ctx ''_x: y'')" "recv_bytes (sample_ctx ''_x: y'') = CHR ''_'' # ''x'' @ '':'' @ '' y''"
    "\<not> lowcase CHR ''_''" "list_all lowcase ''x''"
    by code_simp+
qed simp_all

text \<open>When only a part of a record header has arrived, the FastCGI check saves how far it got but
  not the position: the next call reads the same bytes again in the later state.\<close>

theorem fastcgi_split_header:
  assumes "wf_ctx ctx" "x_state ctx = 0" "0 < n" "n < 8"
    and "recv_bytes ctx = take n (fastcgi_header 6 len pad)"
  shows "\<exists>ctx'. ngx_http_upstream_check_fastcgi_parse uc ctx = Some (NGX_AGAIN, ctx')
    \<and> x_state ctx' = n \<and> recv_bytes ctx' = recv_bytes ctx"
proof -
  have six: "u8 6 = CHR 0x06" by code_simp
  from assms(3,4) consider "n = 1" | "n = 2" | "n = 3" | "n = 4" | "n = 5" | "n = 6" | "n = 7" by linarith
  then obtain c1 where c1: "fr_loop (b_pos (x_recv ctx)) 0 ctx (take n (fastcgi_header 6 len pad)) =
      (NGX_AGAIN, c1)" "x_state c1 = n" "x_recv c1 = x_recv ctx" "x_mem c1 = x_mem ctx"
    by cases (simp_all add: fastcgi_header_def six fr_step_def)
  have "b_pos (x_recv ctx) < b_last (x_recv ctx)"
    using recv_bytes_length [OF assms(1)] assms(3,5) by (simp add: fastcgi_header_def)
  moreover have "recv_bytes c1 = recv_bytes ctx"
    using c1 by (simp add: recv_bytes_def buf_bytes_def split: option.split)
  moreover have "ngx_http_upstream_check_fastcgi_process_record ctx = (NGX_AGAIN, c1)"
    using c1(1) assms(2,5) by (simp add: ngx_http_upstream_check_fastcgi_process_record_def)
  ultimately show ?thesis
    using assms(2) c1(2)
    by (simp add: ngx_http_upstream_check_fastcgi_parse_def)
      (subst fastcgi_parse_loop.simps, simp add: fastcgi_parse_header_def)
qed

lemma fastcgi_split_header_witness:
  "\<exists>ctx'. ngx_http_upstream_check_fastcgi_parse sample_conf (sample_ctx (take 3 (fastcgi_header 6 11 0)))
       = Some (NGX_AGAIN, ctx')
     \<and> x_state ctx' = 3 \<and> recv_bytes ctx' = take 3 (fastcgi_header 6 11 0)"
proof -
  let ?ctx = "sample_ctx (take 3 (fastcgi_header 6 11 0))"
  have "wf_ctx ?ctx" "x_state ?ctx = 0" "recv_bytes ?ctx = take 3 (fastcgi_header 6 11 0)"
    by code_simp+
  then show ?thesis using fastcgi_split_header [of ?ctx 3 11 0 sample_conf] by simp
qed

subsection \<open>Nothing leaves the buffer\<close>

lemma fr_step_keeps:
  "case fr_step p s c ctx of
     Fr_Next s1 c1 \<Rightarrow> x_recv c1 = x_recv ctx \<and> x_send c1 = x_send ctx \<and> x_mem c1 = x_mem ctx
   | Fr_Error \<Rightarrow> True
   | Fr_Ok c1 \<Rightarrow> c1 = ctx\<lparr>x_recv := (x_recv ctx)\<lparr>b_pos := p + 1\<rparr>, x_state := fc_data\<rparr>"
  by (simp add: fr_step_def)

lemma fr_loop_keeps:
  "wf_ctx ctx \<Longrightarrow> fr_loop p s ctx bs = (rc, ctx') \<Longrightarrow> b_pos (x_recv ctx) \<le> p \<Longrightarrow>
     p + length bs \<le> b_last (x_recv ctx) \<Longrightarrow>
     wf_ctx ctx' \<and> x_send ctx' = x_send ctx"
proof (induction bs arbitrary: p s ctx)
  case Nil
  then show ?case by (auto simp: wf_ctx_def)
next
  case (Cons c bs)
  show ?case
  proof (cases "fr_step p s c ctx")
    case (Fr_Next s1 c1)
    then have "x_recv c1 = x_recv ctx \<and> x_send c1 = x_send ctx \<and> x_mem c1 = x_mem ctx"
      using fr_step_keeps [where p = p and s = s and c = c and ctx = ctx] by simp
    moreover from this Cons.prems(1) have "wf_ctx c1" by (simp add: wf_ctx_def)
    ultimately show ?thesis using Cons.IH [of c1 "Suc p" s1] Cons.prems Fr_Next by simp
  next
    case (Fr_Ok c1)
    then have "c1 = ctx\<lparr>x_recv := (x_recv ctx)\<lparr>b_pos := p + 1\<rparr>, x_state := fc_data\<rparr>"
      using fr_step_keeps [where p = p and s = s and c = c and ctx = ctx] by simp
    with Fr_Ok Cons.prems show ?thesis by (auto simp: wf_ctx_def wf_recv_def split: option.splits)
  qed (use Cons.prems in auto)
qed

lemma parse_fastcgi_status_keeps:
  assumes "wf_ctx ctx" "ngx_http_upstream_check_parse_fastcgi_status ctx = Some (rc, ctx')"
  shows "wf_ctx ctx' \<and> x_send ctx' = x_send ctx"
proof -
  let ?blk = "case b_blk (x_recv ctx) of None \<Rightarrow> [] | Some k \<Rightarrow> x_mem ctx ! k"
  from assms(2) obtain pos s st where l:
    "fs_loop ?blk (b_pos (x_recv ctx)) \<lparr>f_state = fs_start, f_find = False, f_name_s = None,
       f_status = (x_status ctx)\<lparr>st_count := 0, st_code := 0\<rparr>\<rparr> (recv_bytes ctx) = Some (rc, pos, s, st)"
    and c: "ctx' = ctx\<lparr>x_status := st,
        x_recv := (case pos of None \<Rightarrow> x_recv ctx | Some p \<Rightarrow> (x_recv ctx)\<lparr>b_pos := p\<rparr>),
        x_state := (case s of None \<Rightarrow> x_state ctx | Some s \<Rightarrow> fs_num s)\<rparr>"
    by (auto simp: ngx_http_upstream_check_parse_fastcgi_status_def Let_def)
  from fs_loop_pos [OF l] recv_bytes_length [OF assms(1)] assms(1) show ?thesis
    by (auto simp: c wf_ctx_def wf_recv_def split: option.splits)
qed

lemma fastcgi_status_lines_keeps:
  assumes "fastcgi_status_lines ctx = Some (rc, ctx')" "wf_ctx ctx"
  shows "wf_ctx ctx' \<and> x_send ctx' = x_send ctx"
proof -
  have "wf_ctx ctx \<longrightarrow> wf_ctx (snd r) \<and> x_send (snd r) = x_send ctx"
    if "fastcgi_status_lines ctx = Some r" for r
  proof (rule fastcgi_status_lines.raw_induct [OF _ that])
    fix f ctx r
    assume IH: "\<And>ctx r. f ctx = Some r \<Longrightarrow> wf_ctx ctx \<longrightarrow> wf_ctx (snd r) \<and> x_send (snd r) = x_send ctx"
      and b: "Option.bind (ngx_http_upstream_check_parse_fastcgi_status ctx)
        (\<lambda>(rc, ctx'). if rc = NGX_OK then f ctx' else Some (rc, ctx')) = Some r"
    from b obtain rc ctx1 where p: "ngx_http_upstream_check_parse_fastcgi_status ctx = Some (rc, ctx1)"
      and r: "(if rc = NGX_OK then f ctx1 else Some (rc, ctx1)) = Some r" by auto
    show "wf_ctx ctx \<longrightarrow> wf_ctx (snd r) \<and> x_send (snd r) = x_send ctx"
      using parse_fastcgi_status_keeps [OF _ p] r IH [of ctx1 r] by (auto split: if_splits)
  qed
  with assms show ?thesis by fastforce
qed

lemma fastcgi_parse_data_keeps:
  assumes "fastcgi_parse_data uc ctx = Some (rc, ctx')" "wf_ctx ctx"
  shows "wf_ctx ctx' \<and> x_send ctx' = x_send ctx"
proof -
  let ?ctx = "ctx\<lparr>x_recv := (x_recv ctx)\<lparr>b_last := b_pos (x_recv ctx) + x_length ctx\<rparr>,
      x_status := (x_status ctx)\<lparr>st_code := 0\<rparr>\<rparr>"
  have "wf_ctx ?ctx" if "b_pos (x_recv ctx) + x_length ctx < b_last (x_recv ctx)"
    using assms(2) that by (auto simp: wf_ctx_def wf_recv_def split: option.splits)
  moreover have "ctx' = ctx \<or> b_pos (x_recv ctx) + x_length ctx < b_last (x_recv ctx)
      \<and> (\<exists>rc. fastcgi_status_lines ?ctx = Some (rc, ctx'))"
  proof (cases "fastcgi_status_lines ?ctx")
    case None
    with assms(1) show ?thesis by (simp add: fastcgi_parse_data_def Let_def split: if_splits)
  next
    case (Some r)
    with assms(1) show ?thesis
      by (cases r) (simp add: fastcgi_parse_data_def Let_def split: if_splits)
  qed
  ultimately show ?thesis
    using fastcgi_status_lines_keeps [of ?ctx] assms(2) by fastforce
qed

lemma fastcgi_parse_header_keeps:
  assumes "fastcgi_parse_header ctx = (rc, ctx')" "wf_ctx ctx"
  shows "wf_ctx ctx' \<and> x_send ctx' = x_send ctx"
proof -
  have "b_pos (x_recv ctx) + length (recv_bytes ctx) = b_last (x_recv ctx)"
    using recv_bytes_length [OF assms(2)] assms(2) by (simp add: wf_ctx_def wf_recv_def)
  moreover obtain rc1 c1 where p: "ngx_http_upstream_check_fastcgi_process_record ctx = (rc1, c1)"
    by fastforce
  ultimately have "wf_ctx c1 \<and> x_send c1 = x_send ctx"
    using fr_loop_keeps [OF assms(2), of "b_pos (x_recv ctx)" "x_state ctx" "recv_bytes ctx" rc1 c1]
    by (simp add: ngx_http_upstream_check_fastcgi_process_record_def)
  moreover have "ctx' = c1 \<or> ctx' = ctx"
    using assms(1) by (auto simp: fastcgi_parse_header_def p split: if_splits)
  ultimately show ?thesis using assms(2) by blast
qed

lemma fastcgi_skip_padding_keeps:
  assumes "wf_ctx ctx" "fastcgi_skip_padding ctx = Inl ctx' \<or> fastcgi_skip_padding ctx = Inr ctx'"
  shows "wf_ctx ctx' \<and> x_send ctx' = x_send ctx"
  using assms by (auto simp: fastcgi_skip_padding_def wf_ctx_def Let_def intro!: wf_recv_pos
      dest: wf_recv_le split: if_splits)

lemma fastcgi_parse_loop_keeps:
  assumes "fastcgi_parse_loop uc ctx = Some (rc, ctx')" "wf_ctx ctx"
  shows "wf_ctx ctx' \<and> x_send ctx' = x_send ctx"
proof -
  have "wf_ctx ctx \<longrightarrow> wf_ctx (snd r) \<and> x_send (snd r) = x_send ctx"
    if "fastcgi_parse_loop uc ctx = Some r" for r
  proof (rule fastcgi_parse_loop.raw_induct [where P = "\<lambda>uc ctx r. wf_ctx ctx \<longrightarrow> wf_ctx (snd r)
      \<and> x_send (snd r) = x_send ctx", OF _ that], goal_cases)
    case (1 f uc ctx r)
    obtain rc1 c1 where h: "fastcgi_parse_header ctx = (rc1, c1)" by fastforce
    note k = fastcgi_parse_header_keeps [OF h]
    from 1(2) consider "snd r = c1"
      | c2 where "fastcgi_skip_padding c1 = Inl c2" "f uc c2 = Some r"
      | c2 where "fastcgi_skip_padding c1 = Inr c2" "snd r = c2"
      | "fastcgi_parse_data uc c1 = Some r"
      unfolding h by (auto split: if_splits sum.splits)
    then show ?case
    proof cases
      case 1
      then show ?thesis using k by simp
    next
      case (2 c2)
      then show ?thesis using 1(1) [OF 2(2)] k fastcgi_skip_padding_keeps [of c1 c2] by simp
    next
      case (3 c2)
      then show ?thesis using k fastcgi_skip_padding_keeps [of c1 c2] by simp
    next
      case 4
      then show ?thesis using k fastcgi_parse_data_keeps [of uc c1 "fst r" "snd r"] by simp
    qed
  qed
  with assms show ?thesis by fastforce
qed

lemma fastcgi_parse_keeps:
  "wf_ctx ctx \<Longrightarrow> ngx_http_upstream_check_fastcgi_parse uc ctx = Some (rc, ctx') \<Longrightarrow>
     wf_ctx ctx' \<and> x_send ctx' = x_send ctx"
  using fastcgi_parse_loop_keeps [of uc ctx rc ctx']
  by (auto simp: ngx_http_upstream_check_fastcgi_parse_def split: if_splits)

subsection \<open>The parser returns\<close>

lemma parse_fastcgi_status_advances:
  assumes "wf_ctx ctx" "ngx_http_upstream_check_parse_fastcgi_status ctx = Some (NGX_OK, ctx')"
  shows "\<exists>n > 0. n \<le> length (recv_bytes ctx) \<and> recv_bytes ctx' = drop n (recv_bytes ctx) \<and> x_mem ctx' = x_mem ctx"
proof -
  let ?blk = "case b_blk (x_recv ctx) of None \<Rightarrow> [] | Some k \<Rightarrow> x_mem ctx ! k"
  from assms(2) obtain pos s st where l:
    "fs_loop ?blk (b_pos (x_recv ctx)) \<lparr>f_state = fs_start, f_find = False, f_name_s = None,
       f_status = (x_status ctx)\<lparr>st_count := 0, st_code := 0\<rparr>\<rparr> (recv_bytes ctx) = Some (NGX_OK, pos, s, st)"
    and c: "ctx' = ctx\<lparr>x_status := st,
        x_recv := (case pos of None \<Rightarrow> x_recv ctx | Some p \<Rightarrow> (x_recv ctx)\<lparr>b_pos := p\<rparr>),
        x_state := (case s of None \<Rightarrow> x_state ctx | Some s \<Rightarrow> fs_num s)\<rparr>"
    by (auto simp: ngx_http_upstream_check_parse_fastcgi_status_def Let_def)
  from fs_loop_pos [OF l] obtain q where q: "pos = Some q" "b_pos (x_recv ctx) < q" "q \<le> b_pos (x_recv ctx) + length (recv_bytes ctx)"
    by (auto split: option.splits)
  let ?n = "q - b_pos (x_recv ctx)"
  from q have n: "0 < ?n" "?n \<le> length (recv_bytes ctx)" "b_pos (x_recv ctx) + ?n = q" by auto
  with recv_bytes_advance [OF assms(1) n(2)] show ?thesis
    by (intro exI [of _ ?n]) (simp add: c q(1))
qed

text \<open>A part of the bytes received on which a header line compares a name through a null pointer.\<close>

definition null_name_in :: "check_ctx_t \<Rightarrow> bool" where
  "null_name_in ctx \<longleftrightarrow> (\<exists>c xs ys. recv_bytes ctx = xs @ recv_bytes c @ ys \<and> x_mem c = x_mem ctx
     \<and> ngx_http_upstream_check_parse_fastcgi_status c = None)"

lemma null_name_in_part:
  assumes "null_name_in c" "recv_bytes ctx = xs @ recv_bytes c @ ys" "x_mem c = x_mem ctx"
  shows "null_name_in ctx"
proof -
  from assms(1) obtain d us vs where d: "recv_bytes c = us @ recv_bytes d @ vs" "x_mem d = x_mem c"
    "ngx_http_upstream_check_parse_fastcgi_status d = None" by (auto simp: null_name_in_def)
  with assms(2,3) have "recv_bytes ctx = (xs @ us) @ recv_bytes d @ (vs @ ys)" "x_mem d = x_mem ctx" by simp_all
  with d(3) show ?thesis unfolding null_name_in_def by blast
qed

lemma fastcgi_status_lines_returns:
  "wf_ctx ctx \<Longrightarrow> \<not> null_name_in ctx \<Longrightarrow> \<exists>rc ctx'. fastcgi_status_lines ctx = Some (rc, ctx')"
proof (induction "length (recv_bytes ctx)" arbitrary: ctx rule: less_induct)
  case less
  have "ngx_http_upstream_check_parse_fastcgi_status ctx \<noteq> None"
    using less.prems(2) append_Nil append_Nil2 unfolding null_name_in_def by metis
  then obtain rc c1 where p: "ngx_http_upstream_check_parse_fastcgi_status ctx = Some (rc, c1)" by auto
  show ?case
  proof (cases "rc = NGX_OK")
    case True
    from parse_fastcgi_status_advances [OF less.prems(1) p [unfolded True]] obtain n
      where n: "0 < n" "n \<le> length (recv_bytes ctx)" "recv_bytes c1 = drop n (recv_bytes ctx)" "x_mem c1 = x_mem ctx" by blast
    then have "\<not> null_name_in c1" using less.prems(2) null_name_in_part [of c1 ctx "take n (recv_bytes ctx)" "[]"] by auto
    moreover have "length (recv_bytes c1) < length (recv_bytes ctx)" using n(1-3) by simp
    ultimately obtain rc' c2 where "fastcgi_status_lines c1 = Some (rc', c2)"
      using less.hyps [of c1] parse_fastcgi_status_keeps [OF less.prems(1) p] by blast
    then show ?thesis by (subst fastcgi_status_lines.simps) (simp add: p True)
  next
    case False
    then show ?thesis by (subst fastcgi_status_lines.simps) (simp add: p)
  qed
qed

lemma fr_loop_advances:
  "fr_loop p s ctx bs = (NGX_OK, ctx') \<Longrightarrow>
     \<exists>n \<le> length bs. x_recv ctx' = (x_recv ctx)\<lparr>b_pos := p + n\<rparr> \<and> x_mem ctx' = x_mem ctx \<and> x_state ctx' = fc_data"
proof (induction bs arbitrary: p s ctx)
  case (Cons c bs)
  show ?case
  proof (cases "fr_step p s c ctx")
    case (Fr_Next s1 c1)
    then have k: "x_recv c1 = x_recv ctx \<and> x_send c1 = x_send ctx \<and> x_mem c1 = x_mem ctx"
      using fr_step_keeps [where p = p and s = s and c = c and ctx = ctx] by simp
    from Cons.IH [of "Suc p" s1 c1] Cons.prems Fr_Next obtain n where
      "n \<le> length bs" "x_recv ctx' = (x_recv c1)\<lparr>b_pos := Suc p + n\<rparr> \<and> x_mem ctx' = x_mem c1 \<and> x_state ctx' = fc_data" by auto
    with k show ?thesis by (intro exI [of _ "Suc n"]) simp
  next
    case (Fr_Ok c1)
    then have "ctx' = ctx\<lparr>x_recv := (x_recv ctx)\<lparr>b_pos := p + 1\<rparr>, x_state := fc_data\<rparr>"
      using fr_step_keeps [where p = p and s = s and c = c and ctx = ctx] Cons.prems by simp
    then show ?thesis by (intro exI [of _ 1]) simp
  qed (use Cons.prems in auto)
qed simp

lemma fastcgi_parse_header_advances:
  assumes "wf_ctx ctx" "fastcgi_parse_header ctx = (NGX_OK, c)" "x_state ctx \<noteq> fc_padding"
  shows "x_state c \<noteq> fc_padding \<and> x_mem c = x_mem ctx \<and> (\<exists>n. recv_bytes c = drop n (recv_bytes ctx))"
proof (cases "x_state ctx < fc_data")
  case True
  with assms(2) have "ngx_http_upstream_check_fastcgi_process_record ctx = (NGX_OK, c)
      \<or> fst (ngx_http_upstream_check_fastcgi_process_record ctx) \<notin> {NGX_OK, NGX_AGAIN, NGX_ERROR}"
    by (auto simp: fastcgi_parse_header_def split: prod.splits if_splits)
  moreover have "fst (fr_loop p s ctx bs) \<in> {NGX_OK, NGX_AGAIN, NGX_ERROR}" for p s ctx bs
    by (induction bs arbitrary: p s ctx) (auto split: fr_act.split)
  ultimately have "fr_loop (b_pos (x_recv ctx)) (x_state ctx) ctx (recv_bytes ctx) = (NGX_OK, c)"
    unfolding ngx_http_upstream_check_fastcgi_process_record_def by blast
  from fr_loop_advances [OF this] obtain n where n: "n \<le> length (recv_bytes ctx)"
    "x_recv c = (x_recv ctx)\<lparr>b_pos := b_pos (x_recv ctx) + n\<rparr>" "x_mem c = x_mem ctx" "x_state c = fc_data" by blast
  with recv_bytes_advance [OF assms(1) n(1)] show ?thesis by (auto simp: recv_bytes_def)
next
  case False
  with assms(2,3) show ?thesis by (auto simp: fastcgi_parse_header_def intro: exI [of _ 0])
qed

lemma fs_loop_no_colon: "CHR '':'' \<notin> set bs \<Longrightarrow> fs_loop blk p l bs \<noteq> None"
proof (induction bs arbitrary: p l)
  case (Cons ch bs)
  from Cons.prems have "fs_step blk p ch l \<noteq> Fs_Fault"
    by (auto simp: fs_step_def Let_def split: fs_state.splits)
  with Cons show ?case by (auto split: fs_act.splits)
qed simp



subsection \<open>Calling through the function pointers\<close>

fun packet_init :: "packet_init_pt \<Rightarrow> ngx_upstream_check_srv_conf_t \<Rightarrow> check_ctx_t \<Rightarrow> check_ctx_t" where
  "packet_init Init_Http = ngx_http_upstream_check_http_init"
| "packet_init Init_Ssl_Hello = ngx_http_upstream_check_ssl_hello_init"
| "packet_init Init_Mysql = ngx_http_upstream_check_mysql_init"
| "packet_init Init_Ajp = ngx_http_upstream_check_ajp_init"

fun packet_parse ::
  "packet_parse_pt \<Rightarrow> env \<Rightarrow> ngx_upstream_check_srv_conf_t \<Rightarrow> check_ctx_t
     \<Rightarrow> (ngx_rc \<times> check_ctx_t \<times> bool) option" where
  "packet_parse Parse_Http e uc ctx = ngx_http_upstream_check_http_parse e uc ctx"
| "packet_parse Parse_Fastcgi e uc ctx =
     map_option (\<lambda>(rc, ctx'). (rc, ctx', False)) (ngx_http_upstream_check_fastcgi_parse uc ctx)"
| "packet_parse Parse_Ssl_Hello e uc ctx = Some (ngx_http_upstream_check_ssl_hello_parse ctx, ctx, False)"
| "packet_parse Parse_Mysql e uc ctx = Some (ngx_http_upstream_check_mysql_parse ctx, ctx, False)"
| "packet_parse Parse_Ajp e uc ctx = Some (ngx_http_upstream_check_ajp_parse ctx, ctx, False)"

fun packet_reinit :: "packet_reinit_pt \<Rightarrow> check_ctx_t \<Rightarrow> check_ctx_t" where
  "packet_reinit Reinit_Http = ngx_http_upstream_check_http_reinit"
| "packet_reinit Reinit_Ssl_Hello = ngx_http_upstream_check_ssl_hello_reinit"
| "packet_reinit Reinit_Mysql = ngx_http_upstream_check_mysql_reinit"
| "packet_reinit Reinit_Ajp = ngx_http_upstream_check_ajp_reinit"

lemmas packet_init_defs =
  ngx_http_upstream_check_http_init_def ngx_http_upstream_check_ssl_hello_init_def
  ngx_http_upstream_check_mysql_init_def ngx_http_upstream_check_ajp_init_def

lemmas packet_reinit_defs =
  ngx_http_upstream_check_http_reinit_def ngx_http_upstream_check_ssl_hello_reinit_def
  ngx_http_upstream_check_mysql_reinit_def ngx_http_upstream_check_ajp_reinit_def

lemma packet_parse_keeps:
  "wf_ctx ctx \<Longrightarrow> packet_parse q e uc ctx = Some (rc, ctx', err) \<Longrightarrow> wf_ctx ctx' \<and> x_send ctx' = x_send ctx"
  by (cases q) (auto dest: http_parse_keeps fastcgi_parse_keeps)

text \<open>Every combination of the functions in the tables meets the contract.\<close>

interpretation pk: packet_functions "packet_init i" "packet_parse q" "packet_reinit r" for i q r
proof
  fix uc ctx
  show "ready_ctx (packet_init i uc ctx)" "wf_ctx (packet_init i uc ctx)"
    "s_bytes (x_send (packet_init i uc ctx)) = send_data uc"
    by (cases i; simp add: packet_init_defs ready_ctx_def wf_ctx_def wf_recv_def)+
next
  fix ctx
  show "ready_ctx (packet_reinit r ctx)" "s_bytes (x_send (packet_reinit r ctx)) = s_bytes (x_send ctx)"
    by (cases r; simp add: packet_reinit_defs ready_ctx_def)+
  show "wf_ctx (packet_reinit r ctx)" if "wf_ctx ctx"
    using that by (cases r) (auto simp: packet_reinit_defs wf_ctx_def wf_recv_def split: option.splits)
next
  fix e uc ctx rc ctx' err
  assume "wf_ctx ctx" "packet_parse q e uc ctx = Some (rc, ctx', err)"
  then show "wf_ctx ctx'" "x_send ctx' = x_send ctx" using packet_parse_keeps by auto
qed

end
