(* ===== verification/Ngx_Inet.thy ===== *)
theory Ngx_Inet
  imports Ngx_String
begin

text \<open>
  Addresses as text and as bytes: \<open>src/core/ngx_inet.c\<close>. A sockaddr is the bytes in memory on
  Linux: two of the family (little endian), then for AF_INET the port (big endian) and four address
  bytes, for AF_INET6 the port, four of flow information and sixteen address bytes, for AF_UNIX the
  path. An \<open>in_addr_t\<close> is kept in host order; \<open>be32\<close> gives its bytes in memory, so \<open>htonl\<close> and
  \<open>ntohl\<close> do not appear.
\<close>

subsection \<open>Bytes\<close>

definition be32 :: "32 word \<Rightarrow> string" where
  "be32 w = [u8 (unat (drop_bit 24 w)), u8 (unat (drop_bit 16 w)), u8 (unat (drop_bit 8 w)), u8 (unat w)]"

definition of_be32 :: "string \<Rightarrow> 32 word" where
  "of_be32 bs = foldl (\<lambda>w c. push_bit 8 w + of_nat (of_char c)) 0 (take 4 bs)"

definition be16 :: "16 word \<Rightarrow> string" where
  "be16 w = [u8 (unat (drop_bit 8 w)), u8 (unat w)]"

definition of_be16 :: "string \<Rightarrow> 16 word" where
  "of_be16 bs = foldl (\<lambda>w c. push_bit 8 w + of_nat (of_char c)) 0 (take 2 bs)"

abbreviation INADDR_NONE :: "32 word" where
  "INADDR_NONE \<equiv> 0xffffffff"

definition AF_INET :: string where "AF_INET = [CHR 0x02, NUL]"
definition AF_INET6 :: string where "AF_INET6 = [CHR 0x0A, NUL]"
definition AF_UNIX :: string where "AF_UNIX = [CHR 0x01, NUL]"

definition sa_family :: "string \<Rightarrow> string" where
  "sa_family sa = take 2 sa"

definition sin_addr :: "string \<Rightarrow> string" where
  "sin_addr sa = take 4 (drop 4 sa)"

definition sin6_addr :: "string \<Rightarrow> string" where
  "sin6_addr sa = take 16 (drop 8 sa)"

subsection \<open>Reading addresses\<close>

fun inet_addr_loop :: "string \<Rightarrow> 32 word \<Rightarrow> nat \<Rightarrow> nat \<Rightarrow> (32 word \<times> nat \<times> nat) option" where
  "inet_addr_loop [] addr octet n = Some (addr, octet, n)"
| "inet_addr_loop (c # cs) addr octet n =
     (if is_digit c then
        let octet = octet * 10 + digit_val c
        in if octet > 255 then None else inet_addr_loop cs addr octet n
      else if c = CHR ''.'' then inet_addr_loop cs (push_bit 8 addr + of_nat octet) 0 (Suc n)
      else None)"

definition ngx_inet_addr :: "string \<Rightarrow> 32 word" where
  "ngx_inet_addr text =
     (case inet_addr_loop text 0 0 0 of
        None \<Rightarrow> INADDR_NONE
      | Some (addr, octet, n) \<Rightarrow> if n = 3 then push_bit 8 addr + of_nat octet else INADDR_NONE)"

text \<open>\<open>ngx_inet6_addr\<close>: \<open>zero\<close> is the offset in the output where "::" stands, \<open>digit\<close> the text after
  the last colon, \<open>out\<close> the bytes written so far.\<close>

record inet6_st =
  i6_zero :: "nat option"
  i6_digit :: "string option"
  i6_nibbles :: nat
  i6_word :: nat
  i6_n :: nat
  i6_out :: string

definition i6_put :: "nat \<Rightarrow> inet6_st \<Rightarrow> inet6_st" where
  "i6_put w st = st\<lparr>i6_out := i6_out st @ [u8 (w div 256), u8 w]\<rparr>"

text \<open>The digit value of a hexadecimal character, after \<open>c |= 0x20\<close> for the letters.\<close>

definition hex_val :: "char \<Rightarrow> nat option" where
  "hex_val c =
     (if is_digit c then Some (digit_val c)
      else let l = (of_char c :: nat) OR 0x20
           in if 97 \<le> l \<and> l \<le> 102 then Some (l - 97 + 10) else None)"

fun inet6_loop :: "string \<Rightarrow> inet6_st \<Rightarrow> inet6_st option" where
  "inet6_loop [] st = Some st"
| "inet6_loop (c # cs) st =
     (if c = CHR '':'' then
        (if i6_nibbles st \<noteq> 0 then
           let st = i6_put (i6_word st) (st\<lparr>i6_digit := Some cs\<rparr>)
           in if i6_n st - 1 \<noteq> 0
              then inet6_loop cs (st\<lparr>i6_n := i6_n st - 1, i6_nibbles := 0, i6_word := 0\<rparr>)
              else None
         else if i6_zero st = None
         then inet6_loop cs (st\<lparr>i6_digit := Some cs, i6_zero := Some (length (i6_out st))\<rparr>)
         else None)
      else if c = CHR ''.'' \<and> i6_nibbles st \<noteq> 0 then
        (case i6_digit st of
           None \<Rightarrow> None
         | Some d \<Rightarrow>
             if i6_n st < 2 then None
             else
               let w = ngx_inet_addr d
               in if w = INADDR_NONE then None
                  else Some ((i6_put (unat (drop_bit 16 w)) st)\<lparr>i6_n := i6_n st - 1, i6_word := unat w\<rparr>))
      else if i6_nibbles st + 1 > 4 then None
      else (case hex_val c of
              None \<Rightarrow> None
            | Some v \<Rightarrow> inet6_loop cs (st\<lparr>i6_nibbles := i6_nibbles st + 1, i6_word := i6_word st * 16 + v\<rparr>)))"

definition inet6_end :: "inet6_st \<Rightarrow> string option" where
  "inet6_end st =
     (if i6_nibbles st = 0 \<and> i6_zero st = None then None
      else
        let st = i6_put (i6_word st) st;
            n = i6_n st - 1
        in (case i6_zero st of
              Some z \<Rightarrow>
                if n \<noteq> 0 then Some (take z (i6_out st) @ replicate (2 * n) NUL @ drop z (i6_out st)) else None
            | None \<Rightarrow> if n \<noteq> 0 then None else Some (i6_out st)))"

definition i6_start :: inet6_st where
  "i6_start = \<lparr>i6_zero = None, i6_digit = None, i6_nibbles = 0, i6_word = 0, i6_n = 8, i6_out = []\<rparr>"

definition ngx_inet6_addr :: "string \<Rightarrow> string option" where
  "ngx_inet6_addr p =
     (case p of
        [] \<Rightarrow> None
      | c # cs \<Rightarrow> Option.bind (inet6_loop (if c = CHR '':'' then cs else p) i6_start) inet6_end)"

subsection \<open>Writing addresses\<close>

text \<open>\<open>%xd\<close>: lower-case hexadecimal without padding.\<close>

definition hex_chr :: "nat \<Rightarrow> char" where
  "hex_chr d = (if d < 10 then char_of (d + 48) else char_of (d + 87))"

fun ngx_sprintf_hex :: "nat \<Rightarrow> string" where
  "ngx_sprintf_hex n =
     (if n < 16 then [hex_chr n] else ngx_sprintf_hex (n div 16) @ [hex_chr (n mod 16)])"

declare ngx_sprintf_hex.simps [simp del]

text \<open>\<open>%ud.%ud.%ud.%ud\<close> of four bytes.\<close>

definition dotted :: "string \<Rightarrow> string" where
  "dotted p =
     ngx_sprintf_num (of_char (p ! 0)) @ ''.'' @ ngx_sprintf_num (of_char (p ! 1)) @ ''.''
     @ ngx_sprintf_num (of_char (p ! 2)) @ ''.'' @ ngx_sprintf_num (of_char (p ! 3))"

text \<open>The search for the longest run of zero groups: \<open>zero\<close> (\<open>None\<close> is \<open>(ngx_uint_t) -1\<close>), \<open>last\<close>,
  \<open>max\<close> and \<open>n\<close>, over the groups from byte \<open>i\<close> on.\<close>

fun i6_runs :: "nat \<Rightarrow> string \<Rightarrow> nat option \<Rightarrow> nat option \<Rightarrow> nat \<Rightarrow> nat \<Rightarrow> nat option \<times> nat" where
  "i6_runs i (a # b # r) zero lst mx n =
     (if a \<noteq> NUL \<or> b \<noteq> NUL then
        (if mx < n then i6_runs (i + 2) r lst lst n 0 else i6_runs (i + 2) r zero lst mx 0)
      else i6_runs (i + 2) r zero (if n = 0 then Some i else lst) mx (n + 1))"
| "i6_runs i _ zero lst mx n = (if mx < n then (lst, n) else (zero, mx))"

function i6_groups :: "string \<Rightarrow> nat option \<Rightarrow> nat \<Rightarrow> nat \<Rightarrow> nat \<Rightarrow> string" where
  "i6_groups p zero mx n i =
     (if i < n then
        (if zero = Some i then CHR '':'' # i6_groups p zero mx n (i + (mx - 1) * 2 + 2)
         else ngx_sprintf_hex (of_char (p ! i) * 256 + of_char (p ! (i + 1)))
              @ (if i < 14 then '':'' else []) @ i6_groups p zero mx n (i + 2))
      else [])"
  by pat_completeness auto
termination
  by (relation "measure (\<lambda>(p, zero, mx, n, i). n - i)") auto

declare i6_groups.simps [simp del]

definition ngx_inet6_ntop :: "string \<Rightarrow> nat \<Rightarrow> string" where
  "ngx_inet6_ntop p len =
     (if len < 45 then []
      else
        let (zero, mx) = i6_runs 0 (take 16 p) None None 1 0;
            n = (if zero = Some 0
                    \<and> (mx = 5 \<and> p ! 10 = CHR 0xFF \<and> p ! 11 = CHR 0xFF \<or> mx = 6
                       \<or> mx = 7 \<and> p ! 14 \<noteq> NUL \<and> p ! 15 \<noteq> CHR 0x01)
                 then 12 else 16)
        in (if zero = Some 0 then '':'' else []) @ i6_groups p zero mx n 0
           @ (if n = 12 then dotted (drop 12 p) else []))"

definition ngx_inet_ntop :: "string \<Rightarrow> string \<Rightarrow> nat \<Rightarrow> string" where
  "ngx_inet_ntop family addr len =
     (if family = AF_INET then take len (dotted addr)
      else if family = AF_INET6 then ngx_inet6_ntop addr len
      else [])"

text \<open>\<open>ntohs\<close> of the port; \<open>ngx_strnlen\<close> of the path.\<close>

definition sin_port :: "string \<Rightarrow> 16 word" where
  "sin_port sa = of_be16 (drop 2 sa)"

definition ngx_sock_ntop :: "string \<Rightarrow> nat \<Rightarrow> bool \<Rightarrow> string" where
  "ngx_sock_ntop sa len port =
     (if sa_family sa = AF_INET then
        take len (dotted (sin_addr sa) @ (if port then '':'' @ ngx_sprintf_num (unat (sin_port sa)) else []))
      else if sa_family sa = AF_INET6 then
        (if port
         then ''['' @ ngx_inet6_ntop (sin6_addr sa) len @ '']:'' @ ngx_sprintf_num (unat (sin_port sa))
         else ngx_inet6_ntop (sin6_addr sa) len)
      else if sa_family sa = AF_UNIX then
        butlast (take len (''unix:'' @ takeWhile (\<lambda>c. c \<noteq> NUL) (drop 2 sa) @ [NUL]))
      else [])"

subsection \<open>Ports\<close>

definition ngx_inet_get_port :: "string \<Rightarrow> 16 word" where
  "ngx_inet_get_port sa = (if sa_family sa = AF_UNIX then 0 else sin_port sa)"

definition ngx_inet_set_port :: "string \<Rightarrow> 16 word \<Rightarrow> string" where
  "ngx_inet_set_port sa port = (if sa_family sa = AF_UNIX then sa else take 2 sa @ be16 port @ drop 4 sa)"

definition ngx_inet_wildcard :: "string \<Rightarrow> bool" where
  "ngx_inet_wildcard sa \<longleftrightarrow>
     (if sa_family sa = AF_INET then sin_addr sa = replicate 4 NUL
      else if sa_family sa = AF_INET6 then sin6_addr sa = replicate 16 NUL
      else False)"

text \<open>\<open>ngx_cmp_sockaddr\<close>; a sockaddr's \<open>socklen\<close> is the length of its byte list. \<open>sun_path\<close> has 108
  bytes.\<close>

definition ngx_cmp_sockaddr :: "string \<Rightarrow> string \<Rightarrow> bool \<Rightarrow> ngx_rc" where
  "ngx_cmp_sockaddr sa1 sa2 cmp_port =
     (if sa_family sa1 \<noteq> sa_family sa2 then NGX_DECLINED
      else if sa_family sa1 = AF_INET6 then
        (if cmp_port \<and> take 2 (drop 2 sa1) \<noteq> take 2 (drop 2 sa2) then NGX_DECLINED
         else if sin6_addr sa1 \<noteq> sin6_addr sa2 then NGX_DECLINED
         else NGX_OK)
      else if sa_family sa1 = AF_UNIX then
        (let len = min (min (length sa1) (length sa2) - 2) 108
         in if take len (drop 2 sa1) \<noteq> take len (drop 2 sa2) then NGX_DECLINED else NGX_OK)
      else
        (if cmp_port \<and> take 2 (drop 2 sa1) \<noteq> take 2 (drop 2 sa2) then NGX_DECLINED
         else if sin_addr sa1 \<noteq> sin_addr sa2 then NGX_DECLINED
         else NGX_OK))"

subsection \<open>Parsing addresses\<close>

text \<open>The structures \<open>ngx_pcalloc\<close> and the assignments make: \<open>sockaddr_in\<close> with eight bytes of padding,
  \<open>sockaddr_in6\<close> with no flow information and scope.\<close>

definition sockaddr_in :: "16 word \<Rightarrow> string \<Rightarrow> string" where
  "sockaddr_in port addr = AF_INET @ be16 port @ addr @ replicate 8 NUL"

definition sockaddr_in6 :: "16 word \<Rightarrow> string \<Rightarrow> string" where
  "sockaddr_in6 port addr = AF_INET6 @ be16 port @ replicate 4 NUL @ addr @ replicate 4 NUL"

text \<open>\<open>pcalloc\<close> tells whether the pool can allocate; the second result is \<open>addr->sockaddr\<close>.\<close>

definition ngx_parse_addr :: "bool \<Rightarrow> string \<Rightarrow> ngx_rc \<times> string option" where
  "ngx_parse_addr pcalloc text =
     (let inaddr = ngx_inet_addr text
      in if inaddr \<noteq> INADDR_NONE then
           (if \<not> pcalloc then (NGX_ERROR, None) else (NGX_OK, Some (sockaddr_in 0 (be32 inaddr))))
         else (case ngx_inet6_addr text of
                 Some inaddr6 \<Rightarrow>
                   if \<not> pcalloc then (NGX_ERROR, None) else (NGX_OK, Some (sockaddr_in6 0 inaddr6))
               | None \<Rightarrow> (NGX_DECLINED, None)))"

text \<open>The position of the port in the text, and the address before it.\<close>

definition addr_port_split :: "string \<Rightarrow> (nat \<times> string) option" where
  "addr_port_split text =
     (if text \<noteq> [] \<and> text ! 0 = CHR ''['' then
        (case ngx_strlchr text (CHR '']'') of
           None \<Rightarrow> None
         | Some p \<Rightarrow>
             if p = length text - 1 \<or> text ! (p + 1) \<noteq> CHR '':'' then None
             else Some (p + 2, take (p - 1) (tl text)))
      else (case ngx_strlchr text (CHR '':'') of
              None \<Rightarrow> None
            | Some p \<Rightarrow> Some (p + 1, take p text)))"

definition ngx_parse_addr_port :: "bool \<Rightarrow> string \<Rightarrow> ngx_rc \<times> string option" where
  "ngx_parse_addr_port pcalloc text =
     (let (rc, sa) = ngx_parse_addr pcalloc text
      in if rc \<noteq> NGX_DECLINED then (rc, sa)
         else (case addr_port_split text of
                 None \<Rightarrow> (NGX_DECLINED, None)
               | Some (p, host) \<Rightarrow>
                   let port = ngx_atoi (drop p text) (length text - p)
                   in if port < 1 \<or> port > 65535 then (NGX_DECLINED, None)
                      else (case ngx_parse_addr pcalloc host of
                              (NGX_OK, Some sa) \<Rightarrow> (NGX_OK, Some (ngx_inet_set_port sa (word_of_int port)))
                            | r \<Rightarrow> r)))"

subsection \<open>IPv4 text\<close>

lemma foldl_dec_mono: "list_all is_digit ds \<Longrightarrow> (x::nat) \<le> foldl (\<lambda>v c. v * 10 + digit_val c) x ds"
proof (induction ds arbitrary: x)
  case (Cons d ds)
  then have "x * 10 + digit_val d \<le> foldl (\<lambda>v c. v * 10 + digit_val c) (x * 10 + digit_val d) ds" by simp
  then show ?case by simp
qed simp

lemma inet_addr_loop_digits:
  assumes "list_all is_digit ds" "foldl (\<lambda>v c. v * 10 + digit_val c) octet ds \<le> 255"
  shows "inet_addr_loop (ds @ cs) addr octet n
    = inet_addr_loop cs addr (foldl (\<lambda>v c. v * 10 + digit_val c) octet ds) n"
  using assms
proof (induction ds arbitrary: octet)
  case (Cons d ds)
  then have "octet * 10 + digit_val d \<le> 255"
    using foldl_dec_mono [of ds "octet * 10 + digit_val d"] by simp
  with Cons show ?case by (simp add: Let_def)
qed simp

lemma foldl_sprintf_num: "foldl (\<lambda>v c. v * 10 + digit_val c) 0 (ngx_sprintf_num a) = a"
proof (induction a rule: ngx_sprintf_num.induct)
  case (1 a)
  then show ?case
    by (subst ngx_sprintf_num.simps) (auto simp: digit_chr_digit)
qed

lemma inet_addr_loop_num:
  assumes "a \<le> 255"
  shows "inet_addr_loop (ngx_sprintf_num a @ cs) addr 0 n = inet_addr_loop cs addr a n"
  using inet_addr_loop_digits [of "ngx_sprintf_num a" 0] ngx_sprintf_num_digits [of a] assms
  by (simp add: foldl_sprintf_num)

lemma of_char_le_255: "(of_char c :: nat) \<le> 255"
proof -
  have "(of_char c :: nat) mod 256 < 256" by simp
  then have "(of_char c :: nat) < 256" by (simp only: of_char_mod_256)
  then show ?thesis by linarith
qed

lemma ngx_inet_addr_dotted:
  assumes "length p = 4"
  shows "ngx_inet_addr (dotted p) = of_be32 p"
proof -
  from assms obtain a b c d where p: "p = [a, b, c, d]" by (auto simp: numeral_eq_Suc length_Suc_conv)
  have 1: "inet_addr_loop (ngx_sprintf_num (of_char c)) addr 0 n = Some (addr, of_char c, n)" for c addr n
    using inet_addr_loop_num [of "of_char c" "[]"] by (simp add: of_char_le_255)
  have 2: "inet_addr_loop (ngx_sprintf_num (of_char c) @ CHR ''.'' # cs) addr 0 n
      = inet_addr_loop cs (push_bit 8 addr + of_nat (of_char c)) 0 (Suc n)" for c cs addr n
    using inet_addr_loop_num [of "of_char c"] by (simp add: of_char_le_255)
  show ?thesis by (simp add: ngx_inet_addr_def dotted_def of_be32_def p 1 2)
qed


lemma base256:
  assumes "(d::nat) < 256"
  shows "(x * 256 + d) div 256 = x" "(x * 256 + d) mod 256 = d"
  using assms by simp_all

lemma bytes_bound:
  "a < 256 \<Longrightarrow> b < 256 \<Longrightarrow> c < 256 \<Longrightarrow> d < 256 \<Longrightarrow> ((a * 256 + b) * 256 + c) * 256 + d < (4294967296::nat)"
  by simp

lemma be32_bytes: "be32 w = [u8 (unat w div 16777216), u8 (unat w div 65536), u8 (unat w div 256), u8 (unat w)]"
  unfolding be32_def unat_drop_bit_eq by (simp add: drop_bit_eq_div)

lemma be32_of_be32:
  assumes "length p = 4"
  shows "be32 (of_be32 p) = p"
    and "unat (of_be32 p) div 65536 div 256 mod 256 = of_char (p ! 0)"
    and "unat (of_be32 p) div 65536 mod 256 = of_char (p ! 1)"
    and "unat (of_be32 p) div 256 mod 256 = of_char (p ! 2)"
    and "unat (of_be32 p) mod 256 = of_char (p ! 3)"
proof -
  from assms obtain a b c d where p: "p = [a, b, c, d]" by (auto simp: numeral_eq_Suc length_Suc_conv)
  let ?a = "of_char a :: nat" and ?b = "of_char b :: nat" and ?c = "of_char c :: nat" and ?d = "of_char d :: nat"
  let ?v = "((?a * 256 + ?b) * 256 + ?c) * 256 + ?d"
  have lt: "(of_char x :: nat) < 256" for x using of_char_le_255 [of x] by linarith
  have v: "?v < 4294967296" by (rule bytes_bound [OF lt lt lt lt])
  have "of_be32 p = of_nat ?v" by (simp add: of_be32_def p push_bit_eq_mult)
  moreover have "unat (of_nat ?v :: 32 word) = ?v" using v by (simp only: unat_of_nat) simp
  ultimately have u: "unat (of_be32 p) = ?v" by simp
  have d8: "?v div 256 = (?a * 256 + ?b) * 256 + ?c" by (rule base256(1) [OF lt])
  have d16: "?v div 65536 = ?a * 256 + ?b"
  proof -
    have "?v div 65536 = ?v div 256 div 256" by (simp only: div_mult2_eq [symmetric]) simp
    also have "\<dots> = ?a * 256 + ?b" unfolding d8 by (rule base256(1) [OF lt])
    finally show ?thesis .
  qed
  have d24: "?v div 16777216 = ?a"
  proof -
    have "?v div 16777216 = ?v div 65536 div 256" by (simp only: div_mult2_eq [symmetric]) simp
    also have "\<dots> = ?a" unfolding d16 by (rule base256(1) [OF lt])
    finally show ?thesis .
  qed
  have a: "?a mod 256 = ?a" by simp
  show "unat (of_be32 p) div 65536 div 256 mod 256 = of_char (p ! 0)"
    unfolding u d16 base256(1) [OF lt] by (simp add: p)
  show "unat (of_be32 p) div 65536 mod 256 = of_char (p ! 1)"
    unfolding u d16 base256(2) [OF lt] by (simp add: p)
  show "unat (of_be32 p) div 256 mod 256 = of_char (p ! 2)"
    unfolding u d8 base256(2) [OF lt] by (simp add: p)
  show "unat (of_be32 p) mod 256 = of_char (p ! 3)"
    unfolding u base256(2) [OF lt] by (simp add: p)
  have "be32 (of_be32 p) = [u8 (?v div 16777216), u8 (?v div 65536), u8 (?v div 256), u8 ?v]"
    unfolding be32_bytes u ..
  also have "\<dots> = p" unfolding d24 d16 d8 u8_def base256(2) [OF lt] a by (simp add: p)
  finally show "be32 (of_be32 p) = p" .
qed


subsection \<open>IPv6 text\<close>

text \<open>The digits of a rendering, as numbers.\<close>

fun digits :: "nat \<Rightarrow> nat \<Rightarrow> nat list" where
  "digits b n = (if n < b \<or> b < 2 then [n] else digits b (n div b) @ [n mod b])"

declare digits.simps [simp del]

lemma ngx_sprintf_hex_digits: "ngx_sprintf_hex n = map hex_chr (digits 16 n)"
proof (induction n rule: ngx_sprintf_hex.induct)
  case (1 n)
  then show ?case by (subst ngx_sprintf_hex.simps, subst digits.simps) auto
qed

lemma ngx_sprintf_num_hex: "ngx_sprintf_num n = map hex_chr (digits 10 n)"
proof (induction n rule: ngx_sprintf_num.induct)
  case (1 n)
  then show ?case by (subst ngx_sprintf_num.simps, subst digits.simps) (auto simp: digit_chr_def hex_chr_def)
qed

lemma digits_bound: "2 \<le> b \<Longrightarrow> list_all (\<lambda>d. d < b) (digits b n)"
proof (induction b n rule: digits.induct)
  case (1 b n)
  then show ?case by (subst digits.simps) auto
qed

lemma digits_nonempty [simp]: "digits b n \<noteq> []"
  by (subst digits.simps) simp

lemma foldl_digits: "2 \<le> b \<Longrightarrow> foldl (\<lambda>w d. w * b + d) 0 (digits b n) = n"
proof (induction b n rule: digits.induct)
  case (1 b n)
  then show ?case by (subst digits.simps) auto
qed

lemma length_digits: "2 \<le> b \<Longrightarrow> n < b ^ Suc k \<Longrightarrow> length (digits b n) \<le> Suc k"
proof (induction k arbitrary: n)
  case 0
  then show ?case by (subst digits.simps) simp
next
  case (Suc k)
  have "n div b < b ^ Suc k" using Suc.prems by (simp add: less_mult_imp_div_less mult.commute)
  with Suc show ?case by (subst digits.simps) simp
qed

lemma of_char_hex_chr: "d < 16 \<Longrightarrow> (of_char (hex_chr d) :: nat) = (if d < 10 then d + 48 else d + 87)"
  by (simp add: hex_chr_def)

lemma hex_val_chr:
  assumes "d < 16"
  shows "hex_val (hex_chr d) = Some d" "hex_chr d \<noteq> CHR '':''" "hex_chr d \<noteq> CHR ''.''"
proof -
  note c = of_char_hex_chr [OF assms]
  show "hex_val (hex_chr d) = Some d"
  proof (cases "d < 10")
    case True
    with c show ?thesis by (simp add: hex_val_def is_digit_iff digit_val_def)
  next
    case False
    with assms have "d = 10 \<or> d = 11 \<or> d = 12 \<or> d = 13 \<or> d = 14 \<or> d = 15" by arith
    then show ?thesis by (elim disjE) (simp_all add: hex_val_def is_digit_iff c [simplified] of_char_hex_chr)
  qed
  show "hex_chr d \<noteq> CHR '':''" "hex_chr d \<noteq> CHR ''.''"
    using c assms by (auto dest!: arg_cong [where f = "of_char :: char \<Rightarrow> nat"] split: if_splits)
qed

lemma inet6_loop_hex:
  assumes "list_all (\<lambda>d. d < 16) ds" "i6_nibbles st + length ds \<le> 4"
  shows "inet6_loop (map hex_chr ds @ cs) st
    = inet6_loop cs (st\<lparr>i6_nibbles := i6_nibbles st + length ds, i6_word := foldl (\<lambda>w d. w * 16 + d) (i6_word st) ds\<rparr>)"
  using assms
proof (induction ds arbitrary: st)
  case (Cons d ds)
  from Cons.prems(1) have d: "d < 16" and ds: "list_all (\<lambda>d. d < 16) ds" by simp_all
  show ?case
    using Cons.IH [OF ds, of "st\<lparr>i6_nibbles := i6_nibbles st + 1, i6_word := i6_word st * 16 + d\<rparr>"] Cons.prems(2)
    by (simp add: hex_val_chr [OF d])
qed simp


lemma inet6_loop_group:
  assumes "g < 65536" "i6_nibbles st = 0" "i6_word st = 0"
  shows "\<exists>k. 0 < k \<and> inet6_loop (ngx_sprintf_hex g @ cs) st = inet6_loop cs (st\<lparr>i6_nibbles := k, i6_word := g\<rparr>)"
proof -
  have len: "length (digits 16 g) \<le> Suc 3" using assms(1) by (intro length_digits) simp_all
  show ?thesis
    using inet6_loop_hex [OF digits_bound [of 16 g], of st cs] len assms(2,3)
    by (intro exI [where x = "length (digits 16 g)"]) (simp add: ngx_sprintf_hex_digits foldl_digits)
qed

text \<open>A group followed by a colon.\<close>

lemma inet6_loop_group_colon:
  assumes "g < 65536" "i6_nibbles st = 0" "i6_word st = 0" "2 \<le> i6_n st"
  shows "inet6_loop (ngx_sprintf_hex g @ CHR '':'' # cs) st
    = inet6_loop cs (st\<lparr>i6_digit := Some cs, i6_n := i6_n st - 1, i6_out := i6_out st @ [u8 (g div 256), u8 g]\<rparr>)"
proof -
  from inet6_loop_group [OF assms(1-3)] obtain k where k: "0 < k"
    "inet6_loop (ngx_sprintf_hex g @ CHR '':'' # cs) st
      = inet6_loop (CHR '':'' # cs) (st\<lparr>i6_nibbles := k, i6_word := g\<rparr>)" by blast
  show ?thesis using k assms(2-4) by (cases st) (simp add: i6_put_def Let_def)
qed

text \<open>What \<open>inet6_end\<close> makes of the bytes and the number of groups still missing.\<close>

definition i6_finish :: "nat option \<Rightarrow> nat \<Rightarrow> string \<Rightarrow> string option" where
  "i6_finish zero n out =
     (case zero of
        Some z \<Rightarrow> if n \<noteq> 0 then Some (take z out @ replicate (2 * n) NUL @ drop z out) else None
      | None \<Rightarrow> if n \<noteq> 0 then None else Some out)"

lemma inet6_end_finish:
  "i6_nibbles st \<noteq> 0 \<or> i6_zero st \<noteq> None \<Longrightarrow>
     inet6_end st = i6_finish (i6_zero st) (i6_n st - 1) (i6_out st @ [u8 (i6_word st div 256), u8 (i6_word st)])"
  by (auto simp: inet6_end_def i6_finish_def i6_put_def Let_def split: option.split)

definition grp :: "string \<Rightarrow> nat \<Rightarrow> nat" where
  "grp p i = of_char (p ! i) * 256 + of_char (p ! (i + 1))"

lemma grp_bound: "grp p i < 65536"
  using of_char_le_255 [of "p ! i"] of_char_le_255 [of "p ! (i + 1)"] unfolding grp_def by linarith

lemma grp_bytes: "u8 (grp p i div 256) = p ! i" "u8 (grp p i) = p ! (i + 1)"
proof -
  have lt: "(of_char x :: nat) < 256" for x using of_char_le_255 [of x] by linarith
  show "u8 (grp p i div 256) = p ! i" unfolding grp_def base256(1) [OF lt] by simp
  show "u8 (grp p i) = p ! (i + 1)" unfolding grp_def u8_def base256(2) [OF lt] by simp
qed

lemma u8_0: "u8 0 = NUL"
  by code_simp

lemma drop_two: "Suc i < length p \<Longrightarrow> drop i p = p ! i # p ! (i + 1) # drop (i + 2) p"
  by (simp add: Cons_nth_drop_Suc)

lemma inet6_groups_tail:
  assumes "length p = 16" "even i" "i \<le> 14" "\<forall>j \<ge> i. zero \<noteq> Some j"
    and "i6_nibbles st = 0" "i6_word st = 0" "(16 - i) div 2 \<le> i6_n st"
  shows "Option.bind (inet6_loop (i6_groups p zero mx 16 i) st) inet6_end
    = i6_finish (i6_zero st) (i6_n st - (16 - i) div 2) (i6_out st @ drop i p)"
  using assms
proof (induction "14 - i" arbitrary: i st rule: less_induct)
  case less
  have hex: "ngx_sprintf_hex (of_char (p ! i) * 256 + of_char (p ! (i + 1))) = ngx_sprintf_hex (grp p i)"
    by (simp add: grp_def)
  have dr: "drop i p = p ! i # p ! (i + 1) # drop (i + 2) p"
    using less.prems by (intro drop_two) simp
  have z: "zero \<noteq> Some i" using less.prems(4) by blast
  show ?case
  proof (cases "i = 14")
    case True
    have g: "i6_groups p zero mx 16 i = ngx_sprintf_hex (grp p i) @ []"
      using True z by (simp add: i6_groups.simps [of p zero mx 16 14] i6_groups.simps [of p zero mx 16 16] grp_def)
    from inet6_loop_group [OF grp_bound less.prems(5,6)] obtain k where k: "0 < k"
      "inet6_loop (i6_groups p zero mx 16 i) st = Some (st\<lparr>i6_nibbles := k, i6_word := grp p i\<rparr>)"
      unfolding g by (metis inet6_loop.simps(1))
    then show ?thesis
      using True dr less.prems(1) grp_bytes [of p i] by (simp add: inet6_end_finish)
  next
    case False
    with less.prems have i: "i + 2 \<le> 14" by presburger
    have g: "i6_groups p zero mx 16 i = ngx_sprintf_hex (grp p i) @ CHR '':'' # i6_groups p zero mx 16 (i + 2)"
      using i z by (simp add: i6_groups.simps [of p zero mx 16 i] grp_def)
    have n: "2 \<le> i6_n st" "(16 - (i + 2)) div 2 \<le> i6_n st - 1" "i6_n st - 1 - (16 - (i + 2)) div 2 = i6_n st - (16 - i) div 2"
      using i less.prems(2,7) by presburger+
    let ?st = "st\<lparr>i6_digit := Some (i6_groups p zero mx 16 (i + 2)), i6_n := i6_n st - 1,
      i6_out := i6_out st @ [p ! i, p ! (i + 1)]\<rparr>"
    have m: "14 - (i + 2) < 14 - i" using i by linarith
    have "Option.bind (inet6_loop (i6_groups p zero mx 16 (i + 2)) ?st) inet6_end
        = i6_finish (i6_zero ?st) (i6_n ?st - (16 - (i + 2)) div 2) (i6_out ?st @ drop (i + 2) p)"
      by (rule less.hyps [OF m]) (use less.prems i n(2) in simp_all)
    then show ?thesis
      unfolding g inet6_loop_group_colon [OF grp_bound less.prems(5,6) n(1)] grp_bytes dr
      using n(3) by simp
  qed
qed


text \<open>The groups before "::".\<close>

lemma inet6_groups_pre:
  assumes "length p = 16" "even i" "even z" "i \<le> z" "z \<le> 14" "i6_nibbles st = 0" "i6_word st = 0" "i6_zero st = None"
    and "(z - i) div 2 + 2 \<le> i6_n st"
  shows "\<exists>st'. inet6_loop (i6_groups p (Some z) mx 16 i) st = inet6_loop (i6_groups p (Some z) mx 16 (z + (mx - 1) * 2 + 2)) st'
    \<and> i6_nibbles st' = 0 \<and> i6_word st' = 0 \<and> i6_zero st' = Some (length (i6_out st) + (z - i))
    \<and> i6_n st' = i6_n st - (z - i) div 2
    \<and> i6_out st' = i6_out st @ take (z - i) (drop i p)
    \<and> i6_digit st' = Some (i6_groups p (Some z) mx 16 (z + (mx - 1) * 2 + 2))"
  using assms
proof (induction "z - i" arbitrary: i st rule: less_induct)
  case less
  show ?case
  proof (cases "i = z")
    case True
    have "i6_groups p (Some z) mx 16 i = CHR '':'' # i6_groups p (Some z) mx 16 (z + (mx - 1) * 2 + 2)"
      using True less.prems(5) by (simp add: i6_groups.simps [of p "Some z" mx 16 z])
    with True less.prems show ?thesis
      by (intro exI [where x = "st\<lparr>i6_digit := Some (i6_groups p (Some z) mx 16 (z + (mx - 1) * 2 + 2)),
        i6_zero := Some (length (i6_out st))\<rparr>"]) simp
  next
    case False
    with less.prems have i: "i + 2 \<le> z" by presburger
    let ?st = "st\<lparr>i6_digit := Some (i6_groups p (Some z) mx 16 (i + 2)), i6_n := i6_n st - 1,
      i6_out := i6_out st @ [p ! i, p ! (i + 1)]\<rparr>"
    have g: "i6_groups p (Some z) mx 16 i = ngx_sprintf_hex (grp p i) @ CHR '':'' # i6_groups p (Some z) mx 16 (i + 2)"
      using i less.prems(5) by (simp add: i6_groups.simps [of p "Some z" mx 16 i] grp_def)
    have n: "2 \<le> i6_n st" using less.prems by linarith
    have k: "(z - i) div 2 = Suc ((z - (i + 2)) div 2)" using i by presburger
    have m: "z - (i + 2) < z - i" using i by linarith
    have "\<exists>st'. inet6_loop (i6_groups p (Some z) mx 16 (i + 2)) ?st = inet6_loop (i6_groups p (Some z) mx 16 (z + (mx - 1) * 2 + 2)) st'
    \<and> i6_nibbles st' = 0 \<and> i6_word st' = 0 \<and> i6_zero st' = Some (length (i6_out ?st) + (z - (i + 2)))
    \<and> i6_n st' = i6_n ?st - (z - (i + 2)) div 2
    \<and> i6_out st' = i6_out ?st @ take (z - (i + 2)) (drop (i + 2) p)
    \<and> i6_digit st' = Some (i6_groups p (Some z) mx 16 (z + (mx - 1) * 2 + 2))"
      by (rule less.hyps [OF m]) (use less.prems i k in simp_all)
    moreover have "take (z - i) (drop i p) = p ! i # p ! (i + 1) # take (z - (i + 2)) (drop (i + 2) p)"
      using drop_two [of i p] i less.prems(1,5) by (simp add: take_Cons' numeral_eq_Suc)
    moreover have "Suc (Suc (length (i6_out st) + (z - Suc (Suc i)))) = length (i6_out st) + (z - i)" using i by linarith
    ultimately show ?thesis
      unfolding g inet6_loop_group_colon [OF grp_bound less.prems(6,7) n] grp_bytes k
      using i by simp
  qed
qed


text \<open>A run of at least two zero groups.\<close>

definition zero_run :: "string \<Rightarrow> nat \<Rightarrow> nat \<Rightarrow> bool" where
  "zero_run p z m \<longleftrightarrow> even z \<and> 2 \<le> m \<and> z + 2 * m \<le> 16 \<and> (\<forall>j. z \<le> j \<and> j < z + 2 * m \<longrightarrow> p ! j = NUL)"

definition zero_ok :: "string \<Rightarrow> nat option \<Rightarrow> nat \<Rightarrow> bool" where
  "zero_ok p zero m \<longleftrightarrow> 1 \<le> m \<and> (\<forall>z. zero = Some z \<longrightarrow> zero_run p z m)"

definition run_so_far :: "string \<Rightarrow> nat \<Rightarrow> nat option \<Rightarrow> nat \<Rightarrow> bool" where
  "run_so_far p i lst n \<longleftrightarrow>
     n = 0 \<or> lst = Some (i - 2 * n) \<and> 2 * n \<le> i \<and> (\<forall>j. i - 2 * n \<le> j \<and> j < i \<longrightarrow> p ! j = NUL)"

lemma run_so_far_ok:
  assumes "run_so_far p i lst n" "even i" "i \<le> 16" "m < n" "1 \<le> m"
  shows "zero_ok p lst n"
proof -
  from assms have r: "lst = Some (i - 2 * n)" "2 * n \<le> i" "\<forall>j. i - 2 * n \<le> j \<and> j < i \<longrightarrow> p ! j = NUL"
    by (simp_all add: run_so_far_def)
  have "i - 2 * n + 2 * n = i" using r(2) by linarith
  with r assms(2-5) show ?thesis by (simp add: zero_ok_def zero_run_def)
qed

lemma run_so_far_step:
  assumes "run_so_far p i lst n" "p ! i = NUL" "p ! (i + 1) = NUL"
  shows "run_so_far p (i + 2) (if n = 0 then Some i else lst) (n + 1)"
proof -
  have near: "p ! j = NUL" if "i \<le> j" "j < i + 2" for j
  proof -
    from that have "j = i \<or> j = i + 1" by linarith
    with assms(2,3) show ?thesis by blast
  qed
  show ?thesis
  proof (cases "n = 0")
    case True
    then show ?thesis using near by (simp add: run_so_far_def)
  next
    case False
    with assms(1) have r: "lst = Some (i - 2 * n)" "2 * n \<le> i" "\<And>j. i - 2 * n \<le> j \<Longrightarrow> j < i \<Longrightarrow> p ! j = NUL"
      by (simp_all add: run_so_far_def)
    have e: "i + 2 - 2 * (n + 1) = i - 2 * n" by simp
    have "p ! j = NUL" if "i - 2 * n \<le> j" "j < i + 2" for j
      using r(3) [OF that(1)] near [of j] that(2) by (cases "j < i") simp_all
    then show ?thesis unfolding run_so_far_def e using r(1,2) False by simp
  qed
qed

lemma i6_runs_ok:
  assumes "length p = 16" "even i" "i \<le> 16" "zero_ok p zero mx" "run_so_far p i lst n"
    and "i6_runs i (drop i p) zero lst mx n = (z', m')"
  shows "zero_ok p z' m'"
  using assms
proof (induction "16 - i" arbitrary: i zero lst mx n rule: less_induct)
  case less
  show ?case
  proof (cases "i = 16")
    case True
    with less.prems show ?thesis
      using run_so_far_ok [OF less.prems(5,2,3), of mx] by (auto simp: zero_ok_def split: if_splits)
  next
    case False
    with less.prems have i: "i + 2 \<le> 16" by presburger
    have dr: "drop i p = p ! i # p ! (i + 1) # drop (i + 2) p" using i less.prems(1) by (intro drop_two) simp
    have m: "16 - (i + 2) < 16 - i" using i by linarith
    note IH = less.hyps [OF m less.prems(1) _ i]
    show ?thesis
    proof (cases "p ! i \<noteq> NUL \<or> p ! (i + 1) \<noteq> NUL")
      case nz: True
      have e: "run_so_far p (i + 2) l 0" for l by (simp add: run_so_far_def)
      show ?thesis
      proof (cases "mx < n")
        case True
        have "zero_ok p lst n"
          using run_so_far_ok [OF less.prems(5,2,3) True] less.prems(4) by (simp add: zero_ok_def)
        from IH [OF _ this e, of lst] show ?thesis
          using less.prems(2,6) nz True by (simp add: dr)
      next
        case False
        from IH [OF _ less.prems(4) e, of lst] show ?thesis
          using less.prems(2,6) nz False by (simp add: dr)
      qed
    next
      case z: False
      have "run_so_far p (i + 2) (if n = 0 then Some i else lst) (n + 1)"
        using run_so_far_step [OF less.prems(5)] z by simp
      from IH [OF _ less.prems(4) this] show ?thesis
        using less.prems(2,6) z by (simp add: dr)
    qed
  qed
qed


text \<open>Hexadecimal text, without and with "::".\<close>

lemma inet6_plain:
  assumes "length p = 16"
  shows "ngx_inet6_addr (i6_groups p None mx 16 0) = Some p"
proof -
  let ?t = "i6_groups p None mx 16 0"
  have "?t = ngx_sprintf_hex (grp p 0) @ '':'' @ i6_groups p None mx 16 2"
    by (simp add: i6_groups.simps [of p None mx 16 0] grp_def numeral_2_eq_2)
  then obtain d r where t: "?t = hex_chr d # r" "d < 16"
    using digits_bound [of 16 "grp p 0"] by (cases "digits 16 (grp p 0)") (auto simp: ngx_sprintf_hex_digits)
  have "Option.bind (inet6_loop ?t i6_start) inet6_end = Some p"
    using inet6_groups_tail [OF assms, of 0 None i6_start mx] by (simp add: i6_start_def i6_finish_def)
  then show ?thesis
    using hex_val_chr(2) [OF t(2)] unfolding ngx_inet6_addr_def t(1) by simp
qed

lemma zero_run_split:
  assumes "length p = 16" "zero_run p z m"
  shows "p = take z p @ replicate (2 * m) NUL @ drop (z + 2 * m) p"
proof (rule nth_equalityI)
  show "length p = length (take z p @ replicate (2 * m) NUL @ drop (z + 2 * m) p)"
    using assms by (simp add: zero_run_def)
  show "p ! i = (take z p @ replicate (2 * m) NUL @ drop (z + 2 * m) p) ! i" if "i < length p" for i
    using assms that by (auto simp: zero_run_def nth_append)
qed

lemma inet6_compressed:
  assumes p: "length p = 16" and z: "zero_run p z m"
    and st: "i6_nibbles st = 0" "i6_word st = 0" "i6_zero st = None" "i6_n st = 8" "i6_out st = []"
  shows "Option.bind (inet6_loop (i6_groups p (Some z) m 16 0) st) inet6_end = Some p"
proof -
  from z have e: "even z" "2 \<le> m" "z + 2 * m \<le> 16" by (simp_all add: zero_run_def)
  let ?i = "z + 2 * m"
  have ix: "z + (m - 1) * 2 + 2 = ?i" using e(2) by (simp add: algebra_simps)
  have ev: "even ?i" using e(1) by simp
  obtain st' where st': "inet6_loop (i6_groups p (Some z) m 16 0) st = inet6_loop (i6_groups p (Some z) m 16 ?i) st'"
    "i6_nibbles st' = 0" "i6_word st' = 0" "i6_zero st' = Some z" "i6_n st' = 8 - z div 2" "i6_out st' = take z p"
  proof -
    have "z \<le> 14" "(z - 0) div 2 + 2 \<le> i6_n st" using e st(4) by presburger+
    from inet6_groups_pre [OF p _ e(1) _ this(1) st(1-3) this(2), of m] st(4,5)
    show thesis unfolding ix by (auto intro: that)
  qed
  have tk: "take z (take z p @ r) = take z p" "drop z (take z p @ r) = r" for r
    using p e(3) by simp_all
  show ?thesis
  proof (cases "?i = 16")
    case True
    have n: "Suc (8 - z div 2 - 1) = m" "8 - z div 2 - 1 \<noteq> 0" using True e by presburger+
    have "inet6_loop (i6_groups p (Some z) m 16 ?i) st' = Some st'"
      using True by (simp add: i6_groups.simps [of p "Some z" m 16 16])
    then have "Option.bind (inet6_loop (i6_groups p (Some z) m 16 0) st) inet6_end
        = i6_finish (Some z) (8 - z div 2 - 1) (take z p @ [NUL, NUL])"
      using st' by (simp add: inet6_end_finish u8_0)
    also have "\<dots> = Some (take z p @ replicate (2 * (8 - z div 2 - 1)) NUL @ [NUL, NUL])"
      using n(2) tk [of "[NUL, NUL]"] by (simp add: i6_finish_def)
    also have "replicate (2 * (8 - z div 2 - 1)) NUL @ [NUL, NUL] = replicate (2 * m) NUL"
      using n(1) by (metis append_Cons append_Nil replicate_Suc replicate_append_same mult_Suc_right add_2_eq_Suc append_assoc)
    finally show ?thesis using zero_run_split [OF p z] True p by simp
  next
    case False
    with e ev have i: "?i \<le> 14" by presburger
    from e(1) obtain a where a: "z = 2 * a" by blast
    have "16 - ?i = 2 * (8 - (a + m))" by (simp add: a algebra_simps)
    then have n: "(16 - ?i) div 2 \<le> 8 - z div 2" "8 - z div 2 - (16 - ?i) div 2 = m" using e(3) by (simp_all add: a)
    have "Option.bind (inet6_loop (i6_groups p (Some z) m 16 ?i) st') inet6_end
        = i6_finish (i6_zero st') (i6_n st' - (16 - ?i) div 2) (i6_out st' @ drop ?i p)"
      using inet6_groups_tail [OF p ev i _ st'(2,3)] e(2) n(1) st'(5) by simp
    also have "\<dots> = Some (take z p @ replicate (2 * m) NUL @ drop ?i p)"
      unfolding st'(4-6) n(2) using tk [of "drop ?i p"] e(2) by (simp add: i6_finish_def)
    finally show ?thesis using st'(1) zero_run_split [OF p z] by simp
  qed
qed


text \<open>Dotted text after "::" or "::ffff:".\<close>

lemma inet6_dotted:
  assumes q: "length q = 4" and ne: "of_be32 q \<noteq> INADDR_NONE"
    and st: "i6_nibbles st = 0" "i6_word st = 0" "i6_digit st = Some (dotted q)" "2 \<le> i6_n st"
  shows "Option.bind (inet6_loop (dotted q) st) inet6_end = i6_finish (i6_zero st) (i6_n st - 2) (i6_out st @ q)"
proof -
  let ?a = "of_char (q ! 0) :: nat"
  obtain r where r: "dotted q = map hex_chr (digits 10 ?a) @ CHR ''.'' # r"
    by (simp add: dotted_def ngx_sprintf_num_hex)
  have len: "length (digits 10 ?a) \<le> Suc 2"
    using of_char_le_255 [of "q ! 0"] by (intro length_digits) simp_all
  have hex: "list_all (\<lambda>d. d < 16) (digits 10 ?a)"
    using digits_bound [of 10 ?a] by (auto simp: list_all_iff)
  have hi: "unat (drop_bit 16 x) = unat x div 65536" "unat x div 65536 div 256 = unat x div 16777216" for x :: "32 word"
    unfolding unat_drop_bit_eq by (simp_all add: drop_bit_eq_div div_mult2_eq [symmetric])
  define k where "k = length (digits 10 ?a)"
  define w where "w = foldl (\<lambda>w d. w * 16 + d) 0 (digits 10 ?a)"
  have k: "0 < k" "k \<le> 3" using len by (simp_all add: k_def)
  have "inet6_loop (dotted q) st = inet6_loop (CHR ''.'' # r) (st\<lparr>i6_nibbles := k, i6_word := w\<rparr>)"
    unfolding r using inet6_loop_hex [OF hex, of st] k st(1,2) by (simp add: k_def w_def)
  also have "\<dots> = Some ((i6_put (unat (drop_bit 16 (of_be32 q))) (st\<lparr>i6_nibbles := k, i6_word := w\<rparr>))
      \<lparr>i6_n := i6_n st - 1, i6_word := unat (of_be32 q)\<rparr>)"
    using k(1) st(3,4) ne ngx_inet_addr_dotted [OF q] by (simp add: Let_def)
  finally have "Option.bind (inet6_loop (dotted q) st) inet6_end
      = i6_finish (i6_zero st) (i6_n st - 2) (i6_out st @ be32 (of_be32 q))"
    using k(1) by (simp add: inet6_end_finish i6_put_def be32_bytes hi numeral_2_eq_2)
  then show ?thesis by (simp add: be32_of_be32(1) [OF q])
qed


lemma ngx_inet6_addr_colon: "ngx_inet6_addr (CHR '':'' # t) = Option.bind (inet6_loop t i6_start) inet6_end"
  by (simp add: ngx_inet6_addr_def)

lemma i6_groups_zero: "2 \<le> m \<Longrightarrow> 0 < n \<Longrightarrow> i6_groups p (Some 0) m n 0 = CHR '':'' # i6_groups p (Some 0) m n (2 * m)"
proof -
  assume "2 \<le> m" "0 < n"
  then have "0 + (m - 1) * 2 + 2 = 2 * m" by simp
  then show ?thesis using \<open>0 < n\<close> by (subst i6_groups.simps) simp
qed

lemma inet6_ntop_dotted:
  assumes p: "length p = 16" and z: "zero_run p 0 m" and ne: "of_be32 (drop 12 p) \<noteq> INADDR_NONE"
    and m: "m = 5 \<and> p ! 10 = CHR 0xFF \<and> p ! 11 = CHR 0xFF \<or> m = 6 \<or> m = 7"
  shows "ngx_inet6_addr ('':'' @ i6_groups p (Some 0) m 12 0 @ dotted (drop 12 p)) = Some p"
proof -
  let ?q = "drop 12 p"
  have q: "length ?q = 4" using p by simp
  from z have m2: "2 \<le> m" and nul: "\<And>j. j < 2 * m \<Longrightarrow> p ! j = NUL" by (simp_all add: zero_run_def)
  let ?st = "\<lambda>t. i6_start\<lparr>i6_digit := Some t, i6_zero := Some 0\<rparr>"
  have start: "inet6_loop (CHR '':'' # t) i6_start = inet6_loop t (?st t)" for t by (simp add: i6_start_def)
  have all0: "replicate k NUL = take k p" if "k \<le> 2 * m" "k \<le> 16" for k
    using that nul p by (intro nth_equalityI) simp_all
  consider "m = 5" "p ! 10 = CHR 0xFF" "p ! 11 = CHR 0xFF" | "6 \<le> m" "m \<le> 7" using m by fastforce
  then show ?thesis
  proof cases
    case 1
    let ?g = "ngx_sprintf_hex (grp p 10) @ CHR '':'' # dotted ?q"
    have t: "'':'' @ i6_groups p (Some 0) m 12 0 @ dotted ?q = CHR '':'' # CHR '':'' # ?g"
      using 1 i6_groups_zero [of m 12 p] by (simp add: i6_groups.simps [of p "Some 0" 5 12] grp_def)
    have g: "inet6_loop ?g (?st ?g)
        = inet6_loop (dotted ?q) ((?st ?g)\<lparr>i6_digit := Some (dotted ?q), i6_n := 7, i6_out := [p ! 10, p ! 11]\<rparr>)"
      using inet6_loop_group_colon [OF grp_bound, of "?st ?g" p 10 "dotted ?q"] grp_bytes [of p 10]
      by (simp add: i6_start_def)
    have "ngx_inet6_addr ('':'' @ i6_groups p (Some 0) m 12 0 @ dotted ?q)
        = i6_finish (Some 0) 5 ([p ! 10, p ! 11] @ ?q)"
      unfolding t ngx_inet6_addr_colon start g using inet6_dotted [OF q ne] by (simp add: i6_start_def)
    also have "[p ! 10, p ! 11] @ ?q = drop 10 p" using drop_two [of 10 p] p by simp
    finally show ?thesis using all0 [of 10] 1(1) by (simp add: i6_finish_def)
  next
    case 2
    have t: "'':'' @ i6_groups p (Some 0) m 12 0 @ dotted ?q = CHR '':'' # CHR '':'' # dotted ?q"
      using 2 i6_groups_zero [of m 12 p] by (simp add: i6_groups.simps [of p "Some 0" m 12 "2 * m"])
    have "ngx_inet6_addr ('':'' @ i6_groups p (Some 0) m 12 0 @ dotted ?q) = i6_finish (Some 0) 6 ?q"
      unfolding t ngx_inet6_addr_colon start using inet6_dotted [OF q ne] by (simp add: i6_start_def)
    then show ?thesis using all0 [of 12] 2(1) by (simp add: i6_finish_def)
  qed
qed

text \<open>Reading back what was written.\<close>

lemma inet6_reads_back:
  assumes "length p = 16" "of_be32 (drop 12 p) \<noteq> INADDR_NONE"
  shows "ngx_inet6_addr (ngx_inet6_ntop p 45) = Some p"
proof -
  obtain zero m where r: "i6_runs 0 (take 16 p) None None 1 0 = (zero, m)" by fastforce
  have ok: "zero_ok p zero m"
    by (rule i6_runs_ok [OF assms(1), of 0 None 1 None 0]) (use r assms(1) in \<open>simp_all add: zero_ok_def run_so_far_def\<close>)
  show ?thesis
  proof (cases zero)
    case None
    then show ?thesis using r inet6_plain [OF assms(1)] by (simp add: ngx_inet6_ntop_def)
  next
    case (Some z)
    with ok have z: "zero_run p z m" by (simp add: zero_ok_def)
    note comp = inet6_compressed [OF assms(1) z, of i6_start]
    show ?thesis
    proof (cases "z = 0")
      case True
      have "ngx_inet6_addr ('':'' @ i6_groups p (Some 0) m 16 0) = Some p"
        using comp True by (simp add: ngx_inet6_addr_colon i6_start_def)
      then show ?thesis
        using r Some True inet6_ntop_dotted [OF assms(1) z [unfolded True] assms(2)]
        by (auto simp: ngx_inet6_ntop_def)
    next
      case False
      have "i6_groups p (Some z) m 16 0 = ngx_sprintf_hex (grp p 0) @ '':'' @ i6_groups p (Some z) m 16 2"
        using False by (simp add: i6_groups.simps [of p "Some z" m 16 0] grp_def numeral_2_eq_2)
      then obtain d t where t: "i6_groups p (Some z) m 16 0 = hex_chr d # t" "d < 16"
        using digits_bound [of 16 "grp p 0"] by (cases "digits 16 (grp p 0)") (auto simp: ngx_sprintf_hex_digits)
      have "ngx_inet6_addr (i6_groups p (Some z) m 16 0) = Some p"
        using comp hex_val_chr(2) [OF t(2)] by (simp add: ngx_inet6_addr_def t(1) i6_start_def)
      then show ?thesis using r Some False by (simp add: ngx_inet6_ntop_def)
    qed
  qed
qed

text \<open>IPv6 addresses as text. Writing the sixteen bytes of an address with \<open>ngx_inet6_ntop\<close>
  (longest run of zero groups as "::", IPv4-mapped and -compatible addresses dotted) and reading the
  text with \<open>ngx_inet6_addr\<close> gives the bytes back, except when the last four bytes are 255, which the
  reader of the dotted part takes for an error.\<close>

theorem inet6_roundtrip:
  assumes "length p = 16" "of_be32 (drop 12 p) \<noteq> INADDR_NONE"
  shows "ngx_inet6_addr (ngx_inet6_ntop p 45) = Some p"
  using assms by (rule inet6_reads_back)

lemma inet6_roundtrip_witness:
  "ngx_inet6_addr (ngx_inet6_ntop (NUL # CHR 0x01 # replicate 13 NUL @ [CHR 0x02]) 45)
     = Some (NUL # CHR 0x01 # replicate 13 NUL @ [CHR 0x02])
   \<and> ngx_inet6_ntop (NUL # CHR 0x01 # replicate 13 NUL @ [CHR 0x02]) 45 = ''1::2''"
proof (rule conjI)
  let ?p = "NUL # CHR 0x01 # replicate 13 NUL @ [CHR 0x02]"
  have "of_be32 (drop 12 ?p) \<noteq> INADDR_NONE" by code_simp
  then show "ngx_inet6_addr (ngx_inet6_ntop ?p 45) = Some ?p"
    by (rule inet6_roundtrip [rotated]) simp
  show "ngx_inet6_ntop ?p 45 = ''1::2''" by code_simp
qed

subsection \<open>Addresses with ports\<close>

lemma inet_addr_loop_byte:
  "inet_addr_loop (ngx_sprintf_num (of_char c) @ CHR ''.'' # cs) addr 0 n
     = inet_addr_loop cs (push_bit 8 addr + of_nat (of_char c)) 0 (Suc n)"
  using inet_addr_loop_num [of "of_char c"] by (simp add: of_char_le_255)

lemma ngx_inet_addr_dotted_colon: "ngx_inet_addr (dotted q @ CHR '':'' # r) = INADDR_NONE"
proof -
  have "inet_addr_loop (ngx_sprintf_num (of_char c) @ CHR '':'' # r) addr 0 n = None" for c addr n
    using inet_addr_loop_num [of "of_char c"] by (simp add: of_char_le_255 is_digit_iff)
  then show ?thesis by (simp add: ngx_inet_addr_def dotted_def inet_addr_loop_byte)
qed

lemma dotted_first: "\<exists>d r. dotted q = hex_chr d # r \<and> d < 10"
  using digits_bound [of 10 "of_char (q ! 0)"]
  by (cases "digits 10 (of_char (q ! 0))") (auto simp: dotted_def ngx_sprintf_num_hex)

lemma ngx_inet6_addr_dotted: "ngx_inet6_addr (dotted q @ r) = None"
proof -
  let ?a = "of_char (q ! 0) :: nat"
  obtain t where t: "dotted q @ r = map hex_chr (digits 10 ?a) @ CHR ''.'' # t"
    by (simp add: dotted_def ngx_sprintf_num_hex)
  have len: "length (digits 10 ?a) \<le> Suc 2"
    using of_char_le_255 [of "q ! 0"] by (intro length_digits) simp_all
  have hex: "list_all (\<lambda>d. d < 16) (digits 10 ?a)"
    using digits_bound [of 10 ?a] by (auto simp: list_all_iff)
  have "inet6_loop (dotted q @ r) i6_start = None"
    unfolding t using inet6_loop_hex [OF hex, of i6_start "CHR ''.'' # t"] len by (simp add: i6_start_def)
  moreover obtain d u where "dotted q = hex_chr d # u" "d < 10" using dotted_first by blast
  ultimately show ?thesis
    using hex_val_chr(2) [of d] by (simp add: ngx_inet6_addr_def)
qed

lemma num_no: "c \<notin> set (ngx_sprintf_num n)" if "\<not> is_digit c"
  using ngx_sprintf_num_digits [of n] that by (auto simp: list_all_iff)

lemma dotted_no_colon: "CHR '':'' \<notin> set (dotted q)"
  by (simp add: dotted_def num_no is_digit_iff)

lemma strlchr_found: "c \<notin> set xs \<Longrightarrow> ngx_strlchr (xs @ c # ys) c = Some (length xs)"
  by (induction xs) auto

lemma unat16: "unat (w :: 16 word) < 65536"
  using unsigned_less [of w] by simp

lemma uint16: "uint (w :: 16 word) \<le> 65535" "1 \<le> unat w \<Longrightarrow> 1 \<le> uint w"
proof -
  have "uint w = int (unat w)" by simp
  then show "uint w \<le> 65535" "1 \<le> unat w \<Longrightarrow> 1 \<le> uint w" using unat16 [of w] by linarith+
qed

lemma port_text:
  fixes port :: "16 word"
  assumes "1 \<le> unat port"
  shows "ngx_atoi (ngx_sprintf_num (unat port)) (length (ngx_sprintf_num (unat port))) = uint port"
  using ngx_sprintf_num_digits [of "unat port"] uint16(1) [of port]
  by (simp add: ngx_atoi_eq dec_value_sprintf_num)

lemma hex_chr_not_bracket: "d < 16 \<Longrightarrow> hex_chr d \<noteq> CHR ''[''" "d < 16 \<Longrightarrow> hex_chr d \<noteq> CHR '']''"
  by (auto simp: of_char_hex_chr dest!: arg_cong [where f = "of_char :: char \<Rightarrow> nat"] split: if_splits)

lemma ngx_parse_addr_dotted:
  assumes "length q = 4" "of_be32 q \<noteq> INADDR_NONE"
  shows "ngx_parse_addr True (dotted q) = (NGX_OK, Some (sockaddr_in 0 q))"
  using assms by (simp add: ngx_parse_addr_def ngx_inet_addr_dotted be32_of_be32(1) Let_def)

lemma set_port_in: "ngx_inet_set_port (sockaddr_in x a) port = sockaddr_in port a"
  by (simp add: ngx_inet_set_port_def sockaddr_in_def sa_family_def AF_INET_def AF_UNIX_def be16_def)

lemma set_port_in6: "ngx_inet_set_port (sockaddr_in6 x a) port = sockaddr_in6 port a"
  by (simp add: ngx_inet_set_port_def sockaddr_in6_def sa_family_def AF_INET6_def AF_UNIX_def be16_def)

lemma parse_addr_port_in:
  assumes q: "length q = 4" "of_be32 q \<noteq> INADDR_NONE" and port: "1 \<le> unat (port :: 16 word)"
  shows "ngx_parse_addr_port True (dotted q @ '':'' @ ngx_sprintf_num (unat port)) = (NGX_OK, Some (sockaddr_in port q))"
proof -
  let ?t = "dotted q @ CHR '':'' # ngx_sprintf_num (unat port)"
  obtain d r where d: "dotted q = hex_chr d # r" "d < 10" using dotted_first by blast
  have first: "?t ! 0 \<noteq> CHR ''[''" using d hex_chr_not_bracket(1) [of d] by simp
  have split: "addr_port_split ?t = Some (length (dotted q) + 1, dotted q)"
    using first strlchr_found [OF dotted_no_colon] by (simp add: addr_port_split_def)
  have "ngx_parse_addr True ?t = (NGX_DECLINED, None)"
    by (simp add: ngx_parse_addr_def ngx_inet_addr_dotted_colon ngx_inet6_addr_dotted)
  then show ?thesis
    using split port_text [OF port] ngx_parse_addr_dotted [OF q] uint16 [of port] port
    by (simp add: ngx_parse_addr_port_def set_port_in Let_def)
qed


text \<open>The text of an IPv6 address has no bracket.\<close>

definition plain6 :: "string \<Rightarrow> bool" where
  "plain6 t \<longleftrightarrow> CHR '']'' \<notin> set t"

lemma plain6_hex: "plain6 (map hex_chr ds)" if "list_all (\<lambda>d. d < 16) ds"
  using that hex_chr_not_bracket(2) by (force simp: plain6_def list_all_iff)

lemma plain6_groups: "plain6 (i6_groups p zero mx n i)"
proof (induction p zero mx n i rule: i6_groups.induct)
  case (1 p zero mx n i)
  then show ?case
    using plain6_hex [OF digits_bound [of 16 "of_char (p ! i) * 256 + of_char (p ! (i + 1))"]]
    by (subst i6_groups.simps) (simp add: plain6_def ngx_sprintf_hex_digits)
qed

lemma plain6_ntop: "plain6 (ngx_inet6_ntop p len)"
  using plain6_groups [of p]
  by (cases "i6_runs 0 (take 16 p) None None 1 0")
    (simp add: ngx_inet6_ntop_def Let_def plain6_def dotted_def num_no is_digit_iff)

lemma inet_addr_loop_colon: "CHR '':'' \<in> set t \<Longrightarrow> inet_addr_loop t a k n = None"
  by (induction t a k n rule: inet_addr_loop.induct) (auto simp: Let_def is_digit_iff)

lemma inet6_ntop_colon: "CHR '':'' \<in> set (ngx_inet6_ntop p 45)"
proof -
  have "CHR '':'' \<in> set (i6_groups p zero mx n 0)" if "0 < n" for zero mx n
    using that by (subst i6_groups.simps) simp
  then show ?thesis
    by (cases "i6_runs 0 (take 16 p) None None 1 0") (simp add: ngx_inet6_ntop_def Let_def)
qed

lemma parse_addr_in6:
  assumes "length p = 16" "of_be32 (drop 12 p) \<noteq> INADDR_NONE" "ngx_inet6_addr (ngx_inet6_ntop p 45) = Some p"
  shows "ngx_parse_addr True (ngx_inet6_ntop p 45) = (NGX_OK, Some (sockaddr_in6 0 p))"
  using assms(3) inet_addr_loop_colon [OF inet6_ntop_colon]
  by (simp add: ngx_parse_addr_def ngx_inet_addr_def)

lemma parse_addr_port_in6:
  assumes p: "length p = 16" "of_be32 (drop 12 p) \<noteq> INADDR_NONE" "ngx_inet6_addr (ngx_inet6_ntop p 45) = Some p"
    and port: "1 \<le> unat (port :: 16 word)"
  shows "ngx_parse_addr_port True (''['' @ ngx_inet6_ntop p 45 @ '']:'' @ ngx_sprintf_num (unat port))
    = (NGX_OK, Some (sockaddr_in6 port p))"
proof -
  let ?a = "ngx_inet6_ntop p 45"
  let ?t = "CHR ''['' # ?a @ CHR '']'' # CHR '':'' # ngx_sprintf_num (unat port)"
  have "ngx_strlchr ?t (CHR '']'') = Some (Suc (length ?a))"
    using strlchr_found [of "CHR '']''" "CHR ''['' # ?a"] plain6_ntop [of p 45] by (simp add: plain6_def)
  then have split: "addr_port_split ?t = Some (length ?a + 3, ?a)"
    by (simp add: addr_port_split_def nth_append)
  have "ngx_inet_addr ?t = INADDR_NONE" by (simp add: ngx_inet_addr_def is_digit_iff)
  moreover have "ngx_inet6_addr ?t = None"
    by (simp add: ngx_inet6_addr_def i6_start_def hex_val_def is_digit_iff)
  ultimately have "ngx_parse_addr True ?t = (NGX_DECLINED, None)" by (simp add: ngx_parse_addr_def)
  then show ?thesis
    using split port_text [OF port] parse_addr_in6 [OF p] uint16 [of port] port
    by (simp add: ngx_parse_addr_port_def set_port_in6 Let_def numeral_3_eq_3)
qed


lemma of_be16_be16: "of_be16 (be16 w @ r) = w"
proof -
  have lt: "unat w div 256 < 256" using unat16 [of w] by (simp add: less_mult_imp_div_less)
  have "of_be16 (be16 w @ r) = of_nat (unat w div 256) * 256 + of_nat (unat w mod 256)"
    unfolding be16_def of_be16_def unat_drop_bit_eq using lt
    by (simp add: drop_bit_eq_div push_bit_eq_mult)
  also have "\<dots> = of_nat (unat w div 256 * 256 + unat w mod 256)" by (simp only: of_nat_add of_nat_mult of_nat_numeral)
  also have "\<dots> = w" by (simp only: div_mult_mod_eq) simp
  finally show ?thesis .
qed

lemma length_num_byte: "length (ngx_sprintf_num (of_char c)) \<le> 3"
  using length_ngx_sprintf_num [of "of_char c" 2] of_char_le_255 [of c] by simp

lemma length_dotted: "length (dotted q) \<le> 15"
  using length_num_byte [of "q ! 0"] length_num_byte [of "q ! 1"] length_num_byte [of "q ! 2"] length_num_byte [of "q ! 3"]
  by (simp add: dotted_def)

lemma sock_ntop_in:
  assumes "length q = 4" "21 \<le> len"
  shows "ngx_sock_ntop (sockaddr_in port q) len True = dotted q @ '':'' @ ngx_sprintf_num (unat port)"
proof -
  have "length (ngx_sprintf_num (unat port)) \<le> Suc 4" by (rule length_ngx_sprintf_num) (use unat16 [of port] in simp)
  then show ?thesis
    using assms length_dotted [of q]
    by (simp add: ngx_sock_ntop_def sockaddr_in_def sa_family_def AF_INET_def sin_addr_def sin_port_def of_be16_be16)
      (simp add: be16_def)
qed

lemma sock_ntop_in6:
  assumes "length p = 16"
  shows "ngx_sock_ntop (sockaddr_in6 port p) 51 True = ''['' @ ngx_inet6_ntop p 45 @ '']:'' @ ngx_sprintf_num (unat port)"
proof -
  have "ngx_inet6_ntop p 51 = ngx_inet6_ntop p 45" by (simp add: ngx_inet6_ntop_def)
  then show ?thesis
    using assms
    by (simp add: ngx_sock_ntop_def sockaddr_in6_def sa_family_def AF_INET_def AF_INET6_def sin6_addr_def sin_port_def
        of_be16_be16) (simp add: be16_def)
qed


text \<open>C37: Addresses with ports as text. Writing an IPv4 or IPv6 socket address whose port is not zero
  with \<open>ngx_sock_ntop\<close> into the buffer the health checker uses, and parsing the text with
  \<open>ngx_parse_addr_port\<close>, gives the same sockaddr, unless the last four address bytes are 255.\<close>

theorem sock_ntop_parse:
  assumes "sa = sockaddr_in port a \<and> length a = 4 \<or> sa = sockaddr_in6 port a \<and> length a = 16"
    and "1 \<le> unat port" "of_be32 (drop (length a - 4) a) \<noteq> INADDR_NONE"
  shows "ngx_parse_addr_port True (ngx_sock_ntop sa 51 True) = (NGX_OK, Some sa)"
  using assms(1)
proof
  assume "sa = sockaddr_in port a \<and> length a = 4"
  then show ?thesis using parse_addr_port_in [of a port] assms(2,3) by (simp add: sock_ntop_in)
next
  assume "sa = sockaddr_in6 port a \<and> length a = 16"
  then show ?thesis
    using parse_addr_port_in6 [of a port] inet6_reads_back [of a] assms(2,3) by (simp add: sock_ntop_in6)
qed

lemma sock_ntop_parse_witness:
  "ngx_parse_addr_port True (ngx_sock_ntop (sockaddr_in 80 [CHR 0x0A, NUL, NUL, CHR 0x01]) 51 True)
     = (NGX_OK, Some (sockaddr_in 80 [CHR 0x0A, NUL, NUL, CHR 0x01]))
   \<and> ngx_sock_ntop (sockaddr_in 80 [CHR 0x0A, NUL, NUL, CHR 0x01]) 51 True = ''10.0.0.1:80''"
proof (rule conjI)
  let ?a = "[CHR 0x0A, NUL, NUL, CHR 0x01]"
  have "of_be32 (drop (length ?a - 4) ?a) \<noteq> INADDR_NONE" by code_simp
  then show "ngx_parse_addr_port True (ngx_sock_ntop (sockaddr_in 80 ?a) 51 True) = (NGX_OK, Some (sockaddr_in 80 ?a))"
    by (rule sock_ntop_parse [where a = ?a and port = 80, rotated 2]) simp_all
  show "ngx_sock_ntop (sockaddr_in 80 ?a) 51 True = ''10.0.0.1:80''" by code_simp
qed

subsection \<open>CIDR blocks\<close>

datatype ngx_cidr_t = Cidr_In "32 word" "32 word" | Cidr_In6 string string | Cidr_Unix

text \<open>The loop over the sixteen bytes: the mask, the masked address and whether a byte changed.\<close>

fun cidr6_mask :: "nat \<Rightarrow> string \<Rightarrow> string \<times> string \<times> bool" where
  "cidr6_mask shift [] = ([], [], False)"
| "cidr6_mask shift (a # as) =
     (let s = (if shift > 8 then 8 else shift);
          m = u8 (push_bit (8 - s) 0xff);
          a' = u8 ((of_char a :: nat) AND of_char m)
      in case cidr6_mask (shift - s) as of
           (ms, bs, ch) \<Rightarrow> (m # ms, a' # bs, a \<noteq> a' \<or> ch))"

definition ngx_ptocidr :: "string \<Rightarrow> ngx_rc \<times> ngx_cidr_t option" where
  "ngx_ptocidr text =
     (let slash = ngx_strlchr text (CHR ''/'');
          host = (case slash of None \<Rightarrow> text | Some i \<Rightarrow> take i text);
          a = ngx_inet_addr host;
          shift = (case slash of None \<Rightarrow> 0 | Some i \<Rightarrow> ngx_atoi (drop (i + 1) text) (length text - (i + 1)))
      in if a \<noteq> INADDR_NONE then
           (if slash = None then (NGX_OK, Some (Cidr_In a 0xffffffff))
            else if shift = - 1 \<or> shift > 32 then (NGX_ERROR, None)
            else
              let m = (if shift \<noteq> 0 then push_bit (32 - nat shift) 0xffffffff else 0)
              in if a = a AND m then (NGX_OK, Some (Cidr_In a m)) else (NGX_DONE, Some (Cidr_In (a AND m) m)))
         else (case ngx_inet6_addr host of
                 None \<Rightarrow> (NGX_ERROR, None)
               | Some a6 \<Rightarrow>
                   if slash = None then (NGX_OK, Some (Cidr_In6 a6 (replicate 16 (CHR 0xFF))))
                   else if shift = - 1 \<or> shift > 128 then (NGX_ERROR, None)
                   else (case cidr6_mask (nat shift) a6 of
                           (ms, bs, ch) \<Rightarrow> (if ch then NGX_DONE else NGX_OK, Some (Cidr_In6 bs ms)))))"

text \<open>One CIDR block against a socket address; an IPv4-mapped address counts as IPv4.\<close>

definition cidr_family_addr :: "string \<Rightarrow> string \<times> string" where
  "cidr_family_addr sa =
     (if sa_family sa = AF_INET6
         \<and> take 12 (sin6_addr sa) = replicate 10 NUL @ [CHR 0xFF, CHR 0xFF]
      then (AF_INET, drop 12 (sin6_addr sa))
      else if sa_family sa = AF_INET6 then (AF_INET6, sin6_addr sa)
      else (sa_family sa, sin_addr sa))"

definition cidr_one_match :: "string \<Rightarrow> ngx_cidr_t \<Rightarrow> bool" where
  "cidr_one_match sa c =
     (case cidr_family_addr sa of
        (family, a) \<Rightarrow>
          (case c of
             Cidr_In6 addr msk \<Rightarrow>
               family = AF_INET6
               \<and> map2 (\<lambda>b m. u8 ((of_char b :: nat) AND of_char m)) a msk = addr
           | Cidr_Unix \<Rightarrow> family = AF_UNIX
           | Cidr_In addr msk \<Rightarrow> family = AF_INET \<and> of_be32 a AND msk = addr))"

fun ngx_cidr_match :: "string \<Rightarrow> ngx_cidr_t list \<Rightarrow> ngx_rc" where
  "ngx_cidr_match sa [] = NGX_DECLINED"
| "ngx_cidr_match sa (c # cs) = (if cidr_one_match sa c then NGX_OK else ngx_cidr_match sa cs)"


lemma prefix_mask_eq:
  fixes x a :: "32 word"
  assumes "k \<le> 32"
  defines "m \<equiv> (if k \<noteq> 0 then push_bit (32 - k) 0xffffffff else 0 :: 32 word)"
  shows "x AND m = a AND m \<longleftrightarrow> drop_bit (32 - k) x = drop_bit (32 - k) a"
proof -
  have ones: "(0xffffffff :: 32 word) = - 1" by simp
  have bm: "bit m n \<longleftrightarrow> 32 - k \<le> n \<and> n < 32" for n
    using assms(1) by (auto simp: m_def ones bit_not_iff bit_mask_iff dest: bit_imp_le_length)
  show ?thesis
  proof
    assume eq: "x AND m = a AND m"
    show "drop_bit (32 - k) x = drop_bit (32 - k) a"
    proof (rule bit_word_eqI)
      fix n assume "n < LENGTH(32)"
      show "bit (drop_bit (32 - k) x) n = bit (drop_bit (32 - k) a) n"
        using arg_cong [OF eq, where f = "\<lambda>w. bit w (32 - k + n)"] bm [of "32 - k + n"]
        by (auto simp: bit_drop_bit_eq bit_and_iff dest: bit_imp_le_length)
    qed
  next
    assume eq: "drop_bit (32 - k) x = drop_bit (32 - k) a"
    show "x AND m = a AND m"
    proof (rule bit_word_eqI)
      fix n assume "n < LENGTH(32)"
      show "bit (x AND m) n = bit (a AND m) n"
        using arg_cong [OF eq, where f = "\<lambda>w. bit w (n - (32 - k))"] bm [of n]
        by (auto simp: bit_drop_bit_eq bit_and_iff)
    qed
  qed
qed

lemma ptocidr_in:
  assumes q: "length q = 4" "of_be32 q \<noteq> INADDR_NONE" and k: "k \<le> 32"
  shows "\<exists>rc. rc \<noteq> NGX_ERROR \<and> ngx_ptocidr (dotted q @ ''/'' @ ngx_sprintf_num k)
    = (rc, Some (Cidr_In (of_be32 q AND (if k \<noteq> 0 then push_bit (32 - k) 0xffffffff else 0))
                   (if k \<noteq> 0 then push_bit (32 - k) 0xffffffff else 0)))"
proof -
  let ?t = "dotted q @ CHR ''/'' # ngx_sprintf_num k"
  have "CHR ''/'' \<notin> set (dotted q)" by (simp add: dotted_def num_no)
  from strlchr_found [OF this] have pos: "ngx_strlchr ?t (CHR ''/'') = Some (length (dotted q))" .
  have "ngx_atoi (ngx_sprintf_num k) (length (ngx_sprintf_num k)) = int k"
    using ngx_sprintf_num_digits [of k] k by (simp add: ngx_atoi_eq dec_value_sprintf_num)
  then show ?thesis
    using pos k q(2) by (auto simp: ngx_ptocidr_def Let_def ngx_inet_addr_dotted [OF q(1)])
qed

text \<open>An IPv4 block in prefix notation. Reading \<open>a.b.c.d/k\<close> with \<open>ngx_ptocidr\<close> gives a block that
  matches an IPv4 socket address exactly when the first \<open>k\<close> bits of the two addresses agree, also when
  the text has bits set beyond the prefix.\<close>

theorem cidr_prefix_match:
  assumes "length q = 4" "of_be32 q \<noteq> INADDR_NONE" "k \<le> 32" "sa_family sa = AF_INET"
  shows "\<exists>rc c. ngx_ptocidr (dotted q @ ''/'' @ ngx_sprintf_num k) = (rc, Some c) \<and> rc \<noteq> NGX_ERROR
    \<and> (ngx_cidr_match sa [c] = NGX_OK
       \<longleftrightarrow> drop_bit (32 - k) (of_be32 (sin_addr sa)) = drop_bit (32 - k) (of_be32 q))"
proof -
  from ptocidr_in [OF assms(1-3)] obtain rc where "rc \<noteq> NGX_ERROR" and
    "ngx_ptocidr (dotted q @ ''/'' @ ngx_sprintf_num k)
      = (rc, Some (Cidr_In (of_be32 q AND (if k \<noteq> 0 then push_bit (32 - k) 0xffffffff else 0))
                   (if k \<noteq> 0 then push_bit (32 - k) 0xffffffff else 0)))" by blast
  then show ?thesis
    using assms(4) prefix_mask_eq [OF assms(3), of "of_be32 (sin_addr sa)" "of_be32 q"]
    by (simp add: cidr_one_match_def cidr_family_addr_def AF_INET_def AF_INET6_def)
qed

lemma cidr_prefix_match_witness:
  "\<exists>rc c. ngx_ptocidr ''10.0.0.1/8'' = (rc, Some c) \<and> rc \<noteq> NGX_ERROR
    \<and> (ngx_cidr_match (sockaddr_in 80 [CHR 0x0A, CHR 0x02, NUL, NUL]) [c] = NGX_OK \<longleftrightarrow> True)"
proof -
  let ?q = "[CHR 0x0A, NUL, NUL, CHR 0x01]" and ?sa = "sockaddr_in 80 [CHR 0x0A, CHR 0x02, NUL, NUL]"
  have h: "of_be32 ?q \<noteq> INADDR_NONE" by code_simp
  have t: "dotted ?q @ ''/'' @ ngx_sprintf_num 8 = ''10.0.0.1/8''" by code_simp
  have f: "sa_family ?sa = AF_INET" by code_simp
  have b: "drop_bit (32 - 8) (of_be32 (sin_addr ?sa)) = drop_bit (32 - 8) (of_be32 ?q)" by code_simp
  show ?thesis using cidr_prefix_match [OF _ h _ f, of 8] b unfolding t by simp
qed


end
