(* ===== verification/Check_Config.thy ===== *)
theory Check_Config
  imports Fastcgi_Check Ngx_Inet
begin

text \<open>
  Configuration: the directives of the two check modules (\<open>check\<close>, \<open>check_keepalive_requests\<close>,
  \<open>check_http_send\<close>, \<open>check_fastcgi_param\<close>, \<open>check_http_expect_alive\<close>, \<open>check_http_expect_body\<close>,
  \<open>check_shm_size\<close>) and the creation and completion of an upstream's configuration. A directive gets its
  arguments (the first is its own name) and returns nginx's result with the configuration as it leaves
  it, also when it fails.
\<close>

subsection \<open>Results\<close>

text \<open>\<open>NGX_CONF_OK\<close>, \<open>NGX_CONF_ERROR\<close>, or a message nginx prints.\<close>

datatype conf_rc = NGX_CONF_OK | NGX_CONF_ERROR | Conf_Message string

subsection \<open>The \<open>check\<close> directive\<close>

text \<open>The local variables with their defaults.\<close>

record check_args =
  ca_port :: ngx_uint_t
  ca_rise :: ngx_uint_t
  ca_fall :: ngx_uint_t
  ca_interval :: ngx_msec_t
  ca_timeout :: ngx_msec_t
  ca_default_down :: ngx_uint_t

definition check_defaults :: check_args where
  "check_defaults = \<lparr>ca_port = 0, ca_rise = 2, ca_fall = 5, ca_interval = 30000, ca_timeout = 1000,
     ca_default_down = 1\<rparr>"

text \<open>\<open>ngx_strncmp(value[i].data, "name=", n) == 0\<close>, and the number behind it: \<open>None\<close> when it is no
  number or zero.\<close>

definition arg_is :: "string \<Rightarrow> string \<Rightarrow> bool" where
  "arg_is key v \<longleftrightarrow> ngx_strncmp v key (length key) = 0"

definition arg_num :: "string \<Rightarrow> string \<Rightarrow> ngx_uint_t option" where
  "arg_num key v =
     (let n = word_of_int (ngx_atoi (drop (length key) v) (length v - length key)) :: ngx_uint_t
      in if n = - 1 \<or> n = 0 then None else Some n)"

text \<open>One round of the loop; the left result is a failure, with the configuration it leaves.
  \<open>get_type\<close> is the module's \<open>ngx_http_get_check_type_conf\<close>.\<close>

definition check_arg ::
  "(string \<Rightarrow> ngx_check_conf_t option) \<Rightarrow> string \<Rightarrow> check_args \<Rightarrow> ngx_upstream_check_srv_conf_t
     \<Rightarrow> ngx_upstream_check_srv_conf_t + (check_args \<times> ngx_upstream_check_srv_conf_t)" where
  "check_arg get_type v a uc =
     (if arg_is ''type='' v then
        (case get_type (drop 5 v) of
           None \<Rightarrow> Inl (uc\<lparr>uc_check_type_conf := Null_Ptr\<rparr>)
         | Some t \<Rightarrow> Inr (a, uc\<lparr>uc_check_type_conf := Ptr t\<rparr>))
      else if arg_is ''port='' v then
        (case arg_num ''port='' v of None \<Rightarrow> Inl uc | Some n \<Rightarrow> Inr (a\<lparr>ca_port := n\<rparr>, uc))
      else if arg_is ''interval='' v then
        (case arg_num ''interval='' v of None \<Rightarrow> Inl uc | Some n \<Rightarrow> Inr (a\<lparr>ca_interval := n\<rparr>, uc))
      else if arg_is ''timeout='' v then
        (case arg_num ''timeout='' v of None \<Rightarrow> Inl uc | Some n \<Rightarrow> Inr (a\<lparr>ca_timeout := n\<rparr>, uc))
      else if arg_is ''rise='' v then
        (case arg_num ''rise='' v of None \<Rightarrow> Inl uc | Some n \<Rightarrow> Inr (a\<lparr>ca_rise := n\<rparr>, uc))
      else if arg_is ''fall='' v then
        (case arg_num ''fall='' v of None \<Rightarrow> Inl uc | Some n \<Rightarrow> Inr (a\<lparr>ca_fall := n\<rparr>, uc))
      else if arg_is ''default_down='' v then
        (if ngx_strcasecmp (drop 13 v) ''true'' = 0 then Inr (a\<lparr>ca_default_down := 1\<rparr>, uc)
         else if ngx_strcasecmp (drop 13 v) ''false'' = 0 then Inr (a\<lparr>ca_default_down := 0\<rparr>, uc)
         else Inl uc)
      else Inl uc)"

fun check_loop ::
  "(string \<Rightarrow> ngx_check_conf_t option) \<Rightarrow> string list \<Rightarrow> check_args \<Rightarrow> ngx_upstream_check_srv_conf_t
     \<Rightarrow> ngx_upstream_check_srv_conf_t + (check_args \<times> ngx_upstream_check_srv_conf_t)" where
  "check_loop get_type [] a uc = Inr (a, uc)"
| "check_loop get_type (v # vs) a uc =
     (case check_arg get_type v a uc of
        Inl uc \<Rightarrow> Inl uc
      | Inr (a, uc) \<Rightarrow> check_loop get_type vs a uc)"

definition check_store ::
  "(string \<Rightarrow> ngx_check_conf_t option) \<Rightarrow> check_args \<Rightarrow> ngx_upstream_check_srv_conf_t
     \<Rightarrow> ngx_upstream_check_srv_conf_t" where
  "check_store get_type a uc =
     (let uc = uc\<lparr>uc_port := ca_port a, uc_check_interval := ca_interval a, uc_check_timeout := ca_timeout a,
                 uc_fall_count := ca_fall a, uc_rise_count := ca_rise a,
                 uc_default_down := ca_default_down a\<rparr>
      in if uc_check_type_conf uc = Unset_Ptr
         then uc\<lparr>uc_check_type_conf := (case get_type ''tcp'' of None \<Rightarrow> Null_Ptr | Some t \<Rightarrow> Ptr t)\<rparr>
         else uc)"

definition ngx_http_upstream_check ::
  "string list \<Rightarrow> ngx_upstream_check_srv_conf_t option
     \<Rightarrow> conf_rc \<times> ngx_upstream_check_srv_conf_t option" where
  "ngx_http_upstream_check args ucscf =
     (case ucscf of
        None \<Rightarrow> (NGX_CONF_ERROR, None)
      | Some uc \<Rightarrow>
          (case check_loop ngx_http_get_check_type_conf (tl args) check_defaults uc of
             Inl uc \<Rightarrow> (NGX_CONF_ERROR, Some uc)
           | Inr (a, uc) \<Rightarrow> (NGX_CONF_OK, Some (check_store ngx_http_get_check_type_conf a uc))))"

definition ngx_stream_upstream_check ::
  "string list \<Rightarrow> ngx_upstream_check_srv_conf_t option
     \<Rightarrow> conf_rc \<times> ngx_upstream_check_srv_conf_t option" where
  "ngx_stream_upstream_check args ucscf =
     (case ucscf of
        None \<Rightarrow> (NGX_CONF_ERROR, None)
      | Some uc \<Rightarrow>
          (case check_loop ngx_stream_get_check_type_conf (tl args) check_defaults uc of
             Inl uc \<Rightarrow> (NGX_CONF_ERROR, Some uc)
           | Inr (a, uc) \<Rightarrow> (NGX_CONF_OK, Some (check_store ngx_stream_get_check_type_conf a uc))))"

subsection \<open>The other directives\<close>

definition ngx_http_upstream_check_keepalive_requests ::
  "string list \<Rightarrow> ngx_upstream_check_srv_conf_t \<Rightarrow> conf_rc \<times> ngx_upstream_check_srv_conf_t" where
  "ngx_http_upstream_check_keepalive_requests args uc =
     (let requests = word_of_int (ngx_atoi (args ! 1) (length (args ! 1))) :: ngx_uint_t
      in if requests = - 1 \<or> requests = 0 then (Conf_Message ''invalid value'', uc)
         else (NGX_CONF_OK, uc\<lparr>uc_check_keepalive_requests := requests\<rparr>))"

definition ngx_http_upstream_check_http_send ::
  "string list \<Rightarrow> ngx_upstream_check_srv_conf_t \<Rightarrow> conf_rc \<times> ngx_upstream_check_srv_conf_t" where
  "ngx_http_upstream_check_http_send args uc = (NGX_CONF_OK, uc\<lparr>uc_send := Some (args ! 1)\<rparr>)"

text \<open>\<open>push1\<close> and \<open>push2\<close> tell whether the two \<open>ngx_array_push\<close> succeed; \<open>junk\<close> is what the memory
  of the first pushed element holds, which stays in the array when the second push fails.\<close>

definition ngx_http_upstream_check_fastcgi_params ::
  "bool \<Rightarrow> bool \<Rightarrow> string \<Rightarrow> string list \<Rightarrow> ngx_upstream_check_srv_conf_t
     \<Rightarrow> conf_rc \<times> ngx_upstream_check_srv_conf_t" where
  "ngx_http_upstream_check_fastcgi_params push1 push2 junk args uc =
     (if \<not> push1 then (NGX_CONF_ERROR, uc)
      else if \<not> push2 then (NGX_CONF_ERROR, uc\<lparr>uc_fastcgi_params := uc_fastcgi_params uc @ [junk]\<rparr>)
      else (NGX_CONF_OK, uc\<lparr>uc_fastcgi_params := uc_fastcgi_params uc @ [args ! 1, args ! 2]\<rparr>))"

definition ngx_check_http_expect_alive_masks :: "(string \<times> ngx_uint_t) list" where
  "ngx_check_http_expect_alive_masks =
     [(''http_2xx'', NGX_CHECK_HTTP_2XX), (''http_3xx'', NGX_CHECK_HTTP_3XX),
      (''http_4xx'', NGX_CHECK_HTTP_4XX), (''http_5xx'', NGX_CHECK_HTTP_5XX)]"

fun find_mask :: "(string \<times> ngx_uint_t) list \<Rightarrow> string \<Rightarrow> ngx_uint_t option" where
  "find_mask [] v = None"
| "find_mask ((name, m) # ms) v =
     (if length name \<noteq> length v \<or> ngx_strcasecmp name v \<noteq> 0 then find_mask ms v else Some m)"

fun expect_alive_loop :: "string list \<Rightarrow> ngx_uint_t \<Rightarrow> ngx_uint_t option" where
  "expect_alive_loop [] bit_set = Some bit_set"
| "expect_alive_loop (v # vs) bit_set =
     (case find_mask ngx_check_http_expect_alive_masks v of
        None \<Rightarrow> None
      | Some m \<Rightarrow> expect_alive_loop vs (if bit_set AND m \<noteq> 0 then bit_set else bit_set OR m))"

definition ngx_http_upstream_check_http_expect_alive ::
  "string list \<Rightarrow> ngx_upstream_check_srv_conf_t \<Rightarrow> conf_rc \<times> ngx_upstream_check_srv_conf_t" where
  "ngx_http_upstream_check_http_expect_alive args uc =
     (case expect_alive_loop (tl args) (uc_status_alive uc) of
        None \<Rightarrow> (NGX_CONF_ERROR, uc)
      | Some b \<Rightarrow> (NGX_CONF_OK, uc\<lparr>uc_status_alive := b\<rparr>))"

text \<open>\<open>ngx_upstream_check_http_body_regex\<close>: \<open>compiles\<close> tells whether PCRE accepts a pattern.\<close>

definition ngx_upstream_check_http_body_regex ::
  "(regex \<Rightarrow> bool) \<Rightarrow> string \<Rightarrow> bool \<Rightarrow> ngx_upstream_check_srv_conf_t
     \<Rightarrow> ngx_rc \<times> ngx_upstream_check_srv_conf_t" where
  "ngx_upstream_check_http_body_regex compiles pat caseless uc =
     (if \<not> compiles (pat, caseless) then (NGX_ERROR, uc)
      else (NGX_OK, uc\<lparr>uc_expect_body_regex := Some (pat, caseless)\<rparr>))"

definition ngx_upstream_check_http_body ::
  "(regex \<Rightarrow> bool) \<Rightarrow> string list \<Rightarrow> ngx_upstream_check_srv_conf_t \<Rightarrow> conf_rc \<times> ngx_upstream_check_srv_conf_t" where
  "ngx_upstream_check_http_body compiles args uc =
     (if length args \<noteq> 3 then (NGX_CONF_ERROR, uc)
      else if args ! 1 = ''~'' \<or> args ! 1 = ''~*'' then
        (case ngx_upstream_check_http_body_regex compiles (args ! 2) (args ! 1 = ''~*'') uc of
           (rc, uc) \<Rightarrow> (if rc \<noteq> NGX_OK then NGX_CONF_ERROR else NGX_CONF_OK, uc))
      else (NGX_CONF_ERROR, uc))"

text \<open>\<open>check_shm_size\<close>, on the size in the main configuration; an invalid size is stored all the same.\<close>

definition ngx_http_upstream_check_shm_size :: "string list \<Rightarrow> ngx_uint_t \<Rightarrow> conf_rc \<times> ngx_uint_t" where
  "ngx_http_upstream_check_shm_size args sz =
     (if sz \<noteq> 0 then (Conf_Message ''is duplicate'', sz)
      else
        let sz = word_of_int (ngx_parse_size (args ! 1)) :: ngx_uint_t
        in if sz = - 1 then (Conf_Message ''invalid value'', sz) else (NGX_CONF_OK, sz))"

text \<open>The stream module's copies of the directives.\<close>

definition ngx_stream_upstream_check_keepalive_requests ::
  "string list \<Rightarrow> ngx_upstream_check_srv_conf_t \<Rightarrow> conf_rc \<times> ngx_upstream_check_srv_conf_t" where
  "ngx_stream_upstream_check_keepalive_requests args uc =
     (let requests = word_of_int (ngx_atoi (args ! 1) (length (args ! 1))) :: ngx_uint_t
      in if requests = - 1 \<or> requests = 0 then (Conf_Message ''invalid value'', uc)
         else (NGX_CONF_OK, uc\<lparr>uc_check_keepalive_requests := requests\<rparr>))"

definition ngx_stream_upstream_check_http_send ::
  "string list \<Rightarrow> ngx_upstream_check_srv_conf_t \<Rightarrow> conf_rc \<times> ngx_upstream_check_srv_conf_t" where
  "ngx_stream_upstream_check_http_send args uc = (NGX_CONF_OK, uc\<lparr>uc_send := Some (args ! 1)\<rparr>)"

definition ngx_stream_upstream_check_http_expect_alive ::
  "string list \<Rightarrow> ngx_upstream_check_srv_conf_t \<Rightarrow> conf_rc \<times> ngx_upstream_check_srv_conf_t" where
  "ngx_stream_upstream_check_http_expect_alive args uc =
     (case expect_alive_loop (tl args) (uc_status_alive uc) of
        None \<Rightarrow> (NGX_CONF_ERROR, uc)
      | Some b \<Rightarrow> (NGX_CONF_OK, uc\<lparr>uc_status_alive := b\<rparr>))"

subsection \<open>Creating and completing a configuration\<close>

text \<open>The zeroed structure with the fields the code sets; \<open>expect_body_regex\<close> is \<open>None\<close> while it is
  \<open>NGX_CONF_UNSET_PTR\<close>. \<open>check_interval\<close> stays zero. The flags tell whether the allocations succeed.\<close>

definition unset_srv_conf :: ngx_upstream_check_srv_conf_t where
  "unset_srv_conf =
     \<lparr>uc_port = NGX_CONF_UNSET_UINT, uc_fall_count = NGX_CONF_UNSET_UINT, uc_rise_count = NGX_CONF_UNSET_UINT,
      uc_check_interval = 0, uc_check_timeout = NGX_CONF_UNSET_UINT,
      uc_check_keepalive_requests = NGX_CONF_UNSET_UINT, uc_check_type_conf = Unset_Ptr, uc_send = None,
      uc_status_alive = 0, uc_expect_body_regex = None, uc_fastcgi_params = [], uc_default_down = 0\<rparr>"

definition ngx_http_upstream_check_create_srv_conf ::
  "bool \<Rightarrow> bool \<Rightarrow> ngx_upstream_check_srv_conf_t option" where
  "ngx_http_upstream_check_create_srv_conf pcalloc array_create =
     (if \<not> pcalloc \<or> \<not> array_create then None else Some unset_srv_conf)"

definition ngx_stream_upstream_check_create_srv_conf ::
  "bool \<Rightarrow> ngx_upstream_check_srv_conf_t option" where
  "ngx_stream_upstream_check_create_srv_conf pcalloc = (if \<not> pcalloc then None else Some unset_srv_conf)"

text \<open>The numbers left unset, and the check type.\<close>

definition unset_uint :: "ngx_uint_t \<Rightarrow> ngx_uint_t \<Rightarrow> ngx_uint_t" where
  "unset_uint n d = (if n = NGX_CONF_UNSET_UINT then d else n)"

definition init_numbers :: "ngx_upstream_check_srv_conf_t \<Rightarrow> ngx_upstream_check_srv_conf_t" where
  "init_numbers uc =
     uc\<lparr>uc_port := unset_uint (uc_port uc) 0,
        uc_fall_count := unset_uint (uc_fall_count uc) 2,
        uc_rise_count := unset_uint (uc_rise_count uc) 5,
        uc_check_interval := unset_uint (uc_check_interval uc) 0,
        uc_check_timeout := unset_uint (uc_check_timeout uc) 1000,
        uc_check_keepalive_requests := unset_uint (uc_check_keepalive_requests uc) 1,
        uc_check_type_conf := (if uc_check_type_conf uc = Unset_Ptr then Null_Ptr else uc_check_type_conf uc)\<rparr>"

text \<open>\<open>ngx_http_upstream_check_init_srv_conf\<close> on an upstream's \<open>srv_conf\<close>, \<open>None\<close> when it is \<open>NULL\<close>.
  \<open>default_request\<close> is the static \<open>fastcgi_default_request\<close>, \<open>alloc\<close> tells whether the request's buffer
  can be allocated, \<open>junk\<close> is what it held. The outer \<open>None\<close> is a write behind that buffer.\<close>

fun param_pairs :: "string list \<Rightarrow> (string \<times> string) list" where
  "param_pairs (k # v # ps) = (k, v) # param_pairs ps"
| "param_pairs ps = []"

definition init_send ::
  "string \<Rightarrow> bool \<Rightarrow> string \<Rightarrow> ngx_check_conf_t \<Rightarrow> ngx_upstream_check_srv_conf_t
     \<Rightarrow> (conf_rc \<times> ngx_upstream_check_srv_conf_t) option" where
  "init_send default_request alloc junk check uc =
     (if \<not> (case uc_send uc of None \<Rightarrow> True | Some s \<Rightarrow> s = []) then Some (NGX_CONF_OK, uc)
      else if Some check = ngx_http_get_check_type_conf ''fastcgi'' then
        (if uc_fastcgi_params uc = [] then Some (NGX_CONF_OK, uc\<lparr>uc_send := Some default_request\<rparr>)
         else if \<not> alloc then Some (NGX_CONF_ERROR, uc)
         else
           (case ngx_http_upstream_check_create_fastcgi_request junk (param_pairs (uc_fastcgi_params uc)) of
              None \<Rightarrow> None
            | Some b \<Rightarrow> Some (NGX_CONF_OK, uc\<lparr>uc_send := Some b\<rparr>)))
      else Some (NGX_CONF_OK, uc\<lparr>uc_send := ct_default_send check\<rparr>))"

definition init_alive :: "ngx_check_conf_t \<Rightarrow> ngx_upstream_check_srv_conf_t \<Rightarrow> ngx_upstream_check_srv_conf_t" where
  "init_alive check uc =
     (if uc_status_alive uc = 0 then uc\<lparr>uc_status_alive := ct_default_status_alive check\<rparr> else uc)"

definition ngx_http_upstream_check_init_srv_conf ::
  "string \<Rightarrow> bool \<Rightarrow> string \<Rightarrow> ngx_upstream_check_srv_conf_t option
     \<Rightarrow> (conf_rc \<times> ngx_upstream_check_srv_conf_t option) option" where
  "ngx_http_upstream_check_init_srv_conf default_request alloc junk srv_conf =
     (case srv_conf of
        None \<Rightarrow> Some (NGX_CONF_OK, None)
      | Some uc \<Rightarrow>
          let uc = init_numbers uc
          in (case uc_check_type_conf uc of
                Ptr check \<Rightarrow>
                  (case init_send default_request alloc junk check uc of
                     None \<Rightarrow> None
                   | Some (rc, uc) \<Rightarrow>
                       if rc \<noteq> NGX_CONF_OK then Some (rc, Some uc)
                       else Some (NGX_CONF_OK, Some (init_alive check uc)))
              | _ \<Rightarrow> Some (NGX_CONF_OK, Some uc)))"

text \<open>\<open>ngx_stream_upstream_check_init_srv_conf\<close>: the default request replaces a \<open>NULL\<close> one only, and a
  \<open>NULL\<close> check type is dereferenced when a default is missing, which is \<open>None\<close>.\<close>

definition ngx_stream_upstream_check_init_srv_conf ::
  "ngx_upstream_check_srv_conf_t option \<Rightarrow> (conf_rc \<times> ngx_upstream_check_srv_conf_t option) option" where
  "ngx_stream_upstream_check_init_srv_conf srv_conf =
     (case srv_conf of
        None \<Rightarrow> Some (NGX_CONF_OK, None)
      | Some uc \<Rightarrow>
          if uc_check_type_conf uc = Unset_Ptr then Some (NGX_CONF_OK, Some (init_numbers uc))
          else
            let uc = init_numbers uc
            in (case uc_check_type_conf uc of
                  Ptr check \<Rightarrow>
                    let uc = (if uc_send uc = None then uc\<lparr>uc_send := ct_default_send check\<rparr> else uc)
                    in Some (NGX_CONF_OK, Some (init_alive check uc))
                | _ \<Rightarrow> if uc_send uc = None \<or> uc_status_alive uc = 0 then None
                       else Some (NGX_CONF_OK, Some uc)))"

subsection \<open>The directives of an upstream\<close>

text \<open>An \<open>upstream\<close> block of the http configuration: the module's directives in order, on the created
  configuration. The first failure ends the start of nginx.\<close>

datatype directive =
    D_Check "string list" | D_Keepalive "string list" | D_Http_Send "string list"
  | D_Fastcgi_Param "string list" | D_Expect_Alive "string list" | D_Expect_Body "string list"

definition http_directive ::
  "(regex \<Rightarrow> bool) \<Rightarrow> directive \<Rightarrow> ngx_upstream_check_srv_conf_t option
     \<Rightarrow> conf_rc \<times> ngx_upstream_check_srv_conf_t option" where
  "http_directive compiles d ucscf =
     (case d of
        D_Check args \<Rightarrow> ngx_http_upstream_check args ucscf
      | _ \<Rightarrow>
        (case ucscf of
           None \<Rightarrow> (NGX_CONF_ERROR, None)
         | Some uc \<Rightarrow>
             map_prod id Some
               (case d of
                  D_Check args \<Rightarrow> (NGX_CONF_ERROR, uc)
                | D_Keepalive args \<Rightarrow> ngx_http_upstream_check_keepalive_requests args uc
                | D_Http_Send args \<Rightarrow> ngx_http_upstream_check_http_send args uc
                | D_Fastcgi_Param args \<Rightarrow> ngx_http_upstream_check_fastcgi_params True True [] args uc
                | D_Expect_Alive args \<Rightarrow> ngx_http_upstream_check_http_expect_alive args uc
                | D_Expect_Body args \<Rightarrow> ngx_upstream_check_http_body compiles args uc)))"

fun http_block ::
  "(regex \<Rightarrow> bool) \<Rightarrow> directive list \<Rightarrow> ngx_upstream_check_srv_conf_t \<Rightarrow> ngx_upstream_check_srv_conf_t option" where
  "http_block compiles [] uc = Some uc"
| "http_block compiles (d # ds) uc =
     (case http_directive compiles d (Some uc) of
        (NGX_CONF_OK, Some uc) \<Rightarrow> http_block compiles ds uc
      | _ \<Rightarrow> None)"

subsection \<open>Lemmas\<close>

text \<open>What an accepted \<open>check\<close> directive leaves: positive numbers that fit the signed range, and a
  row of the table.\<close>

definition count_ok :: "ngx_uint_t \<Rightarrow> bool" where
  "count_ok n \<longleftrightarrow> 0 < unat n \<and> int (unat n) \<le> NGX_MAX_INT_T_VALUE"

definition check_args_ok :: "check_args \<Rightarrow> bool" where
  "check_args_ok a \<longleftrightarrow> count_ok (ca_rise a) \<and> count_ok (ca_fall a) \<and> count_ok (ca_interval a)
     \<and> count_ok (ca_timeout a) \<and> (ca_port a = 0 \<or> count_ok (ca_port a)) \<and> ca_default_down a \<in> {0, 1}"

definition type_in :: "ngx_check_conf_t list \<Rightarrow> ngx_upstream_check_srv_conf_t \<Rightarrow> bool" where
  "type_in ts uc \<longleftrightarrow> uc_check_type_conf uc \<in> Ptr ` set ts"

definition checked_conf :: "ngx_check_conf_t list \<Rightarrow> ngx_upstream_check_srv_conf_t \<Rightarrow> bool" where
  "checked_conf ts uc \<longleftrightarrow> type_in ts uc
     \<and> count_ok (uc_rise_count uc) \<and> count_ok (uc_fall_count uc) \<and> count_ok (uc_check_interval uc)
     \<and> count_ok (uc_check_timeout uc) \<and> (uc_port uc = 0 \<or> count_ok (uc_port uc)) \<and> uc_default_down uc \<in> {0, 1}"

lemma unat_word_of_int: "0 \<le> k \<Longrightarrow> k \<le> NGX_MAX_INT_T_VALUE \<Longrightarrow> unat (word_of_int k :: ngx_uint_t) = nat k"
  by (simp add: unsigned_of_int take_bit_int_eq_self)

lemma atoi_word_ok:
  fixes s :: string
  assumes "word_of_int (ngx_atoi s n) \<noteq> (- 1 :: ngx_uint_t)" "word_of_int (ngx_atoi s n) \<noteq> (0 :: ngx_uint_t)"
  shows "count_ok (word_of_int (ngx_atoi s n))"
proof -
  from ngx_atoi_range [of s n] assms(1)
  have r: "0 \<le> ngx_atoi s n" "ngx_atoi s n \<le> NGX_MAX_INT_T_VALUE" by auto
  moreover from assms(2) have "ngx_atoi s n \<noteq> 0" by auto
  ultimately show ?thesis unfolding count_ok_def unat_word_of_int [OF r] by linarith
qed

lemma arg_num_ok: "arg_num key v = Some n \<Longrightarrow> count_ok n"
  unfolding arg_num_def Let_def by (auto intro: atoi_word_ok split: if_splits)

lemma arg_num_printed:
  assumes "count_ok n"
  shows "arg_num key (key @ ngx_sprintf_num (unat n)) = Some n"
proof -
  have "ngx_atoi (ngx_sprintf_num (unat n)) (length (ngx_sprintf_num (unat n))) = int (unat n)"
    using assms ngx_sprintf_num_digits [of "unat n"] by (simp add: ngx_atoi_eq dec_value_sprintf_num count_ok_def)
  moreover have "n \<noteq> - 1" "n \<noteq> 0" using assms by (auto simp: count_ok_def unsigned_minus_1_eq_mask mask_eq_exp_minus_1)
  ultimately show ?thesis by (simp add: arg_num_def)
qed

lemma find_check_type_in: "find_check_type ts s = Some t \<Longrightarrow> t \<in> set ts"
  by (induction ts) (auto split: if_splits)

lemma check_arg_keeps:
  "check_arg get_type v a uc = Inr (a', uc') \<Longrightarrow> \<exists>x. uc' = uc\<lparr>uc_check_type_conf := x\<rparr>"
  by (auto simp: check_arg_def split: if_splits option.splits)
    (metis ngx_upstream_check_srv_conf_t.surjective ngx_upstream_check_srv_conf_t.update_convs(7))+

lemma check_loop_keeps:
  "check_loop g vs a uc = Inr (a', uc') \<Longrightarrow> \<exists>x. uc' = uc\<lparr>uc_check_type_conf := x\<rparr>"
proof (induction vs arbitrary: a uc)
  case Nil
  then show ?case
    by simp (metis ngx_upstream_check_srv_conf_t.surjective ngx_upstream_check_srv_conf_t.update_convs(7))
next
  case (Cons v vs)
  then show ?case by (fastforce split: sum.splits dest!: check_arg_keeps)
qed

lemma check_args_ok_update:
  assumes "check_args_ok a"
  shows "count_ok n \<Longrightarrow> check_args_ok (a\<lparr>ca_port := n\<rparr>)" "count_ok n \<Longrightarrow> check_args_ok (a\<lparr>ca_interval := n\<rparr>)"
    "count_ok n \<Longrightarrow> check_args_ok (a\<lparr>ca_timeout := n\<rparr>)" "count_ok n \<Longrightarrow> check_args_ok (a\<lparr>ca_rise := n\<rparr>)"
    "count_ok n \<Longrightarrow> check_args_ok (a\<lparr>ca_fall := n\<rparr>)"
    "check_args_ok (a\<lparr>ca_default_down := 0\<rparr>)" "check_args_ok (a\<lparr>ca_default_down := 1\<rparr>)"
  using assms by (simp_all add: check_args_ok_def)

lemma check_defaults_ok: "check_args_ok check_defaults"
  by (simp add: check_args_ok_def check_defaults_def count_ok_def)

text \<open>What the \<open>check\<close> directive relies on: a lookup that gives rows of the module's table and knows
  \<open>tcp\<close>. An accepted directive then leaves a complete configuration.\<close>

locale check_type_table =
  fixes get_type :: "string \<Rightarrow> ngx_check_conf_t option" and ts :: "ngx_check_conf_t list"
  assumes get_type_in: "get_type s = Some t \<Longrightarrow> t \<in> set ts"
    and get_type_tcp: "get_type ''tcp'' \<noteq> None"
begin

definition typed :: "ngx_upstream_check_srv_conf_t \<Rightarrow> bool" where
  "typed uc \<longleftrightarrow> type_in ts uc \<or> uc_check_type_conf uc = Unset_Ptr"

lemma check_arg_ok:
  assumes "check_arg get_type v a uc = Inr (a', uc')" "check_args_ok a" "typed uc"
  shows "check_args_ok a' \<and> typed uc'"
proof
  show "check_args_ok a'"
    using assms(1,2) by (auto simp: check_arg_def check_args_ok_update dest: arg_num_ok split: if_splits option.splits)
  show "typed uc'"
    using assms(1,3) get_type_in
    by (auto simp: check_arg_def split: if_splits option.splits) (auto simp: type_in_def typed_def)
qed

lemma check_loop_ok:
  assumes "check_loop get_type vs a uc = Inr (a', uc')" "check_args_ok a" "typed uc"
  shows "check_args_ok a' \<and> typed uc'"
  using assms
proof (induction vs arbitrary: a uc)
  case (Cons v vs)
  from Cons.prems(1) obtain b ud where s: "check_arg get_type v a uc = Inr (b, ud)"
    and l: "check_loop get_type vs b ud = Inr (a', uc')" by (auto split: sum.splits)
  from Cons.IH [OF l] check_arg_ok [OF s Cons.prems(2,3)] show ?case by auto
qed simp

lemma check_store_ok:
  assumes "check_args_ok a" "typed uc"
  shows "checked_conf ts (check_store get_type a uc)"
  using assms get_type_in get_type_tcp
  by (auto simp: check_store_def Let_def checked_conf_def check_args_ok_def type_in_def typed_def)

lemma check_run_ok:
  assumes "check_loop get_type vs check_defaults uc = Inr (a, ud)" "typed uc"
  shows "checked_conf ts (check_store get_type a ud)"
    "uc_check_keepalive_requests (check_store get_type a ud) = uc_check_keepalive_requests uc"
  using check_loop_ok [OF assms(1) check_defaults_ok assms(2)] check_loop_keeps [OF assms(1)] check_store_ok
  by (auto simp: check_store_def Let_def)

end

lemma type_rows:
  "ngx_http_get_check_type_conf s = Some t \<Longrightarrow> t \<in> set ngx_check_types"
  "ngx_stream_get_check_type_conf s = Some t \<Longrightarrow> t \<in> set ngx_stream_check_types"
  by (auto simp: ngx_http_get_check_type_conf_def ngx_stream_get_check_type_conf_def dest: find_check_type_in)

lemma tcp_row:
  "ngx_http_get_check_type_conf ''tcp'' \<noteq> None" "ngx_stream_get_check_type_conf ''tcp'' \<noteq> None"
  by (simp_all add: ngx_http_get_check_type_conf_def ngx_stream_get_check_type_conf_def find_check_type_None
      ngx_check_types_def ngx_stream_check_types_def)

interpretation http_types: check_type_table ngx_http_get_check_type_conf ngx_check_types
  by unfold_locales (rule type_rows tcp_row, assumption?)+

interpretation stream_types: check_type_table ngx_stream_get_check_type_conf ngx_stream_check_types
  by unfold_locales (rule type_rows tcp_row, assumption?)+

lemma check_directive_ok:
  assumes "http_types.typed uc" "ngx_http_upstream_check args (Some uc) = (NGX_CONF_OK, r)"
  shows "\<exists>uc'. r = Some uc' \<and> checked_conf ngx_check_types uc'
    \<and> uc_check_keepalive_requests uc' = uc_check_keepalive_requests uc"
  using assms http_types.check_run_ok
  by (auto simp: ngx_http_upstream_check_def split: sum.splits)

text \<open>The configuration between two directives of a block.\<close>

definition block_conf :: "ngx_upstream_check_srv_conf_t \<Rightarrow> bool" where
  "block_conf uc \<longleftrightarrow>
     (checked_conf ngx_check_types uc \<or> uc_check_type_conf uc = Unset_Ptr \<and> uc_check_interval uc = 0)
     \<and> (uc_check_keepalive_requests uc = NGX_CONF_UNSET_UINT \<or> count_ok (uc_check_keepalive_requests uc))"

lemma checked_conf_simps [simp]:
  "checked_conf ts (uc\<lparr>uc_check_keepalive_requests := n\<rparr>) = checked_conf ts uc"
  "checked_conf ts (uc\<lparr>uc_send := x\<rparr>) = checked_conf ts uc"
  "checked_conf ts (uc\<lparr>uc_status_alive := b\<rparr>) = checked_conf ts uc"
  "checked_conf ts (uc\<lparr>uc_fastcgi_params := ps\<rparr>) = checked_conf ts uc"
  "checked_conf ts (uc\<lparr>uc_expect_body_regex := re\<rparr>) = checked_conf ts uc"
  by (simp_all add: checked_conf_def type_in_def)

lemma http_directive_ok:
  assumes "block_conf uc" "http_directive compiles d (Some uc) = (NGX_CONF_OK, r)"
  shows "\<exists>uc'. r = Some uc' \<and> block_conf uc'
    \<and> (uc_check_interval uc' = 0 \<longleftrightarrow> uc_check_interval uc = 0 \<and> (\<forall>args. d \<noteq> D_Check args))"
proof (cases d)
  case (D_Check args)
  from assms(1) have "http_types.typed uc"
    by (auto simp: block_conf_def checked_conf_def http_types.typed_def)
  moreover from assms(2) D_Check have "ngx_http_upstream_check args (Some uc) = (NGX_CONF_OK, r)"
    by (simp add: http_directive_def)
  ultimately obtain uc' where uc': "r = Some uc'" "checked_conf ngx_check_types uc'"
    "uc_check_keepalive_requests uc' = uc_check_keepalive_requests uc"
    using check_directive_ok by blast
  then have "uc_check_interval uc' \<noteq> 0" by (auto simp: checked_conf_def count_ok_def)
  with assms(1) uc' D_Check show ?thesis by (auto simp: block_conf_def)
next
  case (D_Keepalive args)
  with assms show ?thesis
    by (auto simp: http_directive_def block_conf_def ngx_http_upstream_check_keepalive_requests_def Let_def
        split: if_splits intro: atoi_word_ok)
qed (use assms in \<open>auto simp: http_directive_def block_conf_def ngx_http_upstream_check_http_send_def
      ngx_http_upstream_check_fastcgi_params_def ngx_http_upstream_check_http_expect_alive_def
      ngx_upstream_check_http_body_def ngx_upstream_check_http_body_regex_def split: option.splits if_splits\<close>)

lemma http_block_ok:
  assumes "http_block compiles ds uc = Some uc'" "block_conf uc"
  shows "block_conf uc' \<and> (uc_check_interval uc' = 0 \<longleftrightarrow> uc_check_interval uc = 0 \<and> (\<forall>args. D_Check args \<notin> set ds))"
  using assms
proof (induction ds arbitrary: uc)
  case (Cons d ds)
  from Cons.prems(1) obtain ud where d: "http_directive compiles d (Some uc) = (NGX_CONF_OK, Some ud)"
    and b: "http_block compiles ds ud = Some uc'"
    by (auto split: prod.splits conf_rc.splits option.splits)
  from http_directive_ok [OF Cons.prems(2) d] Cons.IH [OF b] show ?case by auto
qed simp

text \<open>Reading back a printed \<open>check\<close> directive.\<close>

definition check_directive_of :: "ngx_check_conf_t \<Rightarrow> check_args \<Rightarrow> string list" where
  "check_directive_of cf a =
     [''check'', ''interval='' @ ngx_sprintf_num (unat (ca_interval a)),
      ''rise='' @ ngx_sprintf_num (unat (ca_rise a)), ''fall='' @ ngx_sprintf_num (unat (ca_fall a)),
      ''timeout='' @ ngx_sprintf_num (unat (ca_timeout a)), ''port='' @ ngx_sprintf_num (unat (ca_port a)),
      ''default_down='' @ (if ca_default_down a = 0 then ''false'' else ''true''), ''type='' @ ct_name cf]"

lemma check_arg_num:
  assumes "count_ok n"
  shows "check_arg g (''interval='' @ ngx_sprintf_num (unat n)) a uc = Inr (a\<lparr>ca_interval := n\<rparr>, uc)"
    "check_arg g (''timeout='' @ ngx_sprintf_num (unat n)) a uc = Inr (a\<lparr>ca_timeout := n\<rparr>, uc)"
    "check_arg g (''rise='' @ ngx_sprintf_num (unat n)) a uc = Inr (a\<lparr>ca_rise := n\<rparr>, uc)"
    "check_arg g (''fall='' @ ngx_sprintf_num (unat n)) a uc = Inr (a\<lparr>ca_fall := n\<rparr>, uc)"
    "check_arg g (''port='' @ ngx_sprintf_num (unat n)) a uc = Inr (a\<lparr>ca_port := n\<rparr>, uc)"
  using arg_num_printed [OF assms, of "''interval=''"] arg_num_printed [OF assms, of "''timeout=''"]
    arg_num_printed [OF assms, of "''rise=''"] arg_num_printed [OF assms, of "''fall=''"]
    arg_num_printed [OF assms, of "''port=''"]
  by (simp_all add: check_arg_def arg_is_def c_hd_def numeral_eq_Suc)

lemma check_arg_down:
  "check_arg g (''default_down='' @ ''true'') a uc = Inr (a\<lparr>ca_default_down := 1\<rparr>, uc)"
  "check_arg g (''default_down='' @ ''false'') a uc = Inr (a\<lparr>ca_default_down := 0\<rparr>, uc)"
  by (simp_all add: check_arg_def arg_is_def c_hd_def c_lower_def numeral_eq_Suc ngx_strcasecmp.simps)

lemma check_arg_type:
  "g s = Some t \<Longrightarrow> check_arg g (''type='' @ s) a uc = Inr (a, uc\<lparr>uc_check_type_conf := Ptr t\<rparr>)"
  by (simp add: check_arg_def arg_is_def c_hd_def numeral_eq_Suc)

lemma find_check_type_name:
  "distinct (map ct_name ts) \<Longrightarrow> \<forall>t \<in> set ts. NUL \<notin> set (ct_name t) \<Longrightarrow> cf \<in> set ts \<Longrightarrow>
     find_check_type ts (ct_name cf) = Some cf"
  by (induction ts) (auto simp: ngx_strncmp_same_length', metis image_eqI)

lemma get_type_name:
  assumes "cf \<in> set ngx_check_types"
  shows "ngx_http_get_check_type_conf (ct_name cf) = Some cf"
  using assms find_check_type_name [of ngx_check_types cf]
  by (simp add: ngx_http_get_check_type_conf_def, simp add: ngx_check_types_def)

text \<open>The request a completed configuration sends: none of a check type that sends one is empty.\<close>

definition sends :: "ngx_check_conf_t \<Rightarrow> bool" where
  "sends cf \<longleftrightarrow> ct_default_send cf \<noteq> None \<or> ct_name cf = ''fastcgi''"

definition complete_conf :: "ngx_upstream_check_srv_conf_t \<Rightarrow> bool" where
  "complete_conf uc \<longleftrightarrow> checked_conf ngx_check_types uc \<and> count_ok (uc_check_keepalive_requests uc)
     \<and> (\<forall>cf. uc_check_type_conf uc = Ptr cf \<longrightarrow>
          (sends cf \<longrightarrow> (\<exists>s. uc_send uc = Some s \<and> s \<noteq> []))
          \<and> (ct_default_status_alive cf \<noteq> 0 \<longrightarrow> uc_status_alive uc \<noteq> 0))"

lemma default_sends:
  "cf \<in> set ngx_check_types \<Longrightarrow> ct_default_send cf = Some s \<Longrightarrow> s \<noteq> []"
proof -
  have "list_all (\<lambda>cf. ct_default_send cf \<noteq> Some []) ngx_check_types"
    by (simp add: ngx_check_types_def http_default_send_def sslv3_client_hello_pkt_def ngx_ajp_cping_packet_def
        bytes_of_def)
  then show "cf \<in> set ngx_check_types \<Longrightarrow> ct_default_send cf = Some s \<Longrightarrow> s \<noteq> []"
    by (auto simp: list_all_iff)
qed

lemma fastcgi_request_fits:
  assumes "\<forall>(k, v) \<in> set ps. length k \<le> 127"
  shows "\<exists>b. ngx_http_upstream_check_create_fastcgi_request junk ps = Some b \<and> b \<noteq> []"
proof -
  have "filter (\<lambda>(k, v). length k > 127) ps = []" using assms by (auto simp: filter_empty_conv)
  then show ?thesis
    by (simp add: ngx_http_upstream_check_create_fastcgi_request_def Let_def fastcgi_request_size_def
        length_fastcgi_params_bytes ngx_http_fastcgi_request_start_def bytes_of_def)
qed

lemma not_count_unset: "\<not> count_ok NGX_CONF_UNSET_UINT"
  by (simp add: count_ok_def unsigned_minus_1_eq_mask mask_eq_exp_minus_1)

lemma unset_uint_ok: "count_ok n \<Longrightarrow> unset_uint n d = n" "unset_uint 0 d = 0"
  using not_count_unset by (auto simp: unset_uint_def)

lemma init_numbers_checked:
  assumes "block_conf uc" "uc_check_interval uc \<noteq> 0"
  shows "checked_conf ngx_check_types (init_numbers uc) \<and> count_ok (uc_check_keepalive_requests (init_numbers uc))
    \<and> uc_fastcgi_params (init_numbers uc) = uc_fastcgi_params uc
    \<and> uc_check_interval (init_numbers uc) = uc_check_interval uc"
proof -
  from assms have c: "checked_conf ngx_check_types uc" by (auto simp: block_conf_def)
  have "count_ok (unset_uint (uc_check_keepalive_requests uc) 1)"
    using assms(1) by (auto simp: block_conf_def unset_uint_def count_ok_def)
  with c show ?thesis
    by (auto simp: checked_conf_def type_in_def init_numbers_def unset_uint_ok)
qed

lemma init_send_ok:
  assumes "cf \<in> set ngx_check_types" "dr \<noteq> []" "\<forall>(k, v) \<in> set (param_pairs (uc_fastcgi_params uc)). length k \<le> 127"
  shows "\<exists>s. init_send dr True junk cf uc = Some (NGX_CONF_OK, uc\<lparr>uc_send := s\<rparr>)
    \<and> (sends cf \<longrightarrow> (\<exists>b. s = Some b \<and> b \<noteq> []))"
proof -
  obtain b where b: "ngx_http_upstream_check_create_fastcgi_request junk (param_pairs (uc_fastcgi_params uc)) = Some b"
    "b \<noteq> []" using fastcgi_request_fits [OF assms(3)] by blast
  have f: "Some cf = ngx_http_get_check_type_conf ''fastcgi'' \<longleftrightarrow> ct_name cf = ''fastcgi''"
    using get_type_name [OF assms(1)] find_check_type_Some [of "''fastcgi''" ngx_check_types cf]
    by (auto simp: ngx_http_get_check_type_conf_def)
  show ?thesis
    using assms(2) b default_sends [OF assms(1)]
    by (cases "uc_send uc") (auto simp: init_send_def f sends_def intro: exI [of _ "uc_send uc"])
qed

lemma init_srv_conf_complete:
  assumes "block_conf uc" "uc_check_interval uc \<noteq> 0" "dr \<noteq> []"
    and "\<forall>(k, v) \<in> set (param_pairs (uc_fastcgi_params uc)). length k \<le> 127"
  shows "\<exists>uc'. ngx_http_upstream_check_init_srv_conf dr True junk (Some uc) = Some (NGX_CONF_OK, Some uc')
    \<and> complete_conf uc' \<and> uc_check_interval uc' = uc_check_interval uc"
proof -
  let ?n = "init_numbers uc"
  note ck = init_numbers_checked [OF assms(1,2)]
  then obtain cf where cf: "uc_check_type_conf ?n = Ptr cf" "cf \<in> set ngx_check_types"
    by (auto simp: checked_conf_def type_in_def)
  obtain s where s: "init_send dr True junk cf ?n = Some (NGX_CONF_OK, ?n\<lparr>uc_send := s\<rparr>)"
    "sends cf \<longrightarrow> (\<exists>b. s = Some b \<and> b \<noteq> [])"
    using init_send_ok [OF cf(2) assms(3), of ?n junk] assms(4) ck by auto
  then show ?thesis
    using ck cf
    by (simp add: ngx_http_upstream_check_init_srv_conf_def Let_def init_alive_def complete_conf_def)
qed

lemma unset_block_conf: "block_conf unset_srv_conf" "uc_check_interval unset_srv_conf = 0"
  by (simp_all add: block_conf_def unset_srv_conf_def)

lemma param_pairs_snoc: "even (length xs) \<Longrightarrow> param_pairs (xs @ [k, v]) = param_pairs xs @ [(k, v)]"
  by (induction xs rule: param_pairs.induct) auto

text \<open>The parameters come in pairs, and only \<open>check_fastcgi_param\<close> adds some.\<close>

definition params_ok :: "string list \<Rightarrow> bool" where
  "params_ok ps \<longleftrightarrow> even (length ps) \<and> (\<forall>(k, v) \<in> set (param_pairs ps). length k \<le> 127)"

lemma http_directive_params:
  assumes "http_directive compiles d (Some uc) = (NGX_CONF_OK, Some ud)" "params_ok (uc_fastcgi_params uc)"
    and "\<And>args. d = D_Fastcgi_Param args \<Longrightarrow> length (args ! 1) \<le> 127"
  shows "params_ok (uc_fastcgi_params ud)"
proof (cases d)
  case (D_Check args)
  with assms(1) obtain a uc' where l: "check_loop ngx_http_get_check_type_conf (tl args) check_defaults uc = Inr (a, uc')"
    and "ud = check_store ngx_http_get_check_type_conf a uc'"
    by (auto simp: http_directive_def ngx_http_upstream_check_def split: sum.splits)
  with check_loop_keeps [OF l] assms(2) show ?thesis by (auto simp: check_store_def Let_def)
next
  case (D_Fastcgi_Param args)
  with assms show ?thesis
    by (auto simp: http_directive_def ngx_http_upstream_check_fastcgi_params_def params_ok_def param_pairs_snoc)
qed (use assms in \<open>auto simp: http_directive_def ngx_http_upstream_check_keepalive_requests_def Let_def
      ngx_http_upstream_check_http_send_def ngx_http_upstream_check_http_expect_alive_def
      ngx_upstream_check_http_body_def ngx_upstream_check_http_body_regex_def split: option.splits if_splits\<close>)

lemma http_block_params:
  assumes "http_block compiles ds uc = Some uc'" "params_ok (uc_fastcgi_params uc)"
    and "\<And>args. D_Fastcgi_Param args \<in> set ds \<Longrightarrow> length (args ! 1) \<le> 127"
  shows "params_ok (uc_fastcgi_params uc')"
  using assms
proof (induction ds arbitrary: uc)
  case (Cons d ds)
  from Cons.prems(1) obtain ud where d: "http_directive compiles d (Some uc) = (NGX_CONF_OK, Some ud)"
    and b: "http_block compiles ds ud = Some uc'"
    by (auto split: prod.splits conf_rc.splits option.splits)
  from Cons.IH [OF b http_directive_params [OF d Cons.prems(2)]] Cons.prems(3) show ?case by simp
qed simp

subsection \<open>Properties\<close>

text \<open>C35: An accepted \<open>check\<close> directive of the http module leaves a configuration that can be used:
  a row of the table as its type, positive interval, timeout, rise and fall that fit the signed range,
  and a \<open>default_down\<close> that is 0 or 1.\<close>

theorem check_directive_sound:
  assumes "type_in ngx_check_types uc \<or> uc_check_type_conf uc = Unset_Ptr"
    and "ngx_http_upstream_check args (Some uc) = (NGX_CONF_OK, r)"
  shows "\<exists>uc'. r = Some uc' \<and> checked_conf ngx_check_types uc'"
  using check_directive_ok [OF _ assms(2)] assms(1) by (auto simp: http_types.typed_def)

lemma check_directive_sound_witness:
  "\<exists>uc'. ngx_http_upstream_check [''check'', ''rise=3'', ''type=http''] (Some unset_srv_conf) = (NGX_CONF_OK, Some uc')
    \<and> checked_conf ngx_check_types uc'"
proof -
  have h: "fst (ngx_http_upstream_check [''check'', ''rise=3'', ''type=http''] (Some unset_srv_conf)) = NGX_CONF_OK"
    by code_simp
  have "uc_check_type_conf unset_srv_conf = Unset_Ptr" by (simp add: unset_srv_conf_def)
  with check_directive_sound [of unset_srv_conf "[''check'', ''rise=3'', ''type=http'']"] h show ?thesis
    by (metis prod.collapse)
qed

text \<open>C36: Printing the parameters of a \<open>check\<close> directive and reading it back stores exactly them.\<close>

theorem check_directive_roundtrip:
  assumes "check_args_ok a" "ca_port a \<noteq> 0" "cf \<in> set ngx_check_types"
  shows "ngx_http_upstream_check (check_directive_of cf a) (Some uc) =
    (NGX_CONF_OK, Some (uc\<lparr>uc_check_type_conf := Ptr cf, uc_port := ca_port a, uc_check_interval := ca_interval a,
       uc_check_timeout := ca_timeout a, uc_fall_count := ca_fall a, uc_rise_count := ca_rise a,
       uc_default_down := ca_default_down a\<rparr>))"
proof -
  from assms have n: "count_ok (ca_rise a)" "count_ok (ca_fall a)" "count_ok (ca_interval a)"
    "count_ok (ca_timeout a)" "count_ok (ca_port a)" "ca_default_down a \<in> {0, 1}"
    by (auto simp: check_args_ok_def)
  have l: "check_loop ngx_http_get_check_type_conf (tl (check_directive_of cf a)) check_defaults uc
      = Inr (a, uc\<lparr>uc_check_type_conf := Ptr cf\<rparr>)"
    unfolding check_directive_of_def list.sel check_loop.simps check_arg_num(1) [OF n(3)]
      check_arg_num(2) [OF n(4)] check_arg_num(3) [OF n(1)] check_arg_num(4) [OF n(2)] check_arg_num(5) [OF n(5)]
      check_arg_type [of ngx_http_get_check_type_conf, OF get_type_name [OF assms(3)]] sum.case prod.case
    using n(6) check_arg_down by (auto simp: check_arg_type [of ngx_http_get_check_type_conf, OF get_type_name [OF assms(3)], simplified] check_defaults_def)
  show ?thesis unfolding ngx_http_upstream_check_def option.case l by (simp add: check_store_def)
qed

definition sample_args :: check_args where
  "sample_args = \<lparr>ca_port = 80, ca_rise = 2, ca_fall = 3, ca_interval = 500, ca_timeout = 100, ca_default_down = 0\<rparr>"

lemma check_directive_roundtrip_witness:
  "ngx_http_upstream_check
     [''check'', ''interval=500'', ''rise=2'', ''fall=3'', ''timeout=100'', ''port=80'', ''default_down=false'',
      ''type=http''] (Some unset_srv_conf) =
    (NGX_CONF_OK, Some (unset_srv_conf\<lparr>uc_check_type_conf := Ptr (ngx_check_types ! 1), uc_port := 80,
       uc_check_interval := 500, uc_check_timeout := 100, uc_fall_count := 3, uc_rise_count := 2,
       uc_default_down := 0\<rparr>))"
proof -
  have "check_directive_of (ngx_check_types ! 1) sample_args =
      [''check'', ''interval=500'', ''rise=2'', ''fall=3'', ''timeout=100'', ''port=80'', ''default_down=false'',
       ''type=http'']"
    by code_simp
  moreover have "check_args_ok sample_args" by (simp add: check_args_ok_def sample_args_def count_ok_def)
  moreover have "ngx_check_types ! 1 \<in> set ngx_check_types" by (simp add: ngx_check_types_def)
  ultimately show ?thesis
    using check_directive_roundtrip [of sample_args "ngx_check_types ! 1" unset_srv_conf]
    by (simp add: sample_args_def)
qed



text \<open>In the stream module an accepted \<open>check\<close> directive leaves a configuration that
  \<open>init_srv_conf\<close> completes without dereferencing a missing check type: a row of the module's table, positive
  numbers, and the default request of the type unless one was configured.\<close>

theorem stream_check_init:
  assumes "type_in ngx_stream_check_types uc \<or> uc_check_type_conf uc = Unset_Ptr"
    and "ngx_stream_upstream_check args (Some uc) = (NGX_CONF_OK, r)"
  shows "\<exists>uc' cf. ngx_stream_upstream_check_init_srv_conf r = Some (NGX_CONF_OK, Some uc')
    \<and> checked_conf ngx_stream_check_types uc' \<and> uc_check_type_conf uc' = Ptr cf
    \<and> (uc_send uc' = ct_default_send cf \<or> uc_send uc' = uc_send (the r))"
proof -
  obtain a ud where r: "r = Some (check_store ngx_stream_get_check_type_conf a ud)"
    and l: "check_loop ngx_stream_get_check_type_conf (tl args) check_defaults uc = Inr (a, ud)"
    using assms(2) by (auto simp: ngx_stream_upstream_check_def split: sum.splits)
  let ?uc = "check_store ngx_stream_get_check_type_conf a ud"
  have c: "checked_conf ngx_stream_check_types ?uc"
    using stream_types.check_run_ok(1) [OF l] assms(1) by (simp add: stream_types.typed_def)
  then obtain cf where cf: "uc_check_type_conf ?uc = Ptr cf" by (auto simp: checked_conf_def type_in_def)
  have "checked_conf ngx_stream_check_types (init_numbers ?uc)" "uc_check_type_conf (init_numbers ?uc) = Ptr cf"
    "uc_send (init_numbers ?uc) = uc_send ?uc"
    using c cf by (auto simp: checked_conf_def type_in_def init_numbers_def unset_uint_ok)
  then show ?thesis
    by (simp add: r cf ngx_stream_upstream_check_init_srv_conf_def Let_def init_alive_def)
qed

lemma stream_check_init_witness:
  "\<exists>uc' cf. ngx_stream_upstream_check_init_srv_conf
       (snd (ngx_stream_upstream_check [''check'', ''type=udp''] (Some unset_srv_conf))) = Some (NGX_CONF_OK, Some uc')
     \<and> checked_conf ngx_stream_check_types uc' \<and> uc_check_type_conf uc' = Ptr cf"
proof -
  have h: "fst (ngx_stream_upstream_check [''check'', ''type=udp''] (Some unset_srv_conf)) = NGX_CONF_OK"
    by code_simp
  have "uc_check_type_conf unset_srv_conf = Unset_Ptr" by (simp add: unset_srv_conf_def)
  with stream_check_init [of unset_srv_conf "[''check'', ''type=udp'']"] h show ?thesis
    by (metis prod.collapse)
qed

end
