(* ===== verification/Check_Peer.thy ===== *)
theory Check_Peer
  imports Fastcgi_Check
begin

text \<open>
  The check engine of \<open>ngx_http_upstream_check_module.c\<close>: a peer's counters and its state machine
  (begin, connect, send, receive, peek, discard, timeout), run by one worker process on its array
  of peers and on the shared memory all workers see. A handler is a function from the worker's
  state to the next; \<open>None\<close> is an access through a null pointer, or the invalid access of a parser.
\<close>

subsection \<open>The state of a worker\<close>

text \<open>\<open>http_peers_ctx\<close> (its array of peers and its \<open>peers_shm\<close>), the static flag of
  \<open>clear_all_events\<close> and the worker's generation. Slot \<open>i\<close> of the shared memory belongs to peer \<open>i\<close>.\<close>

record check_proc =
  pr_peers :: "ngx_upstream_check_peer_t list option"
  pr_shm :: "ngx_upstream_check_peers_shm_t option"
  pr_has_cleared :: bool
  pr_generation :: ngx_uint_t

type_synonym peer_slot = "ngx_upstream_check_peer_t \<times> ngx_upstream_check_peer_shm_t"

definition peer_slot_at :: "check_proc \<Rightarrow> nat \<Rightarrow> peer_slot option" where
  "peer_slot_at pr i =
     (case (pr_peers pr, pr_shm pr) of
        (Some ps, Some sh) \<Rightarrow>
          if i < length ps \<and> i < length (ps_peers sh) then Some (ps ! i, ps_peers sh ! i) else None
      | _ \<Rightarrow> None)"

definition put_peer_slot :: "nat \<Rightarrow> peer_slot \<Rightarrow> check_proc \<Rightarrow> check_proc" where
  "put_peer_slot i x pr =
     pr\<lparr>pr_peers := map_option (\<lambda>ps. ps[i := fst x]) (pr_peers pr),
        pr_shm := map_option (\<lambda>sh. sh\<lparr>ps_peers := (ps_peers sh)[i := snd x]\<rparr>) (pr_shm pr)\<rparr>"

definition on_peer :: "nat \<Rightarrow> (peer_slot \<Rightarrow> peer_slot option) \<Rightarrow> check_proc \<Rightarrow> check_proc option" where
  "on_peer i f pr =
     (case peer_slot_at pr i of
        None \<Rightarrow> None
      | Some x \<Rightarrow> map_option (\<lambda>y. put_peer_slot i y pr) (f x))"

subsection \<open>Interface for the load balancers\<close>

definition ngx_http_upstream_check_peer_down :: "check_proc \<Rightarrow> ngx_uint_t \<Rightarrow> ngx_uint_t option" where
  "ngx_http_upstream_check_peer_down pr index =
     (case pr_peers pr of
        None \<Rightarrow> Some 0
      | Some ps \<Rightarrow>
          if unat index \<ge> length ps then Some 0
          else map_option (\<lambda>x. sh_down (snd x)) (peer_slot_at pr (unat index)))"

definition ngx_http_upstream_check_get_peer :: "ngx_uint_t \<Rightarrow> check_proc \<Rightarrow> check_proc option" where
  "ngx_http_upstream_check_get_peer index pr =
     (case pr_peers pr of
        None \<Rightarrow> Some pr
      | Some ps \<Rightarrow>
          if unat index \<ge> length ps then Some pr
          else on_peer (unat index)
                 (\<lambda>(p, s). Some (p, s\<lparr>sh_busyness := sh_busyness s + 1,
                                     sh_access_count := sh_access_count s + 1\<rparr>)) pr)"

definition ngx_http_upstream_check_free_peer :: "ngx_uint_t \<Rightarrow> check_proc \<Rightarrow> check_proc option" where
  "ngx_http_upstream_check_free_peer index pr =
     (case pr_peers pr of
        None \<Rightarrow> Some pr
      | Some ps \<Rightarrow>
          if unat index \<ge> length ps then Some pr
          else on_peer (unat index)
                 (\<lambda>(p, s). Some (p, if sh_busyness s > 0 then s\<lparr>sh_busyness := sh_busyness s - 1\<rparr>
                                   else s)) pr)"

subsection \<open>The verdict and the end of a check\<close>

definition ngx_http_upstream_check_status_update ::
  "env \<Rightarrow> ngx_upstream_check_srv_conf_t \<Rightarrow> bool \<Rightarrow> ngx_upstream_check_peer_shm_t
     \<Rightarrow> ngx_upstream_check_peer_shm_t" where
  "ngx_http_upstream_check_status_update e uc result s =
     (let s = (if result
               then
                 let s = s\<lparr>sh_rise_count := sh_rise_count s + 1, sh_fall_count := 0\<rparr>
                 in if sh_down s \<noteq> 0 \<and> sh_rise_count s \<ge> uc_rise_count uc then s\<lparr>sh_down := 0\<rparr> else s
               else
                 let s = s\<lparr>sh_rise_count := 0, sh_fall_count := sh_fall_count s + 1\<rparr>
                 in if sh_down s = 0 \<and> sh_fall_count s \<ge> uc_fall_count uc then s\<lparr>sh_down := 1\<rparr> else s)
      in s\<lparr>sh_access_time := e_now e\<rparr>)"

text \<open>Whether the connection is kept for the next check; the check type is read only when the
  connection is not in error.\<close>

definition clean_connection ::
  "ngx_upstream_check_srv_conf_t \<Rightarrow> ngx_connection_t option \<Rightarrow> ngx_connection_t option option" where
  "clean_connection uc con =
     (case con of
        None \<Rightarrow> Some None
      | Some c \<Rightarrow>
          if c_error c then Some None
          else (case uc_check_type_conf uc of
                  Ptr cf \<Rightarrow>
                    Some (if ct_need_keepalive cf \<and> c_requests c < uc_check_keepalive_requests uc
                          then Some (c\<lparr>c_write_handler := Dummy_Handler, c_read_handler := Discard_Handler\<rparr>)
                          else None)
                | _ \<Rightarrow> None))"

definition ngx_http_upstream_check_clean_event :: "peer_slot \<Rightarrow> peer_slot option" where
  "ngx_http_upstream_check_clean_event x =
     (case x of (p, s) \<Rightarrow>
        map_option
          (\<lambda>con.
             (p\<lparr>p_connection := con, p_check_timeout_ev := None, p_state := Check_All_Done,
                p_check_data := (case (p_check_data p, p_reinit p) of
                                   (Some d, Some r) \<Rightarrow> Some (packet_reinit r d)
                                 | (d, _) \<Rightarrow> d)\<rparr>,
              s\<lparr>sh_owner := NGX_INVALID_PID\<rparr>))
          (clean_connection (p_conf p) (p_connection p)))"

text \<open>\<open>status_update\<close> followed by \<open>clean_event\<close>, the end of most handlers.\<close>

definition check_done :: "env \<Rightarrow> bool \<Rightarrow> peer_slot \<Rightarrow> peer_slot option" where
  "check_done e result x =
     (case x of (p, s) \<Rightarrow>
        ngx_http_upstream_check_clean_event
          (p, ngx_http_upstream_check_status_update e (p_conf p) result s))"

definition set_error :: "ngx_upstream_check_peer_t \<Rightarrow> ngx_upstream_check_peer_t" where
  "set_error p = p\<lparr>p_connection := map_option (\<lambda>c. c\<lparr>c_error := True\<rparr>) (p_connection p)\<rparr>"

subsection \<open>Leaving\<close>

definition clear_peer :: "ngx_upstream_check_peer_t \<Rightarrow> ngx_upstream_check_peer_t" where
  "clear_peer p = p\<lparr>p_check_ev := None, p_check_timeout_ev := None, p_connection := None, p_pool := False\<rparr>"

definition ngx_http_upstream_check_clear_all_events :: "check_proc \<Rightarrow> check_proc" where
  "ngx_http_upstream_check_clear_all_events pr =
     (if pr_has_cleared pr \<or> pr_peers pr = None then pr
      else pr\<lparr>pr_has_cleared := True, pr_peers := map_option (map clear_peer) (pr_peers pr)\<rparr>)"

text \<open>\<open>need_exit\<close> clears all events as a side effect when it says yes.\<close>

definition ngx_http_upstream_check_need_exit :: "env \<Rightarrow> check_proc \<Rightarrow> bool \<times> check_proc" where
  "ngx_http_upstream_check_need_exit e pr =
     (if e_exit e then (True, ngx_http_upstream_check_clear_all_events pr) else (False, pr))"

definition ngx_http_upstream_check_finish_handler :: "env \<Rightarrow> nat \<Rightarrow> check_proc \<Rightarrow> check_proc" where
  "ngx_http_upstream_check_finish_handler e i pr = snd (ngx_http_upstream_check_need_exit e pr)"

text \<open>Most handlers start with \<open>if (need_exit()) return;\<close>.\<close>

definition unless_exit :: "env \<Rightarrow> (check_proc \<Rightarrow> check_proc option) \<Rightarrow> check_proc \<Rightarrow> check_proc option" where
  "unless_exit e f pr =
     (case ngx_http_upstream_check_need_exit e pr of
        (True, pr) \<Rightarrow> Some pr
      | (False, pr) \<Rightarrow> f pr)"

subsection \<open>Peeking\<close>

definition ngx_http_upstream_check_peek_one_byte :: "env \<Rightarrow> ngx_rc" where
  "ngx_http_upstream_check_peek_one_byte e =
     (case e_peek e of
        [] \<Rightarrow> NGX_OK
      | (n, eagain) # _ \<Rightarrow> if n = 1 \<or> n = - 1 \<and> eagain then NGX_OK else NGX_ERROR)"

definition peek_peer :: "env \<Rightarrow> peer_slot \<Rightarrow> peer_slot option" where
  "peek_peer e x =
     (case x of (p, s) \<Rightarrow>
        if ngx_http_upstream_check_peek_one_byte e = NGX_OK then check_done e True (p, s)
        else check_done e False (set_error p, s))"

definition ngx_http_upstream_check_peek_handler :: "env \<Rightarrow> nat \<Rightarrow> check_proc \<Rightarrow> check_proc option" where
  "ngx_http_upstream_check_peek_handler e i pr =
     unless_exit e
       (\<lambda>pr. map_option (ngx_http_upstream_check_finish_handler e i) (on_peer i (peek_peer e) pr)) pr"

subsection \<open>Sending\<close>

text \<open>The size of the context structure on the 64-bit ABI, asked from the pool.\<close>

definition sizeof_check_ctx :: nat where
  "sizeof_check_ctx = 224"

definition ctx_zero :: check_ctx_t where
  "ctx_zero =
     \<lparr>x_send = \<lparr>s_bytes = [], s_pos = 0, s_last = 0\<rparr>, x_recv = recv_null, x_state = 0,
      x_status = status_zero, x_padding = 0, x_length = 0, x_mem = []\<rparr>"

datatype send_result = Send_All | Send_Wait | Send_Fail

text \<open>\<open>while (ctx->send.pos < ctx->send.last)\<close>: a call sends at most what is left; with no answer in
  the script it would block.\<close>

fun send_loop :: "sent list \<Rightarrow> send_buf_t \<Rightarrow> send_result \<times> send_buf_t" where
  "send_loop [] b = (if s_pos b < s_last b then (Send_Wait, b) else (Send_All, b))"
| "send_loop (io # r) b =
     (if s_pos b < s_last b then
        (case io of
           Sent k \<Rightarrow>
             let size = min k (s_last b - s_pos b)
             in if size > 0 then send_loop r (b\<lparr>s_pos := s_pos b + size\<rparr>) else (Send_Wait, b)
         | Sent_Again \<Rightarrow> (Send_Wait, b)
         | Sent_Error \<Rightarrow> (Send_Fail, b))
      else (Send_All, b))"

definition send_request :: "env \<Rightarrow> ngx_connection_t \<Rightarrow> check_ctx_t \<Rightarrow> peer_slot \<Rightarrow> peer_slot option" where
  "send_request e c ctx x =
     (case x of (p, s) \<Rightarrow>
        (case send_loop (e_send e) (x_send ctx) of
           (r, b) \<Rightarrow>
             let p = p\<lparr>p_check_data := Some (ctx\<lparr>x_send := b\<rparr>)\<rparr>
             in if r = Send_Wait then Some (p, s)
                else if r = Send_Fail then check_done e False (set_error p, s)
                else if s_pos b = s_last b
                then Some (p\<lparr>p_state := Check_Send_Done,
                             p_connection := Some (c\<lparr>c_requests := c_requests c + 1\<rparr>)\<rparr>, s)
                else Some (p, s)))"

definition send_peer :: "env \<Rightarrow> peer_slot \<Rightarrow> peer_slot option" where
  "send_peer e x =
     (case x of (p, s) \<Rightarrow>
        (case p_connection p of
           None \<Rightarrow> None
         | Some c \<Rightarrow>
             if \<not> c_pool c then check_done e False (p, s)
             else if p_state p \<noteq> Check_Connect_Done
             then (if e_write_event e \<noteq> NGX_OK then check_done e False (p, s) else Some (p, s))
             else (case p_check_data p of
                     Some ctx \<Rightarrow> send_request e c ctx (p, s)
                   | None \<Rightarrow>
                       if \<not> e_palloc e sizeof_check_ctx then check_done e False (p, s)
                       else (case p_init p of
                               None \<Rightarrow> check_done e False (p\<lparr>p_check_data := Some ctx_zero\<rparr>, s)
                             | Some i \<Rightarrow> send_request e c (packet_init i (p_conf p) ctx_zero) (p, s)))))"

definition ngx_http_upstream_check_send_handler :: "env \<Rightarrow> nat \<Rightarrow> check_proc \<Rightarrow> check_proc option" where
  "ngx_http_upstream_check_send_handler e i pr = unless_exit e (on_peer i (send_peer e)) pr"

subsection \<open>Receiving\<close>

text \<open>One \<open>recv\<close> of at most \<open>n\<close> bytes on the arriving data.\<close>

fun recv_io :: "nat \<Rightarrow> io list \<Rightarrow> io \<times> io list" where
  "recv_io n [] = (Io_Again, [])"
| "recv_io n (Io_Bytes bs # r) =
     (if length bs > n then (Io_Bytes (take n bs), Io_Bytes (drop n bs) # r) else (Io_Bytes bs, r))"
| "recv_io n (io # r) = (io, r)"

definition io_size :: "io \<Rightarrow> nat" where
  "io_size io = (case io of Io_Bytes bs \<Rightarrow> Suc (length bs) | _ \<Rightarrow> 1)"

lemma recv_io_size:
  "recv_io n ios = (Io_Bytes (b # bs), r) \<Longrightarrow> sum_list (map io_size r) < sum_list (map io_size ios)"
  by (cases "(n, ios)" rule: recv_io.cases; cases n) (auto simp: io_size_def split: if_splits)

text \<open>When the buffer is full it is moved to a block of twice the size; \<open>pos\<close> goes back to the
  start. \<open>None\<close> is a failed allocation.\<close>

definition recv_grow :: "(nat \<Rightarrow> bool) \<Rightarrow> ngx_buf_t \<Rightarrow> mem \<Rightarrow> (ngx_buf_t \<times> mem) option" where
  "recv_grow palloc b m =
     (if b_end b - b_last b = 0 then
        let size = b_end b
        in if \<not> palloc (size * 2) then None
           else Some (\<lparr>b_blk = Some (length m), b_pos = 0, b_last = size, b_end = size * 2\<rparr>,
                      m @ [take size (case b_blk b of None \<Rightarrow> [] | Some k \<Rightarrow> m ! k)])
      else Some (b, m))"

datatype recv_end = Recv_Closed | Recv_Again | Recv_Fail | Recv_Nomem

definition recv_store :: "string \<Rightarrow> ngx_buf_t \<Rightarrow> mem \<Rightarrow> ngx_buf_t \<times> mem" where
  "recv_store bs b m =
     (b\<lparr>b_last := b_last b + length bs\<rparr>,
      case b_blk b of None \<Rightarrow> m | Some k \<Rightarrow> m[k := blk_write (b_last b) bs (m ! k)])"

function recv_loop :: "(nat \<Rightarrow> bool) \<Rightarrow> io list \<Rightarrow> ngx_buf_t \<Rightarrow> mem \<Rightarrow> recv_end \<times> ngx_buf_t \<times> mem" where
  "recv_loop palloc ios b m =
     (case recv_grow palloc b m of
        None \<Rightarrow> (Recv_Nomem, b, m)
      | Some (b, m) \<Rightarrow>
          (case recv_io (b_end b - b_last b) ios of
             (Io_Bytes [], r) \<Rightarrow> (Recv_Closed, b, m)
           | (Io_Bytes (x # xs), r) \<Rightarrow>
               (case recv_store (x # xs) b m of (b, m) \<Rightarrow> recv_loop palloc r b m)
           | (Io_Again, r) \<Rightarrow> (Recv_Again, b, m)
           | (Io_Error, r) \<Rightarrow> (Recv_Fail, b, m)))"
  by pat_completeness auto
termination
  by (relation "measure (\<lambda>(palloc, ios, b, m). sum_list (map io_size ios))") (auto dest!: recv_io_size [OF sym])

declare recv_loop.simps [simp del]

text \<open>The first buffer: half a page.\<close>

definition recv_start :: "env \<Rightarrow> check_ctx_t \<Rightarrow> check_ctx_t option" where
  "recv_start e ctx =
     (if b_blk (x_recv ctx) = None then
        (if \<not> e_palloc e (e_pagesize e div 2) then None
         else Some (ctx\<lparr>x_recv := \<lparr>b_blk = Some (length (x_mem ctx)), b_pos = 0, b_last = 0,
                                   b_end = e_pagesize e div 2\<rparr>,
                        x_mem := x_mem ctx @ [[]]\<rparr>))
      else Some ctx)"

text \<open>What follows the receive loop: the parser's verdict.\<close>

definition recv_verdict ::
  "env \<Rightarrow> recv_end \<Rightarrow> ngx_rc \<Rightarrow> peer_slot \<Rightarrow> peer_slot option" where
  "recv_verdict e r rc x =
     (case x of (p, s) \<Rightarrow>
        if rc = NGX_AGAIN \<and> r \<noteq> Recv_Closed then Some (p, s)
        else
          let ok = (rc \<noteq> NGX_AGAIN \<and> rc \<noteq> NGX_ERROR);
              p = (if rc = NGX_AGAIN then set_error p else p)
          in check_done e ok (p\<lparr>p_state := Check_Recv_Done\<rparr>, s))"

definition recv_response :: "env \<Rightarrow> check_ctx_t \<Rightarrow> peer_slot \<Rightarrow> peer_slot option" where
  "recv_response e ctx x =
     (case x of (p, s) \<Rightarrow>
        (case recv_loop (e_palloc e) (e_recv e) (x_recv ctx) (x_mem ctx) of
           (r, b, m) \<Rightarrow>
             let ctx = ctx\<lparr>x_recv := b, x_mem := m\<rparr>;
                 p = p\<lparr>p_check_data := Some ctx\<rparr>
             in if r = Recv_Nomem then check_done e False (p, s)
                else if r = Recv_Fail then check_done e False (set_error p, s)
                else (case p_parse p of
                        None \<Rightarrow> None
                      | Some q \<Rightarrow>
                          (case packet_parse q e (p_conf p) ctx of
                             None \<Rightarrow> None
                           | Some (rc, ctx, err) \<Rightarrow>
                               let p = p\<lparr>p_check_data := Some ctx\<rparr>
                               in recv_verdict e r rc (if err then set_error p else p, s)))))"

definition recv_peer :: "env \<Rightarrow> peer_slot \<Rightarrow> peer_slot option" where
  "recv_peer e x =
     (case x of (p, s) \<Rightarrow>
        (case p_connection p of
           None \<Rightarrow> None
         | Some c \<Rightarrow>
             if p_state p \<noteq> Check_Send_Done
             then (if e_read_event e \<noteq> NGX_OK then check_done e False (p, s) else Some (p, s))
             else (case p_check_data p of
                     None \<Rightarrow> None
                   | Some ctx \<Rightarrow>
                       if \<not> c_pool c then None
                       else (case recv_start e ctx of
                               None \<Rightarrow> check_done e False (p, s)
                             | Some ctx \<Rightarrow> recv_response e ctx (p, s)))))"

definition ngx_http_upstream_check_recv_handler :: "env \<Rightarrow> nat \<Rightarrow> check_proc \<Rightarrow> check_proc option" where
  "ngx_http_upstream_check_recv_handler e i pr = unless_exit e (on_peer i (recv_peer e)) pr"

subsection \<open>Discarding on an idle connection\<close>

function discard_loop :: "io list \<Rightarrow> bool" where
  "discard_loop ios =
     (case recv_io 4096 ios of
        (Io_Bytes (x # xs), r) \<Rightarrow> discard_loop r
      | (Io_Again, r) \<Rightarrow> True
      | _ \<Rightarrow> False)"
  by pat_completeness auto
termination
  by (relation "measure (\<lambda>ios. sum_list (map io_size ios))") (auto dest!: recv_io_size [OF sym])

declare discard_loop.simps [simp del]

definition discard_peer :: "env \<Rightarrow> peer_slot \<Rightarrow> peer_slot option" where
  "discard_peer e x =
     (case x of (p, s) \<Rightarrow>
        if discard_loop (e_recv e) \<and> e_read_event e = NGX_OK then Some (p, s)
        else ngx_http_upstream_check_clean_event (set_error p, s))"

definition ngx_http_upstream_check_discard_handler :: "env \<Rightarrow> nat \<Rightarrow> check_proc \<Rightarrow> check_proc option" where
  "ngx_http_upstream_check_discard_handler e i pr = unless_exit e (on_peer i (discard_peer e)) pr"

definition ngx_http_upstream_check_dummy_handler :: "env \<Rightarrow> nat \<Rightarrow> check_proc \<Rightarrow> check_proc option" where
  "ngx_http_upstream_check_dummy_handler e i pr = Some pr"

text \<open>Calling a connection's event handler.\<close>

fun ngx_http_run_handler :: "ev_handler \<Rightarrow> env \<Rightarrow> nat \<Rightarrow> check_proc \<Rightarrow> check_proc option" where
  "ngx_http_run_handler Peek_Handler = ngx_http_upstream_check_peek_handler"
| "ngx_http_run_handler Send_Handler = ngx_http_upstream_check_send_handler"
| "ngx_http_run_handler Recv_Handler = ngx_http_upstream_check_recv_handler"
| "ngx_http_run_handler Dummy_Handler = ngx_http_upstream_check_dummy_handler"
| "ngx_http_run_handler Discard_Handler = ngx_http_upstream_check_discard_handler"

subsection \<open>Connecting\<close>

text \<open>The connection a fresh \<open>ngx_event_connect_peer\<close> returns, with the peer's pool.\<close>

definition new_connection :: "ngx_upstream_check_peer_t \<Rightarrow> ngx_connection_t" where
  "new_connection p =
     \<lparr>c_error = False, c_requests = 0, c_write_handler = Dummy_Handler, c_read_handler = Dummy_Handler,
      c_pool = p_pool p\<rparr>"

text \<open>The label \<open>upstream_check_connect_done\<close>, up to the call of the write handler.\<close>

definition connect_done :: "env \<Rightarrow> ngx_connection_t \<Rightarrow> peer_slot \<Rightarrow> peer_slot" where
  "connect_done e c x =
     (case x of (p, s) \<Rightarrow>
        (p\<lparr>p_state := Check_Connect_Done,
           p_connection := Some (c\<lparr>c_write_handler := p_send_handler p, c_read_handler := p_recv_handler p\<rparr>),
           p_check_timeout_ev :=
             ngx_event_add_timer (e_now e) (p_check_timeout_ev p) (uc_check_timeout (p_conf p))\<rparr>, s))"

text \<open>A new connection; \<open>e'\<close> is the environment left for the write handler.\<close>

definition connect_new :: "env \<Rightarrow> env \<Rightarrow> nat \<Rightarrow> peer_slot \<Rightarrow> check_proc \<Rightarrow> check_proc option" where
  "connect_new e e' i x pr =
     (case x of (p, s) \<Rightarrow>
        let p = p\<lparr>p_connection := None\<rparr>
        in (case ngx_event_connect_peer (e_connect e) of
              (rc, _) \<Rightarrow>
                if rc = NGX_ERROR \<or> rc = NGX_DECLINED
                then map_option (\<lambda>x. put_peer_slot i x pr) (check_done e False (p, s))
                else
                  let pr = put_peer_slot i (connect_done e (new_connection p) (p, s)) pr
                  in if rc = NGX_OK then ngx_http_run_handler (p_send_handler p) e' i pr
                     else Some pr))"

definition ngx_http_upstream_check_connect_handler :: "env \<Rightarrow> nat \<Rightarrow> check_proc \<Rightarrow> check_proc option" where
  "ngx_http_upstream_check_connect_handler e i pr =
     unless_exit e
       (\<lambda>pr.
          (case peer_slot_at pr i of
             None \<Rightarrow> None
           | Some (p, s) \<Rightarrow>
               (case p_connection p of
                  None \<Rightarrow> connect_new e e i (p, s) pr
                | Some c \<Rightarrow>
                    let e' = e\<lparr>e_peek := tl (e_peek e)\<rparr>
                    in if ngx_http_upstream_check_peek_one_byte e = NGX_OK
                       then ngx_http_run_handler (p_send_handler p) e' i
                              (put_peer_slot i (connect_done e c (p, s)) pr)
                       else connect_new e e' i (p, s) pr)))
       pr"

subsection \<open>The timers\<close>

definition begin_claim ::
  "env \<Rightarrow> ngx_upstream_check_srv_conf_t \<Rightarrow> ngx_upstream_check_peer_shm_t \<Rightarrow> ngx_upstream_check_peer_shm_t" where
  "begin_claim e uc s =
     (let interval = e_now e - sh_access_time s
      in if interval \<ge> uc_check_interval uc \<and> sh_owner s = NGX_INVALID_PID then s\<lparr>sh_owner := e_pid e\<rparr>
         else if interval \<ge> push_bit 4 (uc_check_interval uc)
         then s\<lparr>sh_owner := e_pid e, sh_access_time := e_now e\<rparr>
         else s)"

definition begin_timer :: "env \<Rightarrow> ngx_upstream_check_peer_t \<Rightarrow> ngx_upstream_check_peer_t" where
  "begin_timer e p =
     p\<lparr>p_check_ev := ngx_event_add_timer (e_now e) (p_check_ev p) (uc_check_interval (p_conf p) div 2)\<rparr>"

definition ngx_http_upstream_check_begin_handler :: "env \<Rightarrow> nat \<Rightarrow> check_proc \<Rightarrow> check_proc option" where
  "ngx_http_upstream_check_begin_handler e i pr =
     unless_exit e
       (\<lambda>pr.
          if pr_peers pr = None \<or> pr_shm pr = None then Some pr
          else (case peer_slot_at pr i of
                  None \<Rightarrow> None
                | Some (p, s) \<Rightarrow>
                    let p = begin_timer e p
                    in if sh_owner s = e_pid e \<or> p_check_timeout_ev p \<noteq> None
                       then Some (put_peer_slot i (p, s) pr)
                       else if map_option ps_generation (pr_shm pr) \<noteq> Some (pr_generation pr)
                       then Some (put_peer_slot i (p, s) pr)
                       else
                         let s = begin_claim e (p_conf p) s;
                             pr = put_peer_slot i (p, s) pr
                         in if sh_owner s = e_pid e then ngx_http_upstream_check_connect_handler e i pr
                            else Some pr))
       pr"

text \<open>The timeout handler writes through \<open>peer->pc.connection\<close> without a test.\<close>

definition timeout_peer :: "env \<Rightarrow> peer_slot \<Rightarrow> peer_slot option" where
  "timeout_peer e x =
     (case x of (p, s) \<Rightarrow>
        if p_connection p = None then None else check_done e False (set_error p, s))"

definition ngx_http_upstream_check_timeout_handler :: "env \<Rightarrow> nat \<Rightarrow> check_proc \<Rightarrow> check_proc option" where
  "ngx_http_upstream_check_timeout_handler e i pr = unless_exit e (on_peer i (timeout_peer e)) pr"

subsection \<open>Start of a worker\<close>

text \<open>One round of the loop of \<open>add_timers\<close>: \<open>pool\<close> tells whether the pool could be created, \<open>rnd\<close> is
  the value of \<open>ngx_random()\<close>. The left result is the failure.\<close>

definition add_timers_peer ::
  "ngx_msec_t \<Rightarrow> bool \<Rightarrow> ngx_uint_t \<Rightarrow> ngx_upstream_check_peer_t
     \<Rightarrow> (ngx_upstream_check_peer_t + ngx_upstream_check_peer_t) option" where
  "add_timers_peer now pool rnd p =
     (let p = p\<lparr>p_check_ev := None, p_check_timeout_ev := None\<rparr>;
          uc = p_conf p
      in case uc_check_type_conf uc of
           Ptr cf \<Rightarrow>
             if ct_need_pool cf \<and> \<not> pool then Some (Inl (p\<lparr>p_pool := False\<rparr>))
             else
               let delay = (if uc_check_interval uc > 1000 then uc_check_interval uc else 1000)
               in Some (Inr (p\<lparr>p_pool := (if ct_need_pool cf then True else p_pool p),
                              p_send_handler := ct_send_handler cf, p_recv_handler := ct_recv_handler cf,
                              p_init := ct_init cf, p_parse := ct_parse cf, p_reinit := ct_reinit cf,
                              p_check_ev := ngx_event_add_timer now None (rnd mod delay)\<rparr>))
         | _ \<Rightarrow> None)"

fun add_timers_loop ::
  "ngx_msec_t \<Rightarrow> (nat \<Rightarrow> bool) \<Rightarrow> (nat \<Rightarrow> ngx_uint_t) \<Rightarrow> nat \<Rightarrow> ngx_upstream_check_peer_t list
     \<Rightarrow> (ngx_rc \<times> ngx_upstream_check_peer_t list) option" where
  "add_timers_loop now pool rnd i [] = Some (NGX_OK, [])"
| "add_timers_loop now pool rnd i (p # ps) =
     (case add_timers_peer now (pool i) (rnd i) p of
        None \<Rightarrow> None
      | Some (Inl p) \<Rightarrow> Some (NGX_ERROR, p # ps)
      | Some (Inr p) \<Rightarrow>
          map_option (\<lambda>(rc, ps). (rc, p # ps)) (add_timers_loop now pool rnd (Suc i) ps))"

definition ngx_http_upstream_check_add_timers ::
  "ngx_msec_t \<Rightarrow> (nat \<Rightarrow> bool) \<Rightarrow> (nat \<Rightarrow> ngx_uint_t) \<Rightarrow> check_proc \<Rightarrow> (ngx_rc \<times> check_proc) option" where
  "ngx_http_upstream_check_add_timers now pool rnd pr =
     (case (pr_peers pr, pr_shm pr) of
        (Some ps, Some sh) \<Rightarrow>
          map_option (\<lambda>(rc, ps). (rc, pr\<lparr>pr_peers := Some ps\<rparr>)) (add_timers_loop now pool rnd 0 ps)
      | _ \<Rightarrow> Some (NGX_OK, pr))"

end
