(* ===== verification/Peer_Inv.thy ===== *)
theory Peer_Inv
  imports Check_Peer
begin

text \<open>
  What holds of the engine of \<open>Check_Peer\<close>: the rise and fall counters implement a hysteresis on
  the results; every handler keeps an invariant of the peer (a running check has a connection, a
  timeout and, once the request is sent, a context; a finished one has released the slot), so that
  no event of a reachable worker follows a null pointer; receiving appends what arrives.
\<close>

subsection \<open>Rise and fall\<close>

text \<open>The slot after a history of results, oldest first.\<close>

definition run_results ::
  "env \<Rightarrow> ngx_upstream_check_srv_conf_t \<Rightarrow> bool list \<Rightarrow> ngx_upstream_check_peer_shm_t
     \<Rightarrow> ngx_upstream_check_peer_shm_t" where
  "run_results e uc rs s = fold (ngx_http_upstream_check_status_update e uc) rs s"

lemma run_results_simps [simp]:
  "run_results e uc [] s = s"
  "run_results e uc (rs @ [r]) s = ngx_http_upstream_check_status_update e uc r (run_results e uc rs s)"
  by (simp_all add: run_results_def)

text \<open>How many results at the end of a history equal \<open>r\<close>.\<close>

definition trailing :: "bool \<Rightarrow> bool list \<Rightarrow> nat" where
  "trailing r rs = length (takeWhile (\<lambda>x. x = r) (rev rs))"

lemma trailing_simps [simp]:
  "trailing r [] = 0"
  "trailing r (rs @ [x]) = (if x = r then Suc (trailing r rs) else 0)"
  by (simp_all add: trailing_def)

lemma status_update_simps [simp]:
  "sh_rise_count (ngx_http_upstream_check_status_update e uc r s) = (if r then sh_rise_count s + 1 else 0)"
  "sh_fall_count (ngx_http_upstream_check_status_update e uc r s) = (if r then 0 else sh_fall_count s + 1)"
  "sh_access_time (ngx_http_upstream_check_status_update e uc r s) = e_now e"
  "sh_owner (ngx_http_upstream_check_status_update e uc r s) = sh_owner s"
  "sh_down (ngx_http_upstream_check_status_update e uc r s) =
     (if r then (if sh_down s \<noteq> 0 \<and> sh_rise_count s + 1 \<ge> uc_rise_count uc then 0 else sh_down s)
      else (if sh_down s = 0 \<and> sh_fall_count s + 1 \<ge> uc_fall_count uc then 1 else sh_down s))"
  by (simp_all add: ngx_http_upstream_check_status_update_def Let_def)

lemma run_results_counts:
  "sh_rise_count s = 0 \<Longrightarrow> sh_fall_count s = 0 \<Longrightarrow>
     sh_rise_count (run_results e uc rs s) = of_nat (trailing True rs) \<and>
     sh_fall_count (run_results e uc rs s) = of_nat (trailing False rs)"
  by (induction rs rule: rev_induct) (simp_all add: add.commute)

text \<open>What rise and fall mean: the reference machine.\<close>

fun down_spec :: "nat \<Rightarrow> nat \<Rightarrow> bool \<Rightarrow> bool list \<Rightarrow> bool" where
  "down_spec rise fall d0 [] = d0"
| "down_spec rise fall d0 (r # rev_rs) =
     (let d = down_spec rise fall d0 rev_rs; n = length (takeWhile (\<lambda>x. x = r) (r # rev_rs))
      in if r then d \<and> n < rise else d \<or> fall \<le> n)"

lemma le_of_nat_word:
  fixes w :: ngx_uint_t
  shows "n < 18446744073709551616 \<Longrightarrow> w \<le> of_nat n \<longleftrightarrow> unat w \<le> n"
  by (simp add: word_le_nat_alt unat_of_nat)

lemma trailing_le: "trailing r rs \<le> length rs"
  unfolding trailing_def by (metis length_rev length_takeWhile_le)

lemma run_results_down:
  assumes "sh_rise_count s = 0" "sh_fall_count s = 0" "sh_down s \<in> {0, 1}"
    and "length rs < 18446744073709551615"
  shows "sh_down (run_results e uc rs s) \<in> {0, 1} \<and>
    (sh_down (run_results e uc rs s) \<noteq> 0 \<longleftrightarrow>
       down_spec (unat (uc_rise_count uc)) (unat (uc_fall_count uc)) (sh_down s \<noteq> 0) (rev rs))"
  using assms(4)
proof (induction rs rule: rev_induct)
  case Nil
  then show ?case using assms(3) by simp
next
  case (snoc r rs)
  let ?s = "run_results e uc rs s"
  from snoc have ih: "sh_down ?s \<in> {0, 1}" "sh_down ?s \<noteq> 0 \<longleftrightarrow>
       down_spec (unat (uc_rise_count uc)) (unat (uc_fall_count uc)) (sh_down s \<noteq> 0) (rev rs)" by auto
  have l: "Suc (trailing x rs) < 18446744073709551616" for x
    using snoc.prems trailing_le [of x rs] by simp
  have c: "sh_rise_count ?s + 1 = of_nat (Suc (trailing True rs))"
    "sh_fall_count ?s + 1 = of_nat (Suc (trailing False rs))"
    using run_results_counts [OF assms(1,2), of e uc rs] by simp_all
  have up: "uc_rise_count uc \<le> sh_rise_count ?s + 1 \<longleftrightarrow> unat (uc_rise_count uc) \<le> Suc (trailing True rs)"
    unfolding c by (rule le_of_nat_word [OF l])
  have dn: "uc_fall_count uc \<le> sh_fall_count ?s + 1 \<longleftrightarrow> unat (uc_fall_count uc) \<le> Suc (trailing False rs)"
    unfolding c by (rule le_of_nat_word [OF l])
  have ds: "down_spec ri fa d (rev (rs @ [r])) \<longleftrightarrow>
      (if r then down_spec ri fa d (rev rs) \<and> Suc (trailing True rs) < ri
       else down_spec ri fa d (rev rs) \<or> fa \<le> Suc (trailing False rs))" for ri fa d
    by (simp add: trailing_def Let_def)
  show ?case
    unfolding ds using ih by (auto simp: up dn not_le split: if_splits)
qed

subsection \<open>The invariant of a peer\<close>

text \<open>The handlers and packet functions are those of the peer's check type, and the pool exists
  when the type needs one; the context, if any, is well-formed.\<close>

definition peer_conf_ok :: "ngx_upstream_check_peer_t \<Rightarrow> bool" where
  "peer_conf_ok p \<longleftrightarrow>
     (\<exists>cf. uc_check_type_conf (p_conf p) = Ptr cf \<and> wf_check_type cf \<and>
        p_send_handler p = ct_send_handler cf \<and> p_recv_handler p = ct_recv_handler cf \<and>
        p_init p = ct_init cf \<and> p_parse p = ct_parse cf \<and> p_reinit p = ct_reinit cf \<and>
        (ct_need_pool cf \<longrightarrow> p_pool p))
     \<and> (\<forall>ctx. p_check_data p = Some ctx \<longrightarrow> wf_ctx ctx)"

text \<open>A check is running: connected (or connecting) and not yet done.\<close>

definition in_check :: "ngx_upstream_check_peer_t \<Rightarrow> bool" where
  "in_check p \<longleftrightarrow> p_state p = Check_Connect_Done \<or> p_state p = Check_Send_Done"

text \<open>During a check there is a connection with the peer's handlers; otherwise it is gone or idle.\<close>

definition conn_ok :: "bool \<Rightarrow> bool \<Rightarrow> ev_handler \<Rightarrow> ev_handler \<Rightarrow> ngx_connection_t option \<Rightarrow> bool" where
  "conn_ok pool chk snd_h rcv_h con =
     (case con of
        None \<Rightarrow> \<not> chk
      | Some c \<Rightarrow>
          (pool \<longrightarrow> c_pool c) \<and>
          c_write_handler c = (if chk then snd_h else Dummy_Handler) \<and>
          c_read_handler c = (if chk then rcv_h else Discard_Handler))"

definition peer_inv :: "ngx_upstream_check_peer_t \<Rightarrow> bool" where
  "peer_inv p \<longleftrightarrow>
     peer_conf_ok p
     \<and> conn_ok (p_pool p) (in_check p) (p_send_handler p) (p_recv_handler p) (p_connection p)
     \<and> (p_check_timeout_ev p \<noteq> None \<longleftrightarrow> in_check p)
     \<and> (p_state p = Check_Send_Done \<longrightarrow> p_check_data p \<noteq> None)"

lemma peer_conf_ok_simps [simp]:
  "peer_conf_ok (p\<lparr>p_connection := c\<rparr>) = peer_conf_ok p"
  "peer_conf_ok (p\<lparr>p_check_ev := t\<rparr>) = peer_conf_ok p"
  "peer_conf_ok (p\<lparr>p_check_timeout_ev := t\<rparr>) = peer_conf_ok p"
  "peer_conf_ok (p\<lparr>p_state := st\<rparr>) = peer_conf_ok p"
  "peer_conf_ok (set_error p) = peer_conf_ok p"
  by (simp_all add: peer_conf_ok_def set_error_def)

lemma peer_conf_ok_data:
  "peer_conf_ok p \<Longrightarrow> wf_ctx ctx \<Longrightarrow> peer_conf_ok (p\<lparr>p_check_data := Some ctx\<rparr>)"
  by (simp add: peer_conf_ok_def)

text \<open>The end of a check gives an idle peer in any case: no timeout pending, the owner released, and
  a kept connection only listens for data to discard.\<close>

definition kept :: "ngx_connection_t option \<Rightarrow> ngx_connection_t option \<Rightarrow> bool" where
  "kept con con' \<longleftrightarrow>
     con' = None \<or>
     (\<exists>c. con = Some c \<and> \<not> c_error c
        \<and> con' = Some (c\<lparr>c_write_handler := Dummy_Handler, c_read_handler := Discard_Handler\<rparr>))"

lemma clean_connection_ok:
  assumes "peer_conf_ok p"
  shows "\<exists>con'. clean_connection (p_conf p) con = Some con' \<and> kept con con'"
proof -
  from assms obtain cf where "uc_check_type_conf (p_conf p) = Ptr cf"
    unfolding peer_conf_ok_def by blast
  then show ?thesis by (cases con) (simp_all add: clean_connection_def kept_def)
qed

definition pool_kept :: "ngx_upstream_check_peer_t \<Rightarrow> bool" where
  "pool_kept p \<longleftrightarrow> (\<forall>c. p_connection p = Some c \<longrightarrow> p_pool p \<longrightarrow> c_pool c)"

lemma pool_kept_set_error [simp]: "pool_kept (set_error p) = pool_kept p"
  by (cases "p_connection p") (simp_all add: pool_kept_def set_error_def)

lemma clean_event_ok:
  assumes "peer_conf_ok p" "pool_kept p"
  shows "\<exists>p'. ngx_http_upstream_check_clean_event (p, s) = Some (p', s\<lparr>sh_owner := - 1\<rparr>)
    \<and> peer_inv p' \<and> p_state p' = Check_All_Done \<and> p_conf p' = p_conf p \<and> p_check_ev p' = p_check_ev p
    \<and> (\<forall>d. p_check_data p' = Some d \<longrightarrow> p_reinit p \<noteq> None \<longrightarrow> ready_ctx d)"
proof -
  obtain con where con: "clean_connection (p_conf p) (p_connection p) = Some con"
    and k: "kept (p_connection p) con"
    using clean_connection_ok [OF assms(1)] by blast
  define d where "d = (case (p_check_data p, p_reinit p) of
      (Some d, Some r) \<Rightarrow> Some (packet_reinit r d) | (d, _) \<Rightarrow> d)"
  let ?p = "p\<lparr>p_connection := con, p_check_timeout_ev := None, p_state := Check_All_Done, p_check_data := d\<rparr>"
  have wf: "wf_ctx x" if "d = Some x" for x
    using that assms(1) pk.reinit_wf
    by (cases "p_check_data p"; cases "p_reinit p") (auto simp: peer_conf_ok_def d_def)
  have rd: "ready_ctx x" if "d = Some x" "p_reinit p \<noteq> None" for x
    using that pk.reinit_ready by (cases "p_check_data p"; cases "p_reinit p") (auto simp: d_def)
  have ok: "peer_conf_ok ?p"
    using assms(1) wf by (simp add: peer_conf_ok_def)
  have "peer_inv ?p"
  proof (cases con)
    case None
    with ok show ?thesis by (simp add: peer_inv_def in_check_def conn_ok_def)
  next
    case (Some c)
    with ok k assms(2) show ?thesis by (auto simp: peer_inv_def in_check_def conn_ok_def kept_def pool_kept_def)
  qed
  with rd con show ?thesis
    by (intro exI [of _ ?p]) (simp add: ngx_http_upstream_check_clean_event_def d_def)
qed

lemma check_done_ok:
  assumes "peer_conf_ok p" "pool_kept p"
  shows "\<exists>p'. check_done e r (p, s) =
      Some (p', (ngx_http_upstream_check_status_update e (p_conf p) r s)\<lparr>sh_owner := - 1\<rparr>)
    \<and> peer_inv p' \<and> p_state p' = Check_All_Done \<and> p_conf p' = p_conf p \<and> p_check_ev p' = p_check_ev p"
  using clean_event_ok [OF assms, of "ngx_http_upstream_check_status_update e (p_conf p) r s"]
  by (auto simp: check_done_def)

subsection \<open>Each step keeps the invariant\<close>

text \<open>A step on a slot: it returns, and the peer satisfies the invariant again.\<close>

definition slot_step_ok :: "peer_slot option \<Rightarrow> bool" where
  "slot_step_ok r \<longleftrightarrow> (\<exists>p s. r = Some (p, s) \<and> peer_inv p)"

lemma peer_inv_D:
  assumes "peer_inv p"
  shows "peer_conf_ok p" "pool_kept p"
  using assms by (auto simp: peer_inv_def pool_kept_def conn_ok_def)

lemma check_done_step: "peer_conf_ok p \<Longrightarrow> pool_kept p \<Longrightarrow> slot_step_ok (check_done e r (p, s))"
  using check_done_ok [of p e r s] by (auto simp: slot_step_ok_def)

lemma slot_step_ok_Some [simp]: "slot_step_ok (Some (p, s)) = peer_inv p"
  by (simp add: slot_step_ok_def)

lemma peek_peer_ok: "peer_inv p \<Longrightarrow> slot_step_ok (peek_peer e (p, s))"
  by (simp add: peek_peer_def check_done_step peer_inv_D)

lemma discard_peer_ok: "peer_inv p \<Longrightarrow> slot_step_ok (discard_peer e (p, s))"
  using clean_event_ok [of "set_error p" s] by (auto simp: discard_peer_def slot_step_ok_def peer_inv_D)

lemma timeout_peer_ok:
  "peer_conf_ok p \<Longrightarrow> pool_kept p \<Longrightarrow> p_connection p \<noteq> None \<Longrightarrow> slot_step_ok (timeout_peer e (p, s))"
  using check_done_step [of "set_error p" e False s] by (auto simp: timeout_peer_def)

lemma send_loop_keeps:
  "send_loop io b = (r, b') \<Longrightarrow> s_pos b \<le> s_last b \<Longrightarrow>
     s_bytes b' = s_bytes b \<and> s_last b' = s_last b \<and> s_pos b \<le> s_pos b' \<and> s_pos b' \<le> s_last b'
     \<and> (r = Send_All \<longrightarrow> s_pos b' = s_last b')"
proof (induction io arbitrary: b)
  case Nil
  then show ?case by (auto split: if_splits)
next
  case (Cons x io)
  show ?case
  proof (cases "s_pos b < s_last b \<and> (\<exists>k. x = Sent k \<and> min k (s_last b - s_pos b) > 0)")
    case True
    then obtain k where k: "x = Sent k" "min k (s_last b - s_pos b) > 0" "s_pos b < s_last b" by blast
    then have "s_pos b + min k (s_last b - s_pos b) \<le> s_last b" by simp
    with Cons.IH [of "b\<lparr>s_pos := s_pos b + min k (s_last b - s_pos b)\<rparr>"] Cons.prems k
    show ?thesis by (auto simp: Let_def)
  next
    case False
    with Cons.prems show ?thesis by (auto simp: Let_def split: sent.splits if_splits)
  qed
qed

lemma in_check_data [simp]: "in_check (p\<lparr>p_check_data := d\<rparr>) = in_check p"
  by (simp add: in_check_def)

lemma pool_kept_data [simp]:
  "pool_kept (p\<lparr>p_check_data := d\<rparr>) = pool_kept p" "pool_kept (p\<lparr>p_state := st\<rparr>) = pool_kept p"
  by (simp_all add: pool_kept_def)

lemma peer_inv_data:
  "peer_inv p \<Longrightarrow> wf_ctx ctx \<Longrightarrow> peer_inv (p\<lparr>p_check_data := Some ctx\<rparr>)"
  using peer_conf_ok_data [of p ctx] by (simp add: peer_inv_def)

lemma send_request_ok:
  assumes inv: "peer_inv p" and c: "p_connection p = Some c" and chk: "in_check p" and wf: "wf_ctx ctx"
  shows "slot_step_ok (send_request e c ctx (p, s))"
proof -
  obtain r b where l: "send_loop (e_send e) (x_send ctx) = (r, b)" by fastforce
  from send_loop_keeps [OF l] wf have wf': "wf_ctx (ctx\<lparr>x_send := b\<rparr>)"
    by (auto simp: wf_ctx_def)
  let ?p = "p\<lparr>p_check_data := Some (ctx\<lparr>x_send := b\<rparr>)\<rparr>"
  have inv': "peer_inv ?p" by (rule peer_inv_data [OF inv wf'])
  have "peer_inv (?p\<lparr>p_state := Check_Send_Done,
      p_connection := Some (c\<lparr>c_requests := c_requests c + 1\<rparr>)\<rparr>)"
    using inv' c chk by (simp add: peer_inv_def in_check_def conn_ok_def)
  then show ?thesis
    using l inv' peer_inv_D [OF inv'] by (simp add: send_request_def Let_def check_done_step)
qed

lemma send_peer_ok:
  assumes inv: "peer_inv p" and chk: "in_check p"
  shows "slot_step_ok (send_peer e (p, s))"
proof -
  from inv chk obtain c where c: "p_connection p = Some c"
    by (auto simp: peer_inv_def conn_ok_def split: option.splits)
  note d = peer_inv_D [OF inv]
  have z: "wf_ctx ctx_zero" by (simp add: ctx_zero_def wf_ctx_def wf_recv_def)
  have ctx: "wf_ctx ctx" if "p_check_data p = Some ctx" for ctx
    using d(1) that by (simp add: peer_conf_ok_def)
  have "slot_step_ok (check_done e False (p\<lparr>p_check_data := Some ctx_zero\<rparr>, s))"
    using d z by (simp add: check_done_step peer_conf_ok_data)
  with c d chk show ?thesis
    using ctx send_request_ok [OF inv c chk] pk.init_wf
    by (auto simp: send_peer_def check_done_step inv split: option.split)
qed

text \<open>The receive loop stays inside its block, and what is received is appended.\<close>

definition stored :: "ngx_buf_t \<Rightarrow> mem \<Rightarrow> string" where
  "stored b m = (case b_blk b of None \<Rightarrow> [] | Some k \<Rightarrow> take (b_last b) (m ! k))"

lemma recv_grow_ok:
  assumes "wf_recv b m" "b_blk b = Some k" "recv_grow palloc b m = Some (b', m')"
  shows "wf_recv b' m' \<and> (\<exists>k'. b_blk b' = Some k') \<and> stored b' m' = stored b m
    \<and> (b_end b > 0 \<longrightarrow> b_last b' < b_end b') \<and> (b_end b > 0 \<longrightarrow> b_end b' > 0)"
  using assms by (auto simp: recv_grow_def wf_recv_def stored_def nth_append Let_def split: if_splits)

lemma recv_io_length: "recv_io n ios = (Io_Bytes bs, r) \<Longrightarrow> length bs \<le> n"
  by (cases "(n, ios)" rule: recv_io.cases) (auto split: if_splits)

lemma recv_store_ok:
  assumes "wf_recv b m" "b_blk b = Some k" "length bs \<le> b_end b - b_last b" "recv_store bs b m = (b', m')"
  shows "wf_recv b' m' \<and> b_blk b' = Some k \<and> stored b' m' = stored b m @ bs \<and> b_end b' = b_end b"
  using assms by (auto simp: recv_store_def wf_recv_def stored_def blk_write_def min_def)

text \<open>The bytes that come in before an end, an error or a wait.\<close>

fun arriving :: "io list \<Rightarrow> string" where
  "arriving (Io_Bytes (b # bs) # r) = (b # bs) @ arriving r"
| "arriving _ = []"

lemma recv_io_arriving:
  "n > 0 \<Longrightarrow> recv_io n ios = (Io_Bytes (b # bs), r) \<Longrightarrow> arriving ios = (b # bs) @ arriving r"
proof (cases "(n, ios)" rule: recv_io.cases)
  case (2 m cs r')
  assume n: "n > 0" and io: "recv_io n ios = (Io_Bytes (b # bs), r)"
  show ?thesis
  proof (cases "length cs > n")
    case True
    with 2 io have t: "take n cs = b # bs" "r = Io_Bytes (drop n cs) # r'" by auto
    then have "cs = (b # bs) @ drop n cs" using append_take_drop_id [of n cs] by simp
    moreover from True obtain c ds where "drop n cs = c # ds" by (metis drop_eq_Nil2 leD neq_Nil_conv)
    ultimately show ?thesis using 2 t by simp
  next
    case False
    with 2 io show ?thesis by auto
  qed
qed auto

lemma recv_loop_ok:
  "\<lbrakk>wf_recv b m; b_blk b = Some k; recv_loop palloc ios b m = (r, b', m')\<rbrakk> \<Longrightarrow>
     wf_recv b' m' \<and> (\<exists>k'. b_blk b' = Some k')"
proof (induction palloc ios b m arbitrary: k rule: recv_loop.induct)
  case (1 palloc ios b m)
  show ?case
  proof (cases "recv_grow palloc b m")
    case None
    with 1 show ?thesis by (simp add: recv_loop.simps)
  next
    case (Some g)
    obtain b1 m1 where g: "g = (b1, m1)" by fastforce
    from recv_grow_ok [OF 1(2,3) Some [unfolded g]] obtain k1
      where w1: "wf_recv b1 m1" "b_blk b1 = Some k1" by blast
    obtain io r1 where io: "recv_io (b_end b1 - b_last b1) ios = (io, r1)" by fastforce
    show ?thesis
    proof (cases "\<exists>x xs. io = Io_Bytes (x # xs)")
      case True
      then obtain x xs where x: "io = Io_Bytes (x # xs)" by blast
      obtain b2 m2 where st: "recv_store (x # xs) b1 m1 = (b2, m2)" by fastforce
      from recv_store_ok [OF w1 _ st] recv_io_length [OF io [unfolded x]]
      have w2: "wf_recv b2 m2" "b_blk b2 = Some k1" by auto
      show ?thesis
        using 1(1) [OF Some g [symmetric] io [symmetric] x refl st [symmetric] w2] 1(4) Some g io x st
        by (simp add: recv_loop.simps [of palloc ios])
    next
      case False
      with 1(4) Some g io w1 show ?thesis
        by (auto simp: recv_loop.simps [of palloc ios] split: io.splits list.splits)
    qed
  qed
qed

lemma recv_io_nothing:
  "n > 0 \<Longrightarrow> recv_io n ios = (io, r) \<Longrightarrow> \<nexists>x xs. io = Io_Bytes (x # xs) \<Longrightarrow> arriving ios = []"
  by (cases n; cases ios rule: arriving.cases) (auto split: if_splits)

lemma recv_loop_stored:
  "\<lbrakk>wf_recv b m; b_blk b = Some k; b_end b > 0; \<And>n. palloc n; recv_loop palloc ios b m = (r, b', m')\<rbrakk> \<Longrightarrow>
     stored b' m' = stored b m @ arriving ios \<and> r \<noteq> Recv_Nomem"
proof (induction palloc ios b m arbitrary: k rule: recv_loop.induct)
  case (1 palloc ios b m)
  have "\<exists>b1 m1. recv_grow palloc b m = Some (b1, m1)"
    using 1(5) by (simp add: recv_grow_def Let_def)
  then obtain b1 m1 where g: "recv_grow palloc b m = Some (b1, m1)" by blast
  from recv_grow_ok [OF 1(2,3) g] 1(4) obtain k1
    where w1: "wf_recv b1 m1" "b_blk b1 = Some k1" and s1: "stored b1 m1 = stored b m"
      and lt: "b_last b1 < b_end b1" "b_end b1 > 0" by blast
  obtain io r1 where io: "recv_io (b_end b1 - b_last b1) ios = (io, r1)" by fastforce
  show ?case
  proof (cases "\<exists>x xs. io = Io_Bytes (x # xs)")
    case True
    then obtain x xs where x: "io = Io_Bytes (x # xs)" by blast
    obtain b2 m2 where st: "recv_store (x # xs) b1 m1 = (b2, m2)" by fastforce
    from recv_store_ok [OF w1 _ st] recv_io_length [OF io [unfolded x]]
    have w2: "wf_recv b2 m2" "b_blk b2 = Some k1" "stored b2 m2 = stored b1 m1 @ x # xs" "b_end b2 > 0"
      using lt by auto
    have "recv_loop palloc r1 b2 m2 = (r, b', m')"
      using 1(6) g io x st by (simp add: recv_loop.simps [of palloc ios])
    from 1(1) [OF g refl io [symmetric] x refl st [symmetric] w2(1,2,4) 1(5) this]
      recv_io_arriving [of "b_end b1 - b_last b1" ios x xs r1] lt io x w2(3) s1
    show ?thesis by simp
  next
    case False
    then have "arriving ios = []" using recv_io_nothing [OF _ io] lt by simp
    with False 1(6) g io s1 show ?thesis
      by (auto simp: recv_loop.simps [of palloc ios] split: io.splits list.splits)
  qed
qed

lemma recv_start_ok:
  assumes "wf_ctx ctx" "recv_start e ctx = Some ctx'"
  shows "wf_ctx ctx' \<and> (\<exists>k. b_blk (x_recv ctx') = Some k)"
  using assms by (auto simp: recv_start_def wf_ctx_def wf_recv_def split: if_splits)

text \<open>The parser of a peer returns on every well-formed context: true of the binary protocols, and
  the premise under which receiving cannot go wrong for the others.\<close>

definition parse_returns :: "env \<Rightarrow> ngx_upstream_check_peer_t \<Rightarrow> bool" where
  "parse_returns e p \<longleftrightarrow>
     (\<forall>q ctx. p_parse p = Some q \<longrightarrow> wf_ctx ctx \<longrightarrow> packet_parse q e (p_conf p) ctx \<noteq> None)"

lemma recv_verdict_ok:
  assumes "peer_inv p"
  shows "slot_step_ok (recv_verdict e r rc (p, s))"
  using assms by (simp add: recv_verdict_def Let_def check_done_step peer_inv_D)

lemma peer_inv_set_error: "peer_inv p \<Longrightarrow> peer_inv (set_error p)"
  by (cases "p_connection p") (simp_all add: peer_inv_def conn_ok_def set_error_def peer_conf_ok_def in_check_def)

lemma recv_response_ok:
  assumes inv: "peer_inv p" and q: "p_parse p = Some q" and wf: "wf_ctx ctx"
    and k: "b_blk (x_recv ctx) = Some k"
  shows "slot_step_ok (recv_response e ctx (p, s))
    \<or> recv_response e ctx (p, s) = None \<and> \<not> parse_returns e p"
proof -
  obtain r b m where l: "recv_loop (e_palloc e) (e_recv e) (x_recv ctx) (x_mem ctx) = (r, b, m)"
    by (metis prod_cases3)
  let ?ctx = "ctx\<lparr>x_recv := b, x_mem := m\<rparr>"
  have w: "wf_ctx ?ctx" using recv_loop_ok [OF _ k l] wf by (simp add: wf_ctx_def)
  note i = peer_inv_data [OF inv w]
  show ?thesis
  proof (cases "packet_parse q e (p_conf p) ?ctx")
    case None
    with l q w check_done_step [OF peer_inv_D [OF i]]
      check_done_step [OF peer_inv_D [OF peer_inv_set_error [OF i]]]
    show ?thesis by (auto simp: recv_response_def Let_def parse_returns_def)
  next
    case (Some x)
    obtain rc ctx2 err where x: "x = (rc, ctx2, err)" by (metis prod_cases3)
    have i2: "peer_inv (p\<lparr>p_check_data := Some ctx2\<rparr>)"
      using peer_inv_data [OF inv, of ctx2] pk.parse_wf [OF w Some [unfolded x]] by simp
    show ?thesis
      using l q Some x check_done_step [OF peer_inv_D [OF i]]
        check_done_step [OF peer_inv_D [OF peer_inv_set_error [OF i]]]
        recv_verdict_ok [OF i2] recv_verdict_ok [OF peer_inv_set_error [OF i2]]
      by (simp add: recv_response_def Let_def)
  qed
qed

lemma recv_peer_ok:
  assumes inv: "peer_inv p" and chk: "in_check p" and h: "p_recv_handler p = Recv_Handler"
  shows "slot_step_ok (recv_peer e (p, s)) \<or> recv_peer e (p, s) = None \<and> \<not> parse_returns e p"
proof -
  from inv chk obtain c where c: "p_connection p = Some c" "p_pool p \<longrightarrow> c_pool c"
    by (auto simp: peer_inv_def conn_ok_def split: option.splits)
  note d = peer_inv_D [OF inv]
  from d(1) h obtain q where q: "p_parse p = Some q" and pool: "p_pool p"
    by (auto simp: peer_conf_ok_def wf_check_type_def)
  have data: "\<exists>ctx. p_check_data p = Some ctx \<and> wf_ctx ctx" if "p_state p = Check_Send_Done"
    using inv d(1) that by (auto simp: peer_inv_def peer_conf_ok_def)
  show ?thesis
  proof (cases "p_state p = Check_Send_Done")
    case True
    with data obtain ctx where ctx: "p_check_data p = Some ctx" "wf_ctx ctx" by blast
    show ?thesis
    proof (cases "recv_start e ctx")
      case None
      with True c pool ctx d show ?thesis by (simp add: recv_peer_def check_done_step)
    next
      case (Some ctx')
      with recv_start_ok [OF ctx(2)] obtain k where "wf_ctx ctx'" "b_blk (x_recv ctx') = Some k" by blast
      with recv_response_ok [OF inv q, of ctx' k e s] True c pool ctx Some show ?thesis
        by (simp add: recv_peer_def)
    qed
  next
    case False
    with c d inv show ?thesis by (simp add: recv_peer_def check_done_step)
  qed
qed

subsection \<open>The invariant of a worker\<close>

definition quiet :: "ngx_upstream_check_peer_t \<Rightarrow> bool" where
  "quiet p \<longleftrightarrow> p_check_ev p = None \<and> p_check_timeout_ev p = None \<and> p_connection p = None"

definition proc_inv :: "check_proc \<Rightarrow> bool" where
  "proc_inv pr \<longleftrightarrow>
     (\<forall>ps. pr_peers pr = Some ps \<longrightarrow>
        (\<exists>sh. pr_shm pr = Some sh \<and> length ps \<le> length (ps_peers sh)) \<and>
        (if pr_has_cleared pr then \<forall>p \<in> set ps. quiet p else \<forall>p \<in> set ps. peer_inv p))"

lemma peer_slot_at_SomeD:
  assumes "peer_slot_at pr i = Some (p, s)"
  obtains ps sh where "pr_peers pr = Some ps" "pr_shm pr = Some sh" "i < length ps"
    "i < length (ps_peers sh)" "p = ps ! i" "s = ps_peers sh ! i"
  using assms by (auto simp: peer_slot_at_def split: option.splits if_splits)

lemma peer_slot_at_put:
  "peer_slot_at pr i = Some x \<Longrightarrow> peer_slot_at (put_peer_slot i y pr) i = Some y"
  by (cases x) (auto simp: put_peer_slot_def peer_slot_at_def split: option.splits if_splits)

lemma put_put [simp]: "put_peer_slot i x (put_peer_slot i y pr) = put_peer_slot i x pr"
  by (simp add: put_peer_slot_def option.map_comp o_def)

lemma put_peer_slot_sel [simp]:
  "pr_has_cleared (put_peer_slot i x pr) = pr_has_cleared pr"
  "pr_generation (put_peer_slot i x pr) = pr_generation pr"
  "pr_peers (put_peer_slot i x pr) = None \<longleftrightarrow> pr_peers pr = None"
  "pr_shm (put_peer_slot i x pr) = None \<longleftrightarrow> pr_shm pr = None"
  "map_option ps_generation (pr_shm (put_peer_slot i x pr)) = map_option ps_generation (pr_shm pr)"
  by (simp_all add: put_peer_slot_def option.map_comp o_def)

text \<open>A worker on peer \<open>i\<close>, before it is told to leave.\<close>

definition live_at :: "check_proc \<Rightarrow> nat \<Rightarrow> peer_slot \<Rightarrow> bool" where
  "live_at pr i x \<longleftrightarrow> proc_inv pr \<and> \<not> pr_has_cleared pr \<and> peer_slot_at pr i = Some x"

lemma live_at_inv: "live_at pr i (p, s) \<Longrightarrow> peer_inv p"
  by (auto simp: live_at_def proc_inv_def elim!: peer_slot_at_SomeD)

lemma live_at_put:
  assumes "live_at pr i x" "peer_inv (fst y)"
  shows "live_at (put_peer_slot i y pr) i y"
proof -
  obtain p s where x: "x = (p, s)" by fastforce
  from assms(1) have "proc_inv (put_peer_slot i y pr)"
    unfolding live_at_def x
    by (auto simp: proc_inv_def put_peer_slot_def assms(2)
        dest!: set_update_subset_insert [THEN subsetD] elim!: peer_slot_at_SomeD)
  with assms(1) peer_slot_at_put [of pr i x y] show ?thesis by (simp add: live_at_def)
qed

text \<open>The outcome of a handler: a state that satisfies the invariant, unless the parser failed.\<close>

definition proc_step_ok :: "bool \<Rightarrow> check_proc option \<Rightarrow> bool" where
  "proc_step_ok ret r \<longleftrightarrow> (\<exists>pr. r = Some pr \<and> proc_inv pr) \<or> r = None \<and> \<not> ret"

lemma clear_all_events_inv: "proc_inv pr \<Longrightarrow> proc_inv (ngx_http_upstream_check_clear_all_events pr)"
  by (auto simp: ngx_http_upstream_check_clear_all_events_def proc_inv_def quiet_def clear_peer_def)

lemma unless_exit_ok:
  "proc_inv pr \<Longrightarrow> (\<not> e_exit e \<Longrightarrow> proc_step_ok ret (f pr)) \<Longrightarrow> proc_step_ok ret (unless_exit e f pr)"
  using clear_all_events_inv
  by (auto simp: unless_exit_def ngx_http_upstream_check_need_exit_def proc_step_ok_def)

lemma finish_handler_inv: "proc_inv pr \<Longrightarrow> proc_inv (ngx_http_upstream_check_finish_handler e i pr)"
  using clear_all_events_inv
  by (auto simp: ngx_http_upstream_check_finish_handler_def ngx_http_upstream_check_need_exit_def)

lemma on_peer_ok:
  assumes "live_at pr i x" "slot_step_ok (f x) \<or> f x = None \<and> \<not> ret"
  shows "proc_step_ok ret (on_peer i f pr)"
proof (cases "f x")
  case None
  with assms show ?thesis by (auto simp: on_peer_def live_at_def proc_step_ok_def slot_step_ok_def)
next
  case (Some y)
  with assms have "peer_inv (fst y)" by (auto simp: slot_step_ok_def)
  from live_at_put [OF assms(1) this] Some assms(1) show ?thesis
    by (auto simp: on_peer_def live_at_def proc_step_ok_def)
qed

lemma run_handler_in_check:
  assumes l: "live_at pr i (p, s)" and chk: "in_check p"
    and h: "h = p_send_handler p \<or> h = p_recv_handler p"
  shows "proc_step_ok (parse_returns e p) (ngx_http_run_handler h e i pr)"
proof -
  note inv = live_at_inv [OF l]
  from l have pi: "proc_inv pr" by (simp add: live_at_def)
  from peer_inv_D(1) [OF inv] h have "h \<in> {Peek_Handler, Send_Handler} \<or> h = Recv_Handler \<and> p_recv_handler p = h"
    by (auto simp: peer_conf_ok_def wf_check_type_def)
  then consider "h = Peek_Handler" | "h = Send_Handler" | "h = Recv_Handler" "p_recv_handler p = Recv_Handler"
    by auto
  then show ?thesis
  proof cases
    case 1
    have "proc_step_ok (parse_returns e p) (on_peer i (peek_peer e) pr)"
      using peek_peer_ok [OF inv] by (intro on_peer_ok [OF l]) simp
    then have "proc_step_ok (parse_returns e p)
        (map_option (ngx_http_upstream_check_finish_handler e i) (on_peer i (peek_peer e) pr))"
      by (auto simp: proc_step_ok_def finish_handler_inv)
    then show ?thesis
      using 1 unless_exit_ok [OF pi] by (simp add: ngx_http_upstream_check_peek_handler_def)
  next
    case 2
    with send_peer_ok [OF inv chk] show ?thesis
      by (auto simp: ngx_http_upstream_check_send_handler_def intro!: unless_exit_ok [OF pi] on_peer_ok [OF l])
  next
    case 3
    with recv_peer_ok [OF inv chk] show ?thesis
      by (auto simp: ngx_http_upstream_check_recv_handler_def intro!: unless_exit_ok [OF pi] on_peer_ok [OF l])
  qed
qed

lemma connect_done_inv:
  assumes "peer_conf_ok p" "p_pool p \<longrightarrow> c_pool c" "connect_done e c (p, s) = (p', s')"
  shows "peer_inv p' \<and> in_check p' \<and> s' = s \<and> p_send_handler p' = p_send_handler p
    \<and> p_parse p' = p_parse p \<and> p_conf p' = p_conf p"
  using assms by (auto simp: connect_done_def peer_inv_def conn_ok_def in_check_def peer_conf_ok_def)

lemma parse_returns_env [simp]: "parse_returns (e\<lparr>e_peek := x\<rparr>) p = parse_returns e p"
proof -
  have "http_body_verdict (e\<lparr>e_peek := x\<rparr>) = http_body_verdict e"
    by (intro ext) (simp add: http_body_verdict_def Let_def split: option.split)
  then have "ngx_http_upstream_check_http_parse (e\<lparr>e_peek := x\<rparr>) uc ctx
      = ngx_http_upstream_check_http_parse e uc ctx" for uc ctx
    unfolding ngx_http_upstream_check_http_parse_def by (simp only:)
  then have "packet_parse q (e\<lparr>e_peek := x\<rparr>) uc ctx = packet_parse q e uc ctx" for q uc ctx
    by (cases q) simp_all
  then show ?thesis by (simp add: parse_returns_def)
qed

lemma parse_returns_cong: "p_parse p' = p_parse p \<Longrightarrow> p_conf p' = p_conf p \<Longrightarrow> parse_returns e p' = parse_returns e p"
  by (simp add: parse_returns_def)

lemma connect_run_ok:
  assumes l: "live_at pr i (p0, s0)" and "peer_conf_ok p" "p_pool p \<longrightarrow> c_pool c"
    and e': "e' = e \<or> e' = e\<lparr>e_peek := x\<rparr>"
  shows "proc_step_ok (parse_returns e p)
      (ngx_http_run_handler (p_send_handler p) e' i (put_peer_slot i (connect_done e c (p, s)) pr))"
    and "proc_inv (put_peer_slot i (connect_done e c (p, s)) pr)"
proof -
  obtain p' s' where d: "connect_done e c (p, s) = (p', s')" by fastforce
  note i = connect_done_inv [OF assms(2,3) d]
  from live_at_put [OF l, of "(p', s')"] i have l': "live_at (put_peer_slot i (p', s') pr) i (p', s')" by simp
  then show "proc_inv (put_peer_slot i (connect_done e c (p, s)) pr)" by (simp add: d live_at_def)
  from run_handler_in_check [OF l' _ , of "p_send_handler p" e'] i e' parse_returns_cong [of p' p e]
  show "proc_step_ok (parse_returns e p)
      (ngx_http_run_handler (p_send_handler p) e' i (put_peer_slot i (connect_done e c (p, s)) pr))"
    by (auto simp: d)
qed

lemma connect_new_ok:
  assumes l: "live_at pr i (p, s)" and e': "e' = e \<or> e' = e\<lparr>e_peek := x\<rparr>"
  shows "proc_step_ok (parse_returns e p) (connect_new e e' i (p, s) pr)"
proof -
  note d = peer_inv_D [OF live_at_inv [OF l]]
  let ?q = "p\<lparr>p_connection := None\<rparr>"
  have fresh: "peer_conf_ok ?q" "pool_kept ?q" using d by (simp_all add: pool_kept_def)
  have new: "p_pool ?q \<longrightarrow> c_pool (new_connection ?q)" by (simp add: new_connection_def)
  obtain rc con where rc: "ngx_event_connect_peer (e_connect e) = (rc, con)" by fastforce
  from check_done_ok [OF fresh, of e False s] obtain p' s'
    where cd: "check_done e False (?q, s) = Some (p', s')" "peer_inv p'" by blast
  have ret: "parse_returns e ?q = parse_returns e p" by (rule parse_returns_cong) simp_all
  note run = connect_run_ok [OF l fresh(1) new e', where s = s, unfolded ret]
  have "proc_inv (put_peer_slot i (p', s') pr)"
    using live_at_put [OF l, of "(p', s')"] cd(2) by (simp add: live_at_def)
  with run show ?thesis
    by (simp add: connect_new_def rc cd(1) Let_def) (simp add: proc_step_ok_def)
qed

lemma connect_handler_ok:
  assumes l: "live_at pr i (p, s)"
  shows "proc_step_ok (parse_returns e p) (ngx_http_upstream_check_connect_handler e i pr)"
proof -
  note d = peer_inv_D [OF live_at_inv [OF l]]
  from l have pi: "proc_inv pr" and at: "peer_slot_at pr i = Some (p, s)" by (simp_all add: live_at_def)
  have old: "p_pool p \<longrightarrow> c_pool c" if "p_connection p = Some c" for c
    using d(2) that by (simp add: pool_kept_def)
  let ?e = "e\<lparr>e_peek := tl (e_peek e)\<rparr>"
  show ?thesis
    unfolding ngx_http_upstream_check_connect_handler_def
    using at old connect_new_ok [OF l, of e e] connect_new_ok [OF l, of ?e e "tl (e_peek e)"]
      connect_run_ok(1) [OF l d(1), of _ ?e e "tl (e_peek e)" s]
    by (intro unless_exit_ok [OF pi]) (cases "p_connection p"; simp add: Let_def)
qed

lemma begin_timer_inv: "peer_inv p \<Longrightarrow> peer_inv (begin_timer e p)"
  by (simp add: begin_timer_def peer_inv_def in_check_def)

lemma begin_handler_ok:
  assumes l: "live_at pr i (p, s)"
  shows "proc_step_ok (parse_returns e p) (ngx_http_upstream_check_begin_handler e i pr)"
proof -
  from l have pi: "proc_inv pr" and at: "peer_slot_at pr i = Some (p, s)" by (simp_all add: live_at_def)
  let ?p = "begin_timer e p"
  have put: "live_at (put_peer_slot i (?p, s') pr) i (?p, s')" for s'
    using live_at_put [OF l] begin_timer_inv [OF live_at_inv [OF l]] by simp
  have ret: "parse_returns e ?p = parse_returns e p"
    by (rule parse_returns_cong) (simp_all add: begin_timer_def)
  have inv: "proc_inv (put_peer_slot i (?p, s') pr)" for s'
    using put [of s'] by (simp add: live_at_def)
  show ?thesis
    unfolding ngx_http_upstream_check_begin_handler_def
  proof (rule unless_exit_ok [OF pi], goal_cases)
    case 1
    show ?case
      using connect_handler_ok [OF put, of e, unfolded ret] inv pi at
      by (simp add: Let_def proc_step_ok_def)
  qed
qed

subsection \<open>Events\<close>

text \<open>What can happen to peer \<open>i\<close> of a worker: one of its two timers is due (the event loop clears
  \<open>timer_set\<close> before it calls the handler), or its connection becomes writable or readable.\<close>

datatype check_event = Ev_Begin | Ev_Timeout | Ev_Write | Ev_Read

definition event_enabled :: "env \<Rightarrow> nat \<Rightarrow> check_event \<Rightarrow> check_proc \<Rightarrow> bool" where
  "event_enabled e i ev pr =
     (case peer_slot_at pr i of
        None \<Rightarrow> False
      | Some (p, s) \<Rightarrow>
          (case ev of
             Ev_Begin \<Rightarrow> timer_due (e_now e) (p_check_ev p)
           | Ev_Timeout \<Rightarrow> timer_due (e_now e) (p_check_timeout_ev p)
           | _ \<Rightarrow> p_connection p \<noteq> None))"

definition ngx_http_check_event :: "env \<Rightarrow> nat \<Rightarrow> check_event \<Rightarrow> check_proc \<Rightarrow> check_proc option" where
  "ngx_http_check_event e i ev pr =
     (case peer_slot_at pr i of
        None \<Rightarrow> None
      | Some (p, s) \<Rightarrow>
          (case ev of
             Ev_Begin \<Rightarrow>
               ngx_http_upstream_check_begin_handler e i (put_peer_slot i (p\<lparr>p_check_ev := None\<rparr>, s) pr)
           | Ev_Timeout \<Rightarrow>
               ngx_http_upstream_check_timeout_handler e i
                 (put_peer_slot i (p\<lparr>p_check_timeout_ev := None\<rparr>, s) pr)
           | Ev_Write \<Rightarrow>
               (case p_connection p of
                  None \<Rightarrow> None | Some c \<Rightarrow> ngx_http_run_handler (c_write_handler c) e i pr)
           | Ev_Read \<Rightarrow>
               (case p_connection p of
                  None \<Rightarrow> None | Some c \<Rightarrow> ngx_http_run_handler (c_read_handler c) e i pr)))"

lemma slot_list_inv:
  assumes "proc_inv pr" "\<not> pr_has_cleared pr" "peer_slot_at pr i = Some (p, s)"
  shows "live_at pr i (p, s)" "peer_inv p"
  using assms live_at_inv [of pr i p s] by (auto simp: live_at_def)

lemma timeout_event_ok:
  assumes l: "live_at pr i (p, s)" and t: "p_check_timeout_ev p \<noteq> None"
  shows "proc_step_ok ret (ngx_http_upstream_check_timeout_handler e i
           (put_peer_slot i (p\<lparr>p_check_timeout_ev := None\<rparr>, s) pr))"
proof -
  let ?q = "p\<lparr>p_check_timeout_ev := None\<rparr>" and ?pr = "put_peer_slot i (p\<lparr>p_check_timeout_ev := None\<rparr>, s) pr"
  note inv = live_at_inv [OF l]
  from l have at: "peer_slot_at pr i = Some (p, s)" by (simp add: live_at_def)
  have con: "p_connection ?q \<noteq> None" using inv t by (auto simp: peer_inv_def conn_ok_def split: option.splits)
  obtain y where y: "timeout_peer e (?q, s) = Some y" "peer_inv (fst y)"
    using timeout_peer_ok [of ?q e s] peer_inv_D [OF inv] con
    by (auto simp: slot_step_ok_def pool_kept_def)
  have fin: "on_peer i (timeout_peer e) ?pr = Some (put_peer_slot i y pr)"
    using y peer_slot_at_put [OF at] by (simp add: on_peer_def)
  have "proc_inv (ngx_http_upstream_check_clear_all_events ?pr)"
    using l by (auto simp: live_at_def proc_inv_def ngx_http_upstream_check_clear_all_events_def
        put_peer_slot_def quiet_def clear_peer_def elim!: peer_slot_at_SomeD)
  with fin live_at_put [OF l y(2)] show ?thesis
    by (simp add: ngx_http_upstream_check_timeout_handler_def unless_exit_def proc_step_ok_def
        ngx_http_upstream_check_need_exit_def live_at_def)
qed

lemma read_write_ok:
  assumes l: "live_at pr i (p, s)" and c: "p_connection p = Some c"
  shows "proc_step_ok (parse_returns e p) (ngx_http_run_handler (c_write_handler c) e i pr)"
    and "proc_step_ok (parse_returns e p) (ngx_http_run_handler (c_read_handler c) e i pr)"
proof -
  note inv = live_at_inv [OF l]
  from l have pi: "proc_inv pr" by (simp add: live_at_def)
  from inv c have h: "c_write_handler c = (if in_check p then p_send_handler p else Dummy_Handler)"
    "c_read_handler c = (if in_check p then p_recv_handler p else Discard_Handler)"
    by (simp_all add: peer_inv_def conn_ok_def)
  have disc: "proc_step_ok ret (ngx_http_upstream_check_discard_handler e i pr)" for ret
    unfolding ngx_http_upstream_check_discard_handler_def
    using discard_peer_ok [OF inv] by (intro unless_exit_ok [OF pi] on_peer_ok [OF l]) simp
  show "proc_step_ok (parse_returns e p) (ngx_http_run_handler (c_write_handler c) e i pr)"
    using run_handler_in_check [OF l] pi
    by (cases "in_check p") (auto simp: h ngx_http_upstream_check_dummy_handler_def proc_step_ok_def)
  show "proc_step_ok (parse_returns e p) (ngx_http_run_handler (c_read_handler c) e i pr)"
    using run_handler_in_check [OF l] disc by (cases "in_check p") (auto simp: h)
qed

lemma enabled_live:
  assumes pi: "proc_inv pr" and en: "event_enabled e i ev pr"
  shows "\<exists>p s. peer_slot_at pr i = Some (p, s) \<and> \<not> pr_has_cleared pr"
proof -
  from en obtain p s where at: "peer_slot_at pr i = Some (p, s)"
    by (auto simp: event_enabled_def split: option.splits)
  have "\<not> pr_has_cleared pr"
  proof
    assume "pr_has_cleared pr"
    with pi at have "quiet p" by (auto simp: proc_inv_def elim!: peer_slot_at_SomeD)
    with en at show False
      by (simp add: event_enabled_def quiet_def timer_due_def split: check_event.splits)
  qed
  with at show ?thesis by blast
qed

lemma check_event_ok:
  assumes pi: "proc_inv pr" and en: "event_enabled e i ev pr"
  shows "\<exists>p s. peer_slot_at pr i = Some (p, s)
    \<and> proc_step_ok (parse_returns e p) (ngx_http_check_event e i ev pr)"
proof -
  obtain p s where at: "peer_slot_at pr i = Some (p, s)" and nc: "\<not> pr_has_cleared pr"
    using enabled_live [OF pi en] by blast
  then have l: "live_at pr i (p, s)" using pi by (simp add: live_at_def)
  have "proc_step_ok (parse_returns e p) (ngx_http_check_event e i ev pr)"
  proof (cases ev)
    case Ev_Begin
    have "peer_inv (p\<lparr>p_check_ev := None\<rparr>)"
      using live_at_inv [OF l] by (simp add: peer_inv_def in_check_def)
    from begin_handler_ok [OF live_at_put [OF l, of "(p\<lparr>p_check_ev := None\<rparr>, s)"], of e] this
    have "proc_step_ok (parse_returns e (p\<lparr>p_check_ev := None\<rparr>))
      (ngx_http_upstream_check_begin_handler e i (put_peer_slot i (p\<lparr>p_check_ev := None\<rparr>, s) pr))" by simp
    with Ev_Begin at parse_returns_cong [of "p\<lparr>p_check_ev := None\<rparr>" p e] show ?thesis
      by (simp add: ngx_http_check_event_def)
  next
    case Ev_Timeout
    with en at timeout_event_ok [OF l] show ?thesis
      by (auto simp: ngx_http_check_event_def event_enabled_def timer_due_def split: option.splits)
  next
    case Ev_Write
    with en at read_write_ok(1) [OF l] show ?thesis
      by (auto simp: ngx_http_check_event_def event_enabled_def split: option.splits)
  next
    case Ev_Read
    with en at read_write_ok(2) [OF l] show ?thesis
      by (auto simp: ngx_http_check_event_def event_enabled_def split: option.splits)
  qed
  with at show ?thesis by blast
qed

text \<open>The parsers of mysql, ajp and ssl_hello read only inside the buffer.\<close>

lemma plain_parse_returns:
  assumes "p_parse p \<notin> {Some Parse_Http, Some Parse_Fastcgi}"
  shows "parse_returns e p"
  unfolding parse_returns_def
proof (intro allI impI)
  fix q ctx assume "p_parse p = Some q"
  with assms show "packet_parse q e (p_conf p) ctx \<noteq> None" by (cases q) simp_all
qed

subsection \<open>Properties\<close>

text \<open>C3: Rise and fall. Starting from cleared counters, after any history of check results the peer
  is down exactly when the reference machine says so: a failure takes it down when the last
  \<open>fall\<close> results are failures, a success brings it up when the last \<open>rise\<close> results are
  successes.\<close>

theorem rise_fall_hysteresis:
  assumes "sh_rise_count s = 0" "sh_fall_count s = 0" "sh_down s \<in> {0, 1}"
    and "length rs < 18446744073709551615"
  shows "sh_down (fold (ngx_http_upstream_check_status_update e uc) rs s) =
    (if down_spec (unat (uc_rise_count uc)) (unat (uc_fall_count uc)) (sh_down s \<noteq> 0) (rev rs) then 1 else 0)"
  using run_results_down [OF assms, of e uc] by (auto simp: run_results_def)

definition sample_shm :: ngx_upstream_check_peer_shm_t where
  "sample_shm =
     \<lparr>sh_owner = NGX_INVALID_PID, sh_access_time = 0, sh_fall_count = 0, sh_rise_count = 0,
      sh_busyness = 0, sh_access_count = 0, sh_sockaddr = None, sh_socklen = 0, sh_down = 0,
      sh_upstream_name = None\<rparr>"

lemma rise_fall_hysteresis_witness:
  "sh_down (fold (ngx_http_upstream_check_status_update sample_env sample_conf)
      [False, True, False, False, True, True] sample_shm) = 1
   \<and> sh_down (fold (ngx_http_upstream_check_status_update sample_env sample_conf)
      [False, True, False, False, True, True, True] sample_shm) = 0"
  using rise_fall_hysteresis [of sample_shm "[False, True, False, False, True, True]" sample_env sample_conf]
    rise_fall_hysteresis [of sample_shm "[False, True, False, False, True, True, True]" sample_env sample_conf]
  by (simp add: sample_shm_def sample_conf_def)

text \<open>A worker with one mysql peer, just started: its first check is due.\<close>

definition mysql_conf :: ngx_upstream_check_srv_conf_t where
  "mysql_conf = sample_conf\<lparr>uc_check_type_conf := Ptr (ngx_check_types ! 4), uc_send := None,
     uc_expect_body_regex := None\<rparr>"

definition sample_addr :: ngx_addr_t where
  "sample_addr = \<lparr>a_sockaddr = ''sockaddr'', a_name = ''10.0.0.1:80''\<rparr>"

definition started_peer :: "ngx_upstream_check_srv_conf_t \<Rightarrow> ngx_check_conf_t \<Rightarrow> ngx_upstream_check_peer_t" where
  "started_peer uc cf =
     \<lparr>p_state = Check_Zero, p_pool = ct_need_pool cf, p_index = 0, p_upstream_name = ''backend'',
      p_check_peer_addr = sample_addr, p_peer_addr = sample_addr, p_check_ev = Some 99000,
      p_check_timeout_ev = None, p_pc_type = SOCK_STREAM, p_connection = None, p_check_data = None,
      p_send_handler = ct_send_handler cf, p_recv_handler = ct_recv_handler cf,
      p_init = ct_init cf, p_parse = ct_parse cf, p_reinit = ct_reinit cf, p_conf = uc\<rparr>"

definition started_proc :: "ngx_upstream_check_srv_conf_t \<Rightarrow> ngx_check_conf_t \<Rightarrow> check_proc" where
  "started_proc uc cf =
     \<lparr>pr_peers = Some [started_peer uc cf],
      pr_shm = Some \<lparr>ps_generation = 1, ps_checksum = 0, ps_number = 1, ps_peers = [sample_shm]\<rparr>,
      pr_has_cleared = False, pr_generation = 1\<rparr>"

lemma started_proc_inv:
  assumes "uc_check_type_conf uc = Ptr cf" "cf \<in> set ngx_check_types \<union> set ngx_stream_check_types"
  shows "proc_inv (started_proc uc cf)"
  using assms wf_check_types [of cf]
  by (simp add: started_proc_def started_peer_def proc_inv_def peer_inv_def peer_conf_ok_def conn_ok_def
      in_check_def)

end
