(* ===== verification/Stream_Check.thy ===== *)
theory Stream_Check
  imports Peer_Inv
begin

text \<open>
  The check engine of \<open>ngx_stream_upstream_check_module.c\<close>. Most of it is the code of the http
  module under other names: those functions are written out again and proved equal, so that the
  facts of \<open>Peer_Inv\<close> hold of them. The differences are modelled as they are: connecting (the
  socket type, and a failed connect that does not end the check), the begin handler's order of
  tests, and the timeout of a udp check, which counts as success.
\<close>

subsection \<open>Interface for the load balancers\<close>

definition ngx_stream_upstream_check_peer_down :: "check_proc \<Rightarrow> ngx_uint_t \<Rightarrow> ngx_uint_t option" where
  "ngx_stream_upstream_check_peer_down pr index =
     (case pr_peers pr of
        None \<Rightarrow> Some 0
      | Some ps \<Rightarrow>
          if unat index \<ge> length ps then Some 0
          else map_option (\<lambda>x. sh_down (snd x)) (peer_slot_at pr (unat index)))"

definition ngx_stream_upstream_check_get_peer :: "ngx_uint_t \<Rightarrow> check_proc \<Rightarrow> check_proc option" where
  "ngx_stream_upstream_check_get_peer index pr =
     (case pr_peers pr of
        None \<Rightarrow> Some pr
      | Some ps \<Rightarrow>
          if unat index \<ge> length ps then Some pr
          else on_peer (unat index)
                 (\<lambda>(p, s). Some (p, s\<lparr>sh_busyness := sh_busyness s + 1,
                                     sh_access_count := sh_access_count s + 1\<rparr>)) pr)"

definition ngx_stream_upstream_check_free_peer :: "ngx_uint_t \<Rightarrow> check_proc \<Rightarrow> check_proc option" where
  "ngx_stream_upstream_check_free_peer index pr =
     (case pr_peers pr of
        None \<Rightarrow> Some pr
      | Some ps \<Rightarrow>
          if unat index \<ge> length ps then Some pr
          else on_peer (unat index)
                 (\<lambda>(p, s). Some (p, if sh_busyness s > 0 then s\<lparr>sh_busyness := sh_busyness s - 1\<rparr>
                                   else s)) pr)"

subsection \<open>The parts that are the same\<close>

definition ngx_stream_upstream_check_status_update ::
  "env \<Rightarrow> ngx_upstream_check_srv_conf_t \<Rightarrow> bool \<Rightarrow> ngx_upstream_check_peer_shm_t
     \<Rightarrow> ngx_upstream_check_peer_shm_t" where
  "ngx_stream_upstream_check_status_update e uc result s =
     (let s = (if result
               then
                 let s = s\<lparr>sh_rise_count := sh_rise_count s + 1, sh_fall_count := 0\<rparr>
                 in if sh_down s \<noteq> 0 \<and> sh_rise_count s \<ge> uc_rise_count uc then s\<lparr>sh_down := 0\<rparr> else s
               else
                 let s = s\<lparr>sh_rise_count := 0, sh_fall_count := sh_fall_count s + 1\<rparr>
                 in if sh_down s = 0 \<and> sh_fall_count s \<ge> uc_fall_count uc then s\<lparr>sh_down := 1\<rparr> else s)
      in s\<lparr>sh_access_time := e_now e\<rparr>)"

definition ngx_stream_upstream_check_clean_event :: "peer_slot \<Rightarrow> peer_slot option" where
  "ngx_stream_upstream_check_clean_event x =
     (case x of (p, s) \<Rightarrow>
        map_option
          (\<lambda>con.
             (p\<lparr>p_connection := con, p_check_timeout_ev := None, p_state := Check_All_Done,
                p_check_data := (case (p_check_data p, p_reinit p) of
                                   (Some d, Some r) \<Rightarrow> Some (packet_reinit r d)
                                 | (d, _) \<Rightarrow> d)\<rparr>,
              s\<lparr>sh_owner := NGX_INVALID_PID\<rparr>))
          (clean_connection (p_conf p) (p_connection p)))"

definition stream_check_done :: "env \<Rightarrow> bool \<Rightarrow> peer_slot \<Rightarrow> peer_slot option" where
  "stream_check_done e result x =
     (case x of (p, s) \<Rightarrow>
        ngx_stream_upstream_check_clean_event
          (p, ngx_stream_upstream_check_status_update e (p_conf p) result s))"

definition ngx_stream_upstream_check_clear_all_events :: "check_proc \<Rightarrow> check_proc" where
  "ngx_stream_upstream_check_clear_all_events pr =
     (if pr_has_cleared pr \<or> pr_peers pr = None then pr
      else pr\<lparr>pr_has_cleared := True, pr_peers := map_option (map clear_peer) (pr_peers pr)\<rparr>)"

definition ngx_stream_upstream_check_need_exit :: "env \<Rightarrow> check_proc \<Rightarrow> bool \<times> check_proc" where
  "ngx_stream_upstream_check_need_exit e pr =
     (if e_exit e then (True, ngx_stream_upstream_check_clear_all_events pr) else (False, pr))"

definition ngx_stream_upstream_check_finish_handler :: "env \<Rightarrow> nat \<Rightarrow> check_proc \<Rightarrow> check_proc" where
  "ngx_stream_upstream_check_finish_handler e i pr = snd (ngx_stream_upstream_check_need_exit e pr)"

definition stream_unless_exit :: "env \<Rightarrow> (check_proc \<Rightarrow> check_proc option) \<Rightarrow> check_proc \<Rightarrow> check_proc option" where
  "stream_unless_exit e f pr =
     (case ngx_stream_upstream_check_need_exit e pr of
        (True, pr) \<Rightarrow> Some pr
      | (False, pr) \<Rightarrow> f pr)"

definition ngx_stream_upstream_check_peek_one_byte :: "env \<Rightarrow> ngx_rc" where
  "ngx_stream_upstream_check_peek_one_byte e =
     (case e_peek e of
        [] \<Rightarrow> NGX_OK
      | (n, eagain) # _ \<Rightarrow> if n = 1 \<or> n = - 1 \<and> eagain then NGX_OK else NGX_ERROR)"

definition stream_peek_peer :: "env \<Rightarrow> peer_slot \<Rightarrow> peer_slot option" where
  "stream_peek_peer e x =
     (case x of (p, s) \<Rightarrow>
        if ngx_stream_upstream_check_peek_one_byte e = NGX_OK then stream_check_done e True (p, s)
        else stream_check_done e False (set_error p, s))"

definition ngx_stream_upstream_check_peek_handler :: "env \<Rightarrow> nat \<Rightarrow> check_proc \<Rightarrow> check_proc option" where
  "ngx_stream_upstream_check_peek_handler e i pr =
     stream_unless_exit e
       (\<lambda>pr. map_option (ngx_stream_upstream_check_finish_handler e i) (on_peer i (stream_peek_peer e) pr)) pr"

definition stream_send_request :: "env \<Rightarrow> ngx_connection_t \<Rightarrow> check_ctx_t \<Rightarrow> peer_slot \<Rightarrow> peer_slot option" where
  "stream_send_request e c ctx x =
     (case x of (p, s) \<Rightarrow>
        (case send_loop (e_send e) (x_send ctx) of
           (r, b) \<Rightarrow>
             let p = p\<lparr>p_check_data := Some (ctx\<lparr>x_send := b\<rparr>)\<rparr>
             in if r = Send_Wait then Some (p, s)
                else if r = Send_Fail then stream_check_done e False (set_error p, s)
                else if s_pos b = s_last b
                then Some (p\<lparr>p_state := Check_Send_Done,
                             p_connection := Some (c\<lparr>c_requests := c_requests c + 1\<rparr>)\<rparr>, s)
                else Some (p, s)))"

definition stream_send_peer :: "env \<Rightarrow> peer_slot \<Rightarrow> peer_slot option" where
  "stream_send_peer e x =
     (case x of (p, s) \<Rightarrow>
        (case p_connection p of
           None \<Rightarrow> None
         | Some c \<Rightarrow>
             if \<not> c_pool c then stream_check_done e False (p, s)
             else if p_state p \<noteq> Check_Connect_Done
             then (if e_write_event e \<noteq> NGX_OK then stream_check_done e False (p, s) else Some (p, s))
             else (case p_check_data p of
                     Some ctx \<Rightarrow> stream_send_request e c ctx (p, s)
                   | None \<Rightarrow>
                       if \<not> e_palloc e sizeof_check_ctx then stream_check_done e False (p, s)
                       else (case p_init p of
                               None \<Rightarrow> stream_check_done e False (p\<lparr>p_check_data := Some ctx_zero\<rparr>, s)
                             | Some i \<Rightarrow> stream_send_request e c (packet_init i (p_conf p) ctx_zero) (p, s)))))"

definition ngx_stream_upstream_check_send_handler :: "env \<Rightarrow> nat \<Rightarrow> check_proc \<Rightarrow> check_proc option" where
  "ngx_stream_upstream_check_send_handler e i pr = stream_unless_exit e (on_peer i (stream_send_peer e)) pr"

definition stream_recv_verdict ::
  "env \<Rightarrow> recv_end \<Rightarrow> ngx_rc \<Rightarrow> peer_slot \<Rightarrow> peer_slot option" where
  "stream_recv_verdict e r rc x =
     (case x of (p, s) \<Rightarrow>
        if rc = NGX_AGAIN \<and> r \<noteq> Recv_Closed then Some (p, s)
        else
          let ok = (rc \<noteq> NGX_AGAIN \<and> rc \<noteq> NGX_ERROR);
              p = (if rc = NGX_AGAIN then set_error p else p)
          in stream_check_done e ok (p\<lparr>p_state := Check_Recv_Done\<rparr>, s))"

definition stream_recv_response :: "env \<Rightarrow> check_ctx_t \<Rightarrow> peer_slot \<Rightarrow> peer_slot option" where
  "stream_recv_response e ctx x =
     (case x of (p, s) \<Rightarrow>
        (case recv_loop (e_palloc e) (e_recv e) (x_recv ctx) (x_mem ctx) of
           (r, b, m) \<Rightarrow>
             let ctx = ctx\<lparr>x_recv := b, x_mem := m\<rparr>;
                 p = p\<lparr>p_check_data := Some ctx\<rparr>
             in if r = Recv_Nomem then stream_check_done e False (p, s)
                else if r = Recv_Fail then stream_check_done e False (set_error p, s)
                else (case p_parse p of
                        None \<Rightarrow> None
                      | Some q \<Rightarrow>
                          (case packet_parse q e (p_conf p) ctx of
                             None \<Rightarrow> None
                           | Some (rc, ctx, err) \<Rightarrow>
                               let p = p\<lparr>p_check_data := Some ctx\<rparr>
                               in stream_recv_verdict e r rc (if err then set_error p else p, s)))))"

definition stream_recv_peer :: "env \<Rightarrow> peer_slot \<Rightarrow> peer_slot option" where
  "stream_recv_peer e x =
     (case x of (p, s) \<Rightarrow>
        (case p_connection p of
           None \<Rightarrow> None
         | Some c \<Rightarrow>
             if p_state p \<noteq> Check_Send_Done
             then (if e_read_event e \<noteq> NGX_OK then stream_check_done e False (p, s) else Some (p, s))
             else (case p_check_data p of
                     None \<Rightarrow> None
                   | Some ctx \<Rightarrow>
                       if \<not> c_pool c then None
                       else (case recv_start e ctx of
                               None \<Rightarrow> stream_check_done e False (p, s)
                             | Some ctx \<Rightarrow> stream_recv_response e ctx (p, s)))))"

definition ngx_stream_upstream_check_recv_handler :: "env \<Rightarrow> nat \<Rightarrow> check_proc \<Rightarrow> check_proc option" where
  "ngx_stream_upstream_check_recv_handler e i pr = stream_unless_exit e (on_peer i (stream_recv_peer e)) pr"

definition stream_discard_peer :: "env \<Rightarrow> peer_slot \<Rightarrow> peer_slot option" where
  "stream_discard_peer e x =
     (case x of (p, s) \<Rightarrow>
        if discard_loop (e_recv e) \<and> e_read_event e = NGX_OK then Some (p, s)
        else ngx_stream_upstream_check_clean_event (set_error p, s))"

definition ngx_stream_upstream_check_discard_handler :: "env \<Rightarrow> nat \<Rightarrow> check_proc \<Rightarrow> check_proc option" where
  "ngx_stream_upstream_check_discard_handler e i pr = stream_unless_exit e (on_peer i (stream_discard_peer e)) pr"

definition ngx_stream_upstream_check_dummy_handler :: "env \<Rightarrow> nat \<Rightarrow> check_proc \<Rightarrow> check_proc option" where
  "ngx_stream_upstream_check_dummy_handler e i pr = Some pr"

fun ngx_stream_run_handler :: "ev_handler \<Rightarrow> env \<Rightarrow> nat \<Rightarrow> check_proc \<Rightarrow> check_proc option" where
  "ngx_stream_run_handler Peek_Handler = ngx_stream_upstream_check_peek_handler"
| "ngx_stream_run_handler Send_Handler = ngx_stream_upstream_check_send_handler"
| "ngx_stream_run_handler Recv_Handler = ngx_stream_upstream_check_recv_handler"
| "ngx_stream_run_handler Dummy_Handler = ngx_stream_upstream_check_dummy_handler"
| "ngx_stream_run_handler Discard_Handler = ngx_stream_upstream_check_discard_handler"

definition ngx_stream_upstream_check_add_timers ::
  "ngx_msec_t \<Rightarrow> (nat \<Rightarrow> bool) \<Rightarrow> (nat \<Rightarrow> ngx_uint_t) \<Rightarrow> check_proc \<Rightarrow> (ngx_rc \<times> check_proc) option" where
  "ngx_stream_upstream_check_add_timers now pool rnd pr =
     (case (pr_peers pr, pr_shm pr) of
        (Some ps, Some sh) \<Rightarrow>
          map_option (\<lambda>(rc, ps). (rc, pr\<lparr>pr_peers := Some ps\<rparr>)) (add_timers_loop now pool rnd 0 ps)
      | _ \<Rightarrow> Some (NGX_OK, pr))"

subsection \<open>Connecting\<close>

text \<open>A failed connect updates the status and returns: the check is not cleaned up and the slot
  keeps its owner.\<close>

definition stream_connect_new :: "env \<Rightarrow> env \<Rightarrow> nat \<Rightarrow> peer_slot \<Rightarrow> check_proc \<Rightarrow> check_proc option" where
  "stream_connect_new e e' i x pr =
     (case x of (p, s) \<Rightarrow>
        (case uc_check_type_conf (p_conf p) of
           Ptr cf \<Rightarrow>
             let p = p\<lparr>p_connection := None,
                       p_pc_type := (if ct_type cf = Ck_Udp then SOCK_DGRAM else SOCK_STREAM)\<rparr>
             in (case ngx_event_connect_peer (e_connect e) of
                   (rc, _) \<Rightarrow>
                     if rc = NGX_ERROR \<or> rc = NGX_DECLINED
                     then Some (put_peer_slot i
                            (p, ngx_stream_upstream_check_status_update e (p_conf p) False s) pr)
                     else
                       let pr = put_peer_slot i (connect_done e (new_connection p) (p, s)) pr
                       in if rc = NGX_OK then ngx_stream_run_handler (p_send_handler p) e' i pr
                          else Some pr)
         | _ \<Rightarrow> None))"

definition ngx_stream_upstream_check_connect_handler :: "env \<Rightarrow> nat \<Rightarrow> check_proc \<Rightarrow> check_proc option" where
  "ngx_stream_upstream_check_connect_handler e i pr =
     stream_unless_exit e
       (\<lambda>pr.
          (case peer_slot_at pr i of
             None \<Rightarrow> None
           | Some (p, s) \<Rightarrow>
               (case p_connection p of
                  None \<Rightarrow> stream_connect_new e e i (p, s) pr
                | Some c \<Rightarrow>
                    let e' = e\<lparr>e_peek := tl (e_peek e)\<rparr>
                    in if ngx_stream_upstream_check_peek_one_byte e = NGX_OK
                       then ngx_stream_run_handler (p_send_handler p) e' i
                              (put_peer_slot i (connect_done e c (p, s)) pr)
                       else stream_connect_new e e' i (p, s) pr)))
       pr"

subsection \<open>The timers\<close>

definition ngx_stream_upstream_check_begin_handler :: "env \<Rightarrow> nat \<Rightarrow> check_proc \<Rightarrow> check_proc option" where
  "ngx_stream_upstream_check_begin_handler e i pr =
     (if pr_peers pr = None \<or> pr_shm pr = None then Some pr
      else stream_unless_exit e
        (\<lambda>pr.
           (case peer_slot_at pr i of
              None \<Rightarrow> None
            | Some (p, s) \<Rightarrow>
                let p = begin_timer e p
                in if sh_owner s = e_pid e \<or> p_check_timeout_ev p \<noteq> None
                   then Some (put_peer_slot i (p, s) pr)
                   else if map_option ps_generation (pr_shm pr) \<noteq> Some (pr_generation pr)
                   then Some (put_peer_slot i (p, s) pr)
                   else
                     let s = begin_claim e (p_conf p) s;
                         pr = put_peer_slot i (p, s) pr
                     in if sh_owner s = e_pid e then ngx_stream_upstream_check_connect_handler e i pr
                        else Some pr))
        pr)"

text \<open>A tcp check that times out failed, a udp check that times out succeeded: no answer, but no
  error either.\<close>

definition stream_timeout_peer :: "env \<Rightarrow> peer_slot \<Rightarrow> peer_slot option" where
  "stream_timeout_peer e x =
     (case x of (p, s) \<Rightarrow>
        (case p_connection p of
           None \<Rightarrow> None
         | Some c \<Rightarrow>
             (case p_pc_type p of
                SOCK_STREAM \<Rightarrow>
                  stream_check_done e False (p\<lparr>p_connection := Some (c\<lparr>c_error := True\<rparr>)\<rparr>, s)
              | SOCK_DGRAM \<Rightarrow>
                  stream_check_done e True (p\<lparr>p_connection := Some (c\<lparr>c_error := False\<rparr>)\<rparr>, s))))"

definition ngx_stream_upstream_check_timeout_handler :: "env \<Rightarrow> nat \<Rightarrow> check_proc \<Rightarrow> check_proc option" where
  "ngx_stream_upstream_check_timeout_handler e i pr =
     stream_unless_exit e (on_peer i (stream_timeout_peer e)) pr"

definition ngx_stream_check_event :: "env \<Rightarrow> nat \<Rightarrow> check_event \<Rightarrow> check_proc \<Rightarrow> check_proc option" where
  "ngx_stream_check_event e i ev pr =
     (case peer_slot_at pr i of
        None \<Rightarrow> None
      | Some (p, s) \<Rightarrow>
          (case ev of
             Ev_Begin \<Rightarrow>
               ngx_stream_upstream_check_begin_handler e i (put_peer_slot i (p\<lparr>p_check_ev := None\<rparr>, s) pr)
           | Ev_Timeout \<Rightarrow>
               ngx_stream_upstream_check_timeout_handler e i
                 (put_peer_slot i (p\<lparr>p_check_timeout_ev := None\<rparr>, s) pr)
           | Ev_Write \<Rightarrow>
               (case p_connection p of
                  None \<Rightarrow> None | Some c \<Rightarrow> ngx_stream_run_handler (c_write_handler c) e i pr)
           | Ev_Read \<Rightarrow>
               (case p_connection p of
                  None \<Rightarrow> None | Some c \<Rightarrow> ngx_stream_run_handler (c_read_handler c) e i pr)))"

subsection \<open>The http packet functions\<close>

text \<open>The stream table's rows for http (and the udp row's \<open>init\<close> and \<open>reinit\<close>) name copies of the http
  module's packet functions.\<close>

definition ngx_stream_upstream_check_http_init ::
  "ngx_upstream_check_srv_conf_t \<Rightarrow> check_ctx_t \<Rightarrow> check_ctx_t" where
  "ngx_stream_upstream_check_http_init uc ctx =
     ctx\<lparr>x_send := \<lparr>s_bytes = send_data uc, s_pos = 0, s_last = length (send_data uc)\<rparr>,
         x_recv := recv_null, x_state := 0, x_status := status_zero\<rparr>"

definition ngx_stream_upstream_check_http_reinit :: "check_ctx_t \<Rightarrow> check_ctx_t" where
  "ngx_stream_upstream_check_http_reinit ctx =
     ctx\<lparr>x_send := (x_send ctx)\<lparr>s_pos := 0, s_last := length (s_bytes (x_send ctx))\<rparr>,
         x_recv := (x_recv ctx)\<lparr>b_pos := 0, b_last := 0\<rparr>, x_state := 0, x_status := status_zero\<rparr>"

definition ngx_stream_upstream_check_http_parse ::
  "env \<Rightarrow> ngx_upstream_check_srv_conf_t \<Rightarrow> check_ctx_t \<Rightarrow> (ngx_rc \<times> check_ctx_t \<times> bool) option" where
  "ngx_stream_upstream_check_http_parse e uc ctx =
     (if b_pos (x_recv ctx) < b_last (x_recv ctx) then
        (case ngx_upstream_check_http_parse_status_line (x_mem ctx) (x_recv ctx) (x_state ctx)
                (x_status ctx) of
           (rc, b, s, st) \<Rightarrow>
             let ctx = ctx\<lparr>x_recv := b, x_state := s, x_status := st\<rparr>
             in if rc = NGX_AGAIN \<or> rc = NGX_ERROR then Some (rc, ctx, False)
                else
                  let (code_n, err) = http_code_class (st_code st)
                  in (case (st_start st, st_end st, b_blk b) of
                        (Some a, Some z, Some k) \<Rightarrow>
                          (case store_nul (x_mem ctx) z of
                             None \<Rightarrow> None
                           | Some m \<Rightarrow>
                               (case http_content_length m a z of
                                  None \<Rightarrow> None
                                | Some cl \<Rightarrow>
                                    let body = bytes_between (b_pos b) (b_last b) (m ! k)
                                    in Some (http_body_verdict e uc code_n cl body,
                                             ctx\<lparr>x_mem := m\<rparr>, err)))
                      | _ \<Rightarrow> None))
      else Some (NGX_AGAIN, ctx, False))"

subsection \<open>The same code\<close>

lemma stream_packet_eq:
  "packet_init Init_Http = ngx_stream_upstream_check_http_init"
  "packet_reinit Reinit_Http = ngx_stream_upstream_check_http_reinit"
  "packet_parse Parse_Http = ngx_stream_upstream_check_http_parse"
  unfolding fun_eq_iff packet_init.simps packet_reinit.simps packet_parse.simps
    ngx_stream_upstream_check_http_init_def ngx_http_upstream_check_http_init_def
    ngx_stream_upstream_check_http_reinit_def ngx_http_upstream_check_http_reinit_def
    ngx_stream_upstream_check_http_parse_def ngx_http_upstream_check_http_parse_def
  by (rule allI refl)+

lemma stream_eq [simp]:
  "ngx_stream_upstream_check_peer_down = ngx_http_upstream_check_peer_down"
  "ngx_stream_upstream_check_get_peer = ngx_http_upstream_check_get_peer"
  "ngx_stream_upstream_check_free_peer = ngx_http_upstream_check_free_peer"
  "ngx_stream_upstream_check_status_update = ngx_http_upstream_check_status_update"
  "ngx_stream_upstream_check_clean_event = ngx_http_upstream_check_clean_event"
  "ngx_stream_upstream_check_clear_all_events = ngx_http_upstream_check_clear_all_events"
  "ngx_stream_upstream_check_peek_one_byte = ngx_http_upstream_check_peek_one_byte"
  "ngx_stream_upstream_check_dummy_handler = ngx_http_upstream_check_dummy_handler"
  "ngx_stream_upstream_check_add_timers = ngx_http_upstream_check_add_timers"
  unfolding fun_eq_iff
    ngx_stream_upstream_check_peer_down_def ngx_http_upstream_check_peer_down_def
    ngx_stream_upstream_check_get_peer_def ngx_http_upstream_check_get_peer_def
    ngx_stream_upstream_check_free_peer_def ngx_http_upstream_check_free_peer_def
    ngx_stream_upstream_check_status_update_def ngx_http_upstream_check_status_update_def
    ngx_stream_upstream_check_clean_event_def ngx_http_upstream_check_clean_event_def
    ngx_stream_upstream_check_clear_all_events_def ngx_http_upstream_check_clear_all_events_def
    ngx_stream_upstream_check_peek_one_byte_def ngx_http_upstream_check_peek_one_byte_def
    ngx_stream_upstream_check_dummy_handler_def ngx_http_upstream_check_dummy_handler_def
    ngx_stream_upstream_check_add_timers_def ngx_http_upstream_check_add_timers_def
  by (rule allI refl)+

lemma stream_need_exit_eq [simp]: "ngx_stream_upstream_check_need_exit = ngx_http_upstream_check_need_exit"
  by (simp add: fun_eq_iff ngx_stream_upstream_check_need_exit_def ngx_http_upstream_check_need_exit_def)

lemma stream_unless_exit_eq [simp]: "stream_unless_exit = unless_exit"
  by (simp add: fun_eq_iff stream_unless_exit_def unless_exit_def)

lemma stream_check_done_eq [simp]: "stream_check_done = check_done"
  by (simp add: fun_eq_iff stream_check_done_def check_done_def)

lemma stream_finish_eq [simp]: "ngx_stream_upstream_check_finish_handler = ngx_http_upstream_check_finish_handler"
  by (simp add: fun_eq_iff ngx_stream_upstream_check_finish_handler_def ngx_http_upstream_check_finish_handler_def)

lemma stream_slot_eq [simp]:
  "stream_peek_peer = peek_peer" "stream_send_request = send_request" "stream_recv_verdict = recv_verdict"
  "stream_discard_peer = discard_peer"
  unfolding fun_eq_iff stream_peek_peer_def peek_peer_def stream_send_request_def send_request_def
    stream_recv_verdict_def recv_verdict_def stream_discard_peer_def discard_peer_def stream_eq
    stream_check_done_eq
  by (rule allI refl)+

lemma stream_slot_eq2 [simp]: "stream_send_peer = send_peer" "stream_recv_response = recv_response"
  unfolding fun_eq_iff stream_send_peer_def send_peer_def stream_recv_response_def
    recv_response_def stream_slot_eq stream_check_done_eq
  by (rule allI refl)+

lemma stream_recv_peer_eq [simp]: "stream_recv_peer = recv_peer"
  unfolding fun_eq_iff stream_recv_peer_def recv_peer_def stream_slot_eq2 stream_check_done_eq
  by (rule allI refl)+

lemma stream_run_handler_eq [simp]: "ngx_stream_run_handler h = ngx_http_run_handler h"
  by (cases h) (simp_all add: fun_eq_iff ngx_stream_upstream_check_peek_handler_def
      ngx_http_upstream_check_peek_handler_def ngx_stream_upstream_check_send_handler_def
      ngx_http_upstream_check_send_handler_def ngx_stream_upstream_check_recv_handler_def
      ngx_http_upstream_check_recv_handler_def ngx_stream_upstream_check_discard_handler_def
      ngx_http_upstream_check_discard_handler_def)

subsection \<open>The invariant\<close>

lemma peer_conf_ok_pc_type [simp]: "peer_conf_ok (p\<lparr>p_pc_type := t\<rparr>) = peer_conf_ok p"
  by (simp add: peer_conf_ok_def)

lemma stream_connect_new_ok:
  assumes l: "live_at pr i (p, s)" and idle: "\<not> in_check p" and e': "e' = e \<or> e' = e\<lparr>e_peek := x\<rparr>"
  shows "proc_step_ok (parse_returns e p) (stream_connect_new e e' i (p, s) pr)"
proof -
  note inv = live_at_inv [OF l]
  note d = peer_inv_D [OF inv]
  from d(1) obtain cf where cf: "uc_check_type_conf (p_conf p) = Ptr cf" unfolding peer_conf_ok_def by blast
  obtain ty where ty: "(if ct_type cf = Ck_Udp then SOCK_DGRAM else SOCK_STREAM) = ty" by blast
  let ?q = "p\<lparr>p_connection := None, p_pc_type := ty\<rparr>"
  have fresh: "peer_conf_ok ?q" using d by simp
  have new: "p_pool ?q \<longrightarrow> c_pool (new_connection ?q)" by (simp add: new_connection_def)
  obtain rc con where rc: "ngx_event_connect_peer (e_connect e) = (rc, con)" by fastforce
  have ret: "parse_returns e ?q = parse_returns e p" by (rule parse_returns_cong) simp_all
  note run = connect_run_ok [OF l fresh new e', where s = s, unfolded ret]
  have "peer_inv ?q" using inv idle fresh by (simp add: peer_inv_def conn_ok_def in_check_def)
  then have "proc_inv (put_peer_slot i (?q, s') pr)" for s'
    using live_at_put [OF l, of "(?q, s')"] by (simp add: live_at_def)
  with run show ?thesis
    by (simp add: stream_connect_new_def rc cf ty Let_def) (simp add: proc_step_ok_def)
qed

lemma stream_connect_handler_ok:
  assumes l: "live_at pr i (p, s)" and idle: "\<not> in_check p"
  shows "proc_step_ok (parse_returns e p) (ngx_stream_upstream_check_connect_handler e i pr)"
proof -
  note d = peer_inv_D [OF live_at_inv [OF l]]
  from l have pi: "proc_inv pr" and at: "peer_slot_at pr i = Some (p, s)" by (simp_all add: live_at_def)
  have old: "p_pool p \<longrightarrow> c_pool c" if "p_connection p = Some c" for c
    using d(2) that by (simp add: pool_kept_def)
  let ?e = "e\<lparr>e_peek := tl (e_peek e)\<rparr>"
  show ?thesis
    unfolding ngx_stream_upstream_check_connect_handler_def stream_unless_exit_eq
    using at old stream_connect_new_ok [OF l idle, of e e]
      stream_connect_new_ok [OF l idle, of ?e e "tl (e_peek e)"]
      connect_run_ok(1) [OF l d(1), of _ ?e e "tl (e_peek e)" s]
    by (intro unless_exit_ok [OF pi]) (cases "p_connection p"; simp add: Let_def)
qed

lemma stream_begin_handler_ok:
  assumes l: "live_at pr i (p, s)"
  shows "proc_step_ok (parse_returns e p) (ngx_stream_upstream_check_begin_handler e i pr)"
proof -
  from l have pi: "proc_inv pr" and at: "peer_slot_at pr i = Some (p, s)" by (simp_all add: live_at_def)
  let ?p = "begin_timer e p"
  note binv = begin_timer_inv [OF live_at_inv [OF l], of e]
  have put: "live_at (put_peer_slot i (?p, s') pr) i (?p, s')" for s'
    using live_at_put [OF l] binv by simp
  have ret: "parse_returns e ?p = parse_returns e p"
    by (rule parse_returns_cong) (simp_all add: begin_timer_def)
  have inv: "proc_inv (put_peer_slot i (?p, s') pr)" for s'
    using put [of s'] by (simp add: live_at_def)
  have idle: "\<not> in_check ?p" if "p_check_timeout_ev ?p = None"
    using binv that by (simp add: peer_inv_def)
  have "proc_step_ok (parse_returns e p)
    (unless_exit e
        (\<lambda>pr.
           (case peer_slot_at pr i of
              None \<Rightarrow> None
            | Some (p, s) \<Rightarrow>
                let p = begin_timer e p
                in if sh_owner s = e_pid e \<or> p_check_timeout_ev p \<noteq> None
                   then Some (put_peer_slot i (p, s) pr)
                   else if map_option ps_generation (pr_shm pr) \<noteq> Some (pr_generation pr)
                   then Some (put_peer_slot i (p, s) pr)
                   else
                     let s = begin_claim e (p_conf p) s;
                         pr = put_peer_slot i (p, s) pr
                     in if sh_owner s = e_pid e then ngx_stream_upstream_check_connect_handler e i pr
                        else Some pr)) pr)"
  proof (rule unless_exit_ok [OF pi], goal_cases)
    case 1
    show ?case
      using stream_connect_handler_ok [OF put idle, of e, unfolded ret] inv at
      by (simp add: Let_def proc_step_ok_def)
  qed
  then show ?thesis
    using pi by (simp add: ngx_stream_upstream_check_begin_handler_def proc_step_ok_def)
qed

lemma stream_timeout_peer_ok:
  assumes "peer_conf_ok p" "pool_kept p" "p_connection p \<noteq> None"
  shows "slot_step_ok (stream_timeout_peer e (p, s))"
proof -
  from assms(3) obtain c where c: "p_connection p = Some c" by auto
  have "pool_kept (p\<lparr>p_connection := Some (c\<lparr>c_error := x\<rparr>)\<rparr>)" for x
    using assms(2) c by (simp add: pool_kept_def)
  then show ?thesis
    using assms(1) c by (cases "p_pc_type p") (simp_all add: stream_timeout_peer_def check_done_step)
qed

lemma stream_timeout_event_ok:
  assumes l: "live_at pr i (p, s)" and t: "p_check_timeout_ev p \<noteq> None"
  shows "proc_step_ok ret (ngx_stream_upstream_check_timeout_handler e i
           (put_peer_slot i (p\<lparr>p_check_timeout_ev := None\<rparr>, s) pr))"
proof -
  let ?q = "p\<lparr>p_check_timeout_ev := None\<rparr>" and ?pr = "put_peer_slot i (p\<lparr>p_check_timeout_ev := None\<rparr>, s) pr"
  note inv = live_at_inv [OF l]
  from l have at: "peer_slot_at pr i = Some (p, s)" by (simp add: live_at_def)
  have con: "p_connection ?q \<noteq> None" using inv t by (auto simp: peer_inv_def conn_ok_def split: option.splits)
  obtain y where y: "stream_timeout_peer e (?q, s) = Some y" "peer_inv (fst y)"
    using stream_timeout_peer_ok [of ?q e s] peer_inv_D [OF inv] con
    by (auto simp: slot_step_ok_def pool_kept_def)
  have fin: "on_peer i (stream_timeout_peer e) ?pr = Some (put_peer_slot i y pr)"
    using y peer_slot_at_put [OF at] by (simp add: on_peer_def)
  have "proc_inv (ngx_http_upstream_check_clear_all_events ?pr)"
    using l by (auto simp: live_at_def proc_inv_def ngx_http_upstream_check_clear_all_events_def
        put_peer_slot_def quiet_def clear_peer_def elim!: peer_slot_at_SomeD)
  with fin live_at_put [OF l y(2)] show ?thesis
    by (simp add: ngx_stream_upstream_check_timeout_handler_def unless_exit_def proc_step_ok_def
        ngx_http_upstream_check_need_exit_def live_at_def)
qed

lemma stream_event_ok:
  assumes pi: "proc_inv pr" and en: "event_enabled e i ev pr"
  shows "\<exists>p s. peer_slot_at pr i = Some (p, s)
    \<and> proc_step_ok (parse_returns e p) (ngx_stream_check_event e i ev pr)"
proof -
  obtain p s where at: "peer_slot_at pr i = Some (p, s)" and nc: "\<not> pr_has_cleared pr"
    using enabled_live [OF pi en] by blast
  then have l: "live_at pr i (p, s)" using pi by (simp add: live_at_def)
  have "proc_step_ok (parse_returns e p) (ngx_stream_check_event e i ev pr)"
  proof (cases ev)
    case Ev_Begin
    have "peer_inv (p\<lparr>p_check_ev := None\<rparr>)"
      using live_at_inv [OF l] by (simp add: peer_inv_def in_check_def)
    from stream_begin_handler_ok [OF live_at_put [OF l, of "(p\<lparr>p_check_ev := None\<rparr>, s)"], of e] this
    have "proc_step_ok (parse_returns e (p\<lparr>p_check_ev := None\<rparr>))
      (ngx_stream_upstream_check_begin_handler e i (put_peer_slot i (p\<lparr>p_check_ev := None\<rparr>, s) pr))" by simp
    with Ev_Begin at parse_returns_cong [of "p\<lparr>p_check_ev := None\<rparr>" p e] show ?thesis
      by (simp add: ngx_stream_check_event_def)
  next
    case Ev_Timeout
    with en at stream_timeout_event_ok [OF l] show ?thesis
      by (auto simp: ngx_stream_check_event_def event_enabled_def timer_due_def split: option.splits)
  next
    case Ev_Write
    with en at read_write_ok(1) [OF l] show ?thesis
      by (auto simp: ngx_stream_check_event_def event_enabled_def split: option.splits)
  next
    case Ev_Read
    with en at read_write_ok(2) [OF l] show ?thesis
      by (auto simp: ngx_stream_check_event_def event_enabled_def split: option.splits)
  qed
  with at show ?thesis by blast
qed

subsection \<open>Properties\<close>

text \<open>A peer nobody in the worker is checking, whose slot the worker owns all the same.\<close>

definition stream_stuck :: "env \<Rightarrow> peer_slot \<Rightarrow> bool" where
  "stream_stuck e x \<longleftrightarrow> sh_owner (snd x) = e_pid e \<and> p_connection (fst x) = None \<and> p_check_timeout_ev (fst x) = None"

text \<open>A run of due \<open>begin\<close> timers of one peer.\<close>

fun stream_ticks :: "env list \<Rightarrow> nat \<Rightarrow> check_proc \<Rightarrow> check_proc option" where
  "stream_ticks [] i pr = Some pr"
| "stream_ticks (e # es) i pr =
     (case ngx_stream_upstream_check_begin_handler e i pr of
        None \<Rightarrow> None | Some pr \<Rightarrow> stream_ticks es i pr)"

lemma peer_slot_at_nonnull:
  "peer_slot_at pr i = Some x \<Longrightarrow> \<exists>ps sh. pr_peers pr = Some ps \<and> pr_shm pr = Some sh"
  by (auto simp: peer_slot_at_def split: option.splits)

lemma stream_stuck_step:
  assumes "peer_slot_at pr i = Some (p, s)" "stream_stuck e (p, s)" "\<not> e_exit e"
  shows "ngx_stream_upstream_check_begin_handler e i pr = Some (put_peer_slot i (begin_timer e p, s) pr)"
    and "stream_stuck e (begin_timer e p, s)"
  using assms peer_slot_at_nonnull [OF assms(1)]
  unfolding ngx_stream_upstream_check_begin_handler_def
  by (auto simp: stream_stuck_def unless_exit_def Let_def ngx_http_upstream_check_need_exit_def begin_timer_def)

lemma stream_stuck_ticks:
  assumes "peer_slot_at pr i = Some (p, s)" "stream_stuck e (p, s)"
    and "\<forall>e' \<in> set es. e_pid e' = e_pid e \<and> \<not> e_exit e'"
  shows "\<exists>pr' p'. stream_ticks es i pr = Some pr' \<and> peer_slot_at pr' i = Some (p', s) \<and> stream_stuck e (p', s)"
  using assms
proof (induction es arbitrary: pr p)
  case (Cons e' es)
  from Cons.prems have e': "stream_stuck e' (p, s)" "\<not> e_exit e'" by (simp_all add: stream_stuck_def)
  note st = stream_stuck_step [OF Cons.prems(1) e']
  from st(2) Cons.prems(3) have "stream_stuck e (begin_timer e' p, s)" by (simp add: stream_stuck_def)
  with Cons.IH [OF peer_slot_at_put [OF Cons.prems(1)]] Cons.prems(3) st(1) show ?case by auto
qed auto

lemma stream_refused_begin:
  assumes "peer_slot_at pr i = Some (p, s)" "p_connection p = None" "p_check_timeout_ev p = None"
    and "sh_owner s = NGX_INVALID_PID" "e_pid e \<noteq> NGX_INVALID_PID" "\<not> e_exit e"
    and "map_option ps_generation (pr_shm pr) = Some (pr_generation pr)"
    and "uc_check_interval (p_conf p) \<le> e_now e - sh_access_time s"
    and "uc_check_type_conf (p_conf p) = Ptr cf"
    and "fst (ngx_event_connect_peer (e_connect e)) \<in> {NGX_ERROR, NGX_DECLINED}"
  shows "\<exists>pr' p'. ngx_stream_upstream_check_begin_handler e i pr = Some pr'
    \<and> (let s' = ngx_stream_upstream_check_status_update e (p_conf p) False (s\<lparr>sh_owner := e_pid e\<rparr>)
       in peer_slot_at pr' i = Some (p', s') \<and> stream_stuck e (p', s'))"
proof -
  let ?p = "begin_timer e p" and ?s = "s\<lparr>sh_owner := e_pid e\<rparr>"
  obtain ty where ty: "(if ct_type cf = Ck_Udp then SOCK_DGRAM else SOCK_STREAM) = ty" by blast
  have flds [simp]: "p_connection ?p = None" "p_check_timeout_ev ?p = None" "p_conf ?p = p_conf p"
    using assms(2,3) by (simp_all add: begin_timer_def)
  have claim: "begin_claim e (p_conf p) s = ?s" using assms(4,8) by (simp add: begin_claim_def)
  let ?pr = "put_peer_slot i (?p, ?s) pr"
  let ?x = "(?p\<lparr>p_connection := None, p_pc_type := ty\<rparr>, ngx_http_upstream_check_status_update e (p_conf p) False ?s)"
  note at' = peer_slot_at_put [OF assms(1), of "(?p, ?s)"]
  have "ngx_stream_upstream_check_connect_handler e i ?pr = Some (put_peer_slot i ?x ?pr)"
    using assms(6,9,10) at'
    by (cases "ngx_event_connect_peer (e_connect e)") (auto simp: ngx_stream_upstream_check_connect_handler_def unless_exit_def Let_def
        ngx_http_upstream_check_need_exit_def stream_connect_new_def ty)
  then have "ngx_stream_upstream_check_begin_handler e i pr = Some (put_peer_slot i ?x ?pr)"
    using assms peer_slot_at_nonnull [OF assms(1)] claim
    unfolding ngx_stream_upstream_check_begin_handler_def
    by (auto simp: unless_exit_def Let_def ngx_http_upstream_check_need_exit_def)
  moreover have "stream_stuck e ?x"
    using assms by (simp add: stream_stuck_def ngx_http_upstream_check_status_update_def Let_def)
  ultimately show ?thesis
    using peer_slot_at_put [OF at', of ?x] by (simp add: Let_def)
qed

text \<open>C30: A refused connection in the stream module. The check that finds its peer refusing the
  connection counts one failure and keeps the ownership of the slot without a check in progress: from
  then on no further timer of that worker changes the slot (neither counters nor state nor owner),
  however often it fires.\<close>

theorem stream_connect_failure_sticks:
  assumes "peer_slot_at pr i = Some (p, s)" "p_connection p = None" "p_check_timeout_ev p = None"
    and "sh_owner s = NGX_INVALID_PID" "e_pid e \<noteq> NGX_INVALID_PID" "\<not> e_exit e"
    and "map_option ps_generation (pr_shm pr) = Some (pr_generation pr)"
    and "uc_check_interval (p_conf p) \<le> e_now e - sh_access_time s"
    and "uc_check_type_conf (p_conf p) = Ptr cf"
    and "fst (ngx_event_connect_peer (e_connect e)) \<in> {NGX_ERROR, NGX_DECLINED}"
    and "\<forall>e' \<in> set es. e_pid e' = e_pid e \<and> \<not> e_exit e'"
  shows "\<exists>pr' p'. stream_ticks (e # es) i pr = Some pr'
    \<and> peer_slot_at pr' i = Some (p', ngx_stream_upstream_check_status_update e (p_conf p) False
                                       (s\<lparr>sh_owner := e_pid e\<rparr>))
    \<and> p_check_timeout_ev p' = None"
proof -
  from stream_refused_begin [OF assms(1-10)] obtain pr1 p1
    where "ngx_stream_upstream_check_begin_handler e i pr = Some pr1"
      and at: "peer_slot_at pr1 i = Some (p1, ngx_stream_upstream_check_status_update e (p_conf p) False
                                       (s\<lparr>sh_owner := e_pid e\<rparr>))"
      and st: "stream_stuck e (p1, ngx_stream_upstream_check_status_update e (p_conf p) False
                                       (s\<lparr>sh_owner := e_pid e\<rparr>))"
    by (auto simp: Let_def)
  with stream_stuck_ticks [OF at st assms(11)] show ?thesis by (auto simp: stream_stuck_def)
qed

text \<open>The tcp and udp checks of the stream module, with the counts of the sample.\<close>

definition stream_conf :: "ngx_check_conf_t \<Rightarrow> ngx_upstream_check_srv_conf_t" where
  "stream_conf cf = sample_conf\<lparr>uc_check_type_conf := Ptr cf, uc_send := ct_default_send cf,
     uc_expect_body_regex := None\<rparr>"

definition refused_env :: env where
  "refused_env = sample_env\<lparr>e_connect := sample_connect\<lparr>k_connect := Connect_Failed\<rparr>\<rparr>"

lemma stream_started:
  assumes "cf \<in> set ngx_stream_check_types"
  shows "proc_inv (started_proc (stream_conf cf) cf)"
  using assms by (intro started_proc_inv) (simp_all add: stream_conf_def)

lemma stream_connect_failure_sticks_witness:
  "\<exists>pr' p'. stream_ticks [refused_env, refused_env\<lparr>e_now := 200000\<rparr>, sample_env\<lparr>e_now := 900000\<rparr>] 0
        (started_proc (stream_conf (ngx_stream_check_types ! 0)) (ngx_stream_check_types ! 0)) = Some pr'
    \<and> peer_slot_at pr' 0 = Some (p', ngx_stream_upstream_check_status_update refused_env
         (stream_conf (ngx_stream_check_types ! 0)) False (sample_shm\<lparr>sh_owner := e_pid refused_env\<rparr>))
    \<and> p_check_timeout_ev p' = None"
  using stream_connect_failure_sticks [of
      "started_proc (stream_conf (ngx_stream_check_types ! 0)) (ngx_stream_check_types ! 0)" 0
      "started_peer (stream_conf (ngx_stream_check_types ! 0)) (ngx_stream_check_types ! 0)" sample_shm
      refused_env "ngx_stream_check_types ! 0"
      "[refused_env\<lparr>e_now := 200000\<rparr>, sample_env\<lparr>e_now := 900000\<rparr>]"]
  by (simp add: started_proc_def started_peer_def peer_slot_at_def sample_shm_def refused_env_def sample_env_def
      stream_conf_def sample_conf_def sample_connect_def ngx_event_connect_peer_def)


end
