(* ===== verification/Check_Workers.thy ===== *)
theory Check_Workers
  imports Stream_Check
begin

text \<open>
  The worker processes together. Every worker runs the engine on peers of its own; what they share
  is the memory with one slot per peer, whose \<open>owner\<close> says which worker is checking. A step is one
  event of one worker.
\<close>

subsection \<open>Processes\<close>

record cluster =
  cl_workers :: "(int \<times> check_proc) list"
  cl_shm :: ngx_upstream_check_peers_shm_t

text \<open>What worker \<open>w\<close> sees, and the state after it has run.\<close>

definition worker_view :: "cluster \<Rightarrow> nat \<Rightarrow> check_proc" where
  "worker_view cl w = (snd (cl_workers cl ! w))\<lparr>pr_shm := Some (cl_shm cl)\<rparr>"

definition worker_ran :: "nat \<Rightarrow> check_proc \<Rightarrow> cluster \<Rightarrow> cluster" where
  "worker_ran w pr cl =
     cl\<lparr>cl_workers := (cl_workers cl)[w := (fst (cl_workers cl ! w), pr)],
        cl_shm := (case pr_shm pr of None \<Rightarrow> cl_shm cl | Some sh \<Rightarrow> sh)\<rparr>"

text \<open>The states the workers of a module reach together: \<open>run\<close> is the module's event function.\<close>

inductive cluster_reachable ::
  "(env \<Rightarrow> nat \<Rightarrow> check_event \<Rightarrow> check_proc \<Rightarrow> check_proc option) \<Rightarrow> cluster \<Rightarrow> cluster \<Rightarrow> bool"
  for run cl0 where
  cluster_start: "cluster_reachable run cl0 cl0"
| cluster_event:
    "\<lbrakk>cluster_reachable run cl0 cl; w < length (cl_workers cl); e_pid e = fst (cl_workers cl ! w);
      event_enabled e i ev (worker_view cl w); run e i ev (worker_view cl w) = Some pr\<rbrakk>
     \<Longrightarrow> cluster_reachable run cl0 (worker_ran w pr cl)"

text \<open>A schedule: which worker runs which event, in which environment.\<close>

fun cluster_run ::
  "(env \<Rightarrow> nat \<Rightarrow> check_event \<Rightarrow> check_proc \<Rightarrow> check_proc option)
     \<Rightarrow> (nat \<times> env \<times> nat \<times> check_event) list \<Rightarrow> cluster \<Rightarrow> cluster option" where
  "cluster_run run [] cl = Some cl"
| "cluster_run run ((w, e, i, ev) # r) cl =
     (if w < length (cl_workers cl) \<and> e_pid e = fst (cl_workers cl ! w) \<and> event_enabled e i ev (worker_view cl w)
      then (case run e i ev (worker_view cl w) of
              None \<Rightarrow> None | Some pr \<Rightarrow> cluster_run run r (worker_ran w pr cl))
      else None)"

lemma cluster_run_reachable:
  "cluster_run run sched cl = Some cl' \<Longrightarrow> cluster_reachable run cl0 cl \<Longrightarrow> cluster_reachable run cl0 cl'"
  by (induction run sched cl rule: cluster_run.induct)
    (auto split: if_splits option.splits intro: cluster_reachable.cluster_event)

lemma worker_view_ran:
  assumes "w < length (cl_workers cl)" "pr_shm pr = Some sh"
  shows "worker_view (worker_ran w pr cl) v = (if v = w then pr else (worker_view cl v)\<lparr>pr_shm := Some sh\<rparr>)"
  using assms by (auto simp: worker_view_def worker_ran_def)

lemma worker_pids_ran [simp]: "map fst (cl_workers (worker_ran w pr cl)) = map fst (cl_workers cl)"
  by (cases "w < length (cl_workers cl)")
    (simp_all add: worker_ran_def map_update list_update_same_conv list_update_beyond)

lemma worker_pid_ran [simp]:
  "w < length (cl_workers cl) \<Longrightarrow> fst (cl_workers (worker_ran w pr cl) ! v) = fst (cl_workers cl ! v)"
  by (cases "v = w") (simp_all add: worker_ran_def)

lemma worker_count_ran [simp]: "length (cl_workers (worker_ran w pr cl)) = length (cl_workers cl)"
  by (simp add: worker_ran_def)

lemma worker_view_shm [simp]: "pr_shm (worker_view cl w) = Some (cl_shm cl)"
  by (simp add: worker_view_def)

subsection \<open>What an engine must keep\<close>

definition slots :: "check_proc \<Rightarrow> nat option" where
  "slots pr = map_option (length \<circ> ps_peers) (pr_shm pr)"

text \<open>An engine is an event function that keeps a worker's peers in order and the number of shared
  slots. Whatever the others do to the slots, the workers of an engine then stay in order.\<close>

locale check_engine =
  fixes run :: "env \<Rightarrow> nat \<Rightarrow> check_event \<Rightarrow> check_proc \<Rightarrow> check_proc option"
  assumes run_inv: "proc_inv pr \<Longrightarrow> event_enabled e i ev pr \<Longrightarrow> run e i ev pr = Some pr' \<Longrightarrow> proc_inv pr'"
    and run_slots: "run e i ev pr = Some pr' \<Longrightarrow> slots pr' = slots pr"
begin

lemma run_shm: "run e i ev (worker_view cl w) = Some pr \<Longrightarrow>
    \<exists>sh. pr_shm pr = Some sh \<and> length (ps_peers sh) = length (ps_peers (cl_shm cl))"
  using run_slots [of e i ev "worker_view cl w" pr] by (auto simp: slots_def)

lemma workers_in_order:
  assumes "cluster_reachable run cl0 cl" "\<forall>w < length (cl_workers cl0). proc_inv (worker_view cl0 w)"
    and "v < length (cl_workers cl)"
  shows "proc_inv (worker_view cl v)"
  using assms
proof (induction arbitrary: v)
  case (cluster_event cl w e i ev pr)
  from run_shm [OF cluster_event.hyps(5)] obtain sh
    where sh: "pr_shm pr = Some sh" "length (ps_peers sh) = length (ps_peers (cl_shm cl))" by blast
  have "proc_inv pr"
    using run_inv [OF _ cluster_event.hyps(4,5)] cluster_event.IH [OF cluster_event.prems(1)] cluster_event.hyps(2) by simp
  moreover have "proc_inv ((worker_view cl v)\<lparr>pr_shm := Some sh\<rparr>)"
    using cluster_event.IH [OF cluster_event.prems(1), of v] cluster_event.prems(2) sh(2)
    by (auto simp: proc_inv_def)
  ultimately show ?case by (simp add: worker_view_ran [OF cluster_event.hyps(2) sh(1)])
qed simp

end

subsection \<open>The two engines\<close>

definition slots_res :: "check_proc \<Rightarrow> check_proc option \<Rightarrow> bool" where
  "slots_res pr r \<longleftrightarrow> (\<forall>pr'. r = Some pr' \<longrightarrow> slots pr' = slots pr)"

lemma slots_put [simp]: "slots (put_peer_slot i x pr) = slots pr"
  by (cases "pr_shm pr") (simp_all add: slots_def put_peer_slot_def)

lemma slots_res_simps [simp]:
  "slots_res pr None" "slots_res pr (Some q) = (slots q = slots pr)"
  "slots_res (put_peer_slot i x pr) r = slots_res pr r"
  "slots_res pr (map_option (\<lambda>x. put_peer_slot i x pr) r')"
  by (auto simp: slots_res_def)

lemma slots_clear [simp]: "slots (ngx_http_upstream_check_clear_all_events pr) = slots pr"
  by (simp add: slots_def ngx_http_upstream_check_clear_all_events_def)

lemma slots_unless_exit: "(\<And>q. slots q = slots pr \<Longrightarrow> slots_res pr (f q)) \<Longrightarrow> slots_res pr (unless_exit e f pr)"
  by (auto simp: unless_exit_def ngx_http_upstream_check_need_exit_def)

lemma slots_on_peer [simp]: "slots q = slots pr \<Longrightarrow> slots_res pr (on_peer i f q)"
  by (auto simp: on_peer_def slots_res_def split: option.splits)

lemma slots_on_peer_finish [simp]:
  "slots q = slots pr \<Longrightarrow> slots_res pr (map_option (ngx_http_upstream_check_finish_handler e i) (on_peer i f q))"
  by (auto simp: on_peer_def slots_res_def ngx_http_upstream_check_finish_handler_def
      ngx_http_upstream_check_need_exit_def split: option.splits)

lemma slots_run_handler [simp]: "slots_res pr (ngx_http_run_handler h e i pr)"
  by (cases h) (simp_all add: ngx_http_upstream_check_peek_handler_def ngx_http_upstream_check_send_handler_def
      ngx_http_upstream_check_recv_handler_def ngx_http_upstream_check_discard_handler_def
      ngx_http_upstream_check_dummy_handler_def slots_unless_exit)

lemma slots_run_put [simp]: "slots_res pr (ngx_http_run_handler h e i (put_peer_slot i x pr))"
  by (rule slots_res_simps(3) [THEN iffD1, OF slots_run_handler])

lemma slots_cong: "slots q = slots pr \<Longrightarrow> slots_res q r \<Longrightarrow> slots_res pr r"
  by (simp add: slots_res_def)

lemma slots_connect_new: "slots_res pr (connect_new e e' i x pr)" "slots_res pr (stream_connect_new e e' i x pr)"
  by (simp_all add: connect_new_def stream_connect_new_def Let_def split: prod.split conf_ptr.split)


lemma slots_connect_handler:
  "slots_res pr (ngx_http_upstream_check_connect_handler e i pr)"
  "slots_res pr (ngx_stream_upstream_check_connect_handler e i pr)"
  unfolding ngx_http_upstream_check_connect_handler_def ngx_stream_upstream_check_connect_handler_def
    stream_unless_exit_eq
  by (rule slots_unless_exit, rule slots_cong, assumption,
      simp add: Let_def slots_connect_new split: option.split prod.split)+

lemma slots_begin_handler:
  "slots_res pr (ngx_http_upstream_check_begin_handler e i pr)"
  "slots_res pr (ngx_stream_upstream_check_begin_handler e i pr)"
proof -
  note con = slots_res_simps(3) [THEN iffD1, OF slots_connect_handler(1)]
    slots_res_simps(3) [THEN iffD1, OF slots_connect_handler(2)]
  show "slots_res pr (ngx_http_upstream_check_begin_handler e i pr)"
    unfolding ngx_http_upstream_check_begin_handler_def
    by (rule slots_unless_exit, rule slots_cong, assumption)
      (simp add: Let_def con split: option.split prod.split)
  show "slots_res pr (ngx_stream_upstream_check_begin_handler e i pr)"
    unfolding ngx_stream_upstream_check_begin_handler_def stream_unless_exit_eq
    by (simp, intro impI, rule slots_unless_exit, rule slots_cong, assumption)
      (simp add: Let_def con split: option.split prod.split)
qed

lemma slots_event:
  "slots_res pr (ngx_http_check_event e i ev pr)" "slots_res pr (ngx_stream_check_event e i ev pr)"
proof -
  note beg = slots_begin_handler [THEN slots_res_simps(3) [THEN iffD1]]
  show "slots_res pr (ngx_http_check_event e i ev pr)" "slots_res pr (ngx_stream_check_event e i ev pr)"
    by (auto simp: ngx_http_check_event_def ngx_stream_check_event_def beg
        ngx_http_upstream_check_timeout_handler_def ngx_stream_upstream_check_timeout_handler_def
        intro!: slots_unless_exit [THEN slots_res_simps(3) [THEN iffD1]]
        split: option.split check_event.split)
qed

interpretation http_engine: check_engine ngx_http_check_event
proof unfold_locales
  show "proc_inv pr'" if "proc_inv pr" "event_enabled e i ev pr" "ngx_http_check_event e i ev pr = Some pr'" for pr e i ev pr'
    using check_event_ok [OF that(1,2)] that(3) by (auto simp: proc_step_ok_def)
  show "slots pr' = slots pr" if "ngx_http_check_event e i ev pr = Some pr'" for pr e i ev pr'
    using slots_event(1) [of pr e i ev] that by simp
qed

interpretation stream_engine: check_engine ngx_stream_check_event
proof unfold_locales
  show "proc_inv pr'" if "proc_inv pr" "event_enabled e i ev pr" "ngx_stream_check_event e i ev pr = Some pr'" for pr e i ev pr'
    using stream_event_ok [OF that(1,2)] that(3) by (auto simp: proc_step_ok_def)
  show "slots pr' = slots pr" if "ngx_stream_check_event e i ev pr = Some pr'" for pr e i ev pr'
    using slots_event(2) [of pr e i ev] that by simp
qed

subsection \<open>A worker that owns a slot is checking it\<close>

text \<open>A handler either releases the slot or leaves its owner alone and keeps the check running.\<close>

definition settled :: "peer_slot \<Rightarrow> peer_slot \<Rightarrow> bool" where
  "settled x y \<longleftrightarrow> sh_owner (snd y) = NGX_INVALID_PID
     \<or> sh_owner (snd y) = sh_owner (snd x)
       \<and> (p_check_timeout_ev (fst x) \<noteq> None \<longrightarrow> p_check_timeout_ev (fst y) \<noteq> None)"

lemma settled_refl [simp]: "settled x x"
  by (simp add: settled_def)

lemma clean_event_settled: "ngx_http_upstream_check_clean_event x = Some y \<Longrightarrow> settled z y"
  by (auto simp: ngx_http_upstream_check_clean_event_def settled_def split: prod.splits)

lemma check_done_settled: "check_done e r x = Some y \<Longrightarrow> settled z y"
  by (auto simp: check_done_def split: prod.splits dest: clean_event_settled)

lemmas ends_settled = check_done_settled clean_event_settled

lemma send_request_settled: "send_request e c ctx x = Some y \<Longrightarrow> settled x y"
  by (auto simp: send_request_def Let_def split: prod.splits if_splits dest: ends_settled)
    (simp_all add: settled_def)

lemma send_peer_settled: "send_peer e x = Some y \<Longrightarrow> settled x y"
  by (auto simp: send_peer_def split: prod.splits option.splits if_splits dest: ends_settled send_request_settled)

lemma recv_verdict_settled: "recv_verdict e r rc x = Some y \<Longrightarrow> settled x y"
  by (auto simp: recv_verdict_def Let_def split: prod.splits if_splits dest: ends_settled)

lemma recv_response_settled: "recv_response e ctx x = Some y \<Longrightarrow> settled x y"
  by (auto simp: recv_response_def Let_def split: prod.splits option.splits if_splits
      dest: ends_settled dest!: recv_verdict_settled) (auto simp: settled_def set_error_def)

lemma recv_peer_settled: "recv_peer e x = Some y \<Longrightarrow> settled x y"
  by (auto simp: recv_peer_def split: prod.splits option.splits if_splits dest: ends_settled recv_response_settled)

lemma peek_peer_settled: "peek_peer e x = Some y \<Longrightarrow> settled z y"
  by (auto simp: peek_peer_def split: prod.splits if_splits dest: ends_settled)

lemma discard_peer_settled: "discard_peer e x = Some y \<Longrightarrow> settled x y"
  by (auto simp: discard_peer_def split: prod.splits if_splits dest: ends_settled)

lemma timeout_peer_settled: "timeout_peer e x = Some y \<Longrightarrow> settled z y"
  by (auto simp: timeout_peer_def split: prod.splits if_splits dest: ends_settled)

text \<open>The ownership invariant of one worker, given its process id.\<close>

definition own_ok :: "int \<Rightarrow> peer_slot \<Rightarrow> bool" where
  "own_ok pid x \<longleftrightarrow> (sh_owner (snd x) = pid \<longrightarrow> p_check_timeout_ev (fst x) \<noteq> None)"

definition own_inv :: "int \<Rightarrow> check_proc \<Rightarrow> bool" where
  "own_inv pid pr \<longleftrightarrow> pr_has_cleared pr \<or> (\<forall>j x. peer_slot_at pr j = Some x \<longrightarrow> own_ok pid x)"

definition own_but :: "int \<Rightarrow> nat \<Rightarrow> check_proc \<Rightarrow> bool" where
  "own_but pid i pr \<longleftrightarrow> pr_has_cleared pr \<or> (\<forall>j x. j \<noteq> i \<longrightarrow> peer_slot_at pr j = Some x \<longrightarrow> own_ok pid x)"

text \<open>What a step of worker \<open>pid\<close> may do to the owners.\<close>

definition owners_step :: "int \<Rightarrow> check_proc \<Rightarrow> check_proc \<Rightarrow> bool" where
  "owners_step pid pr pr' \<longleftrightarrow>
     rel_option (\<lambda>sh sh'. list_all2 (\<lambda>s s'. sh_owner s' \<in> {sh_owner s, NGX_INVALID_PID, pid}) (ps_peers sh) (ps_peers sh'))
       (pr_shm pr) (pr_shm pr')"

definition own_res :: "int \<Rightarrow> check_proc \<Rightarrow> check_proc option \<Rightarrow> bool" where
  "own_res pid pr r \<longleftrightarrow> (\<forall>pr'. r = Some pr' \<longrightarrow> own_inv pid pr' \<and> owners_step pid pr pr')"

lemma own_but_weaken: "own_inv pid pr \<Longrightarrow> own_but pid i pr"
  by (auto simp: own_inv_def own_but_def)

lemma settled_own_ok: "settled x y \<Longrightarrow> own_ok pid x \<Longrightarrow> pid \<noteq> NGX_INVALID_PID \<Longrightarrow> own_ok pid y"
  by (auto simp: settled_def own_ok_def)

lemma owners_step_refl [simp]: "owners_step pid pr pr"
  by (auto simp: owners_step_def intro!: option.rel_refl list.rel_refl)

lemma owners_step_trans: "owners_step pid p q \<Longrightarrow> owners_step pid q r \<Longrightarrow> owners_step pid p r"
  unfolding owners_step_def
  by (cases "pr_shm p"; cases "pr_shm q"; cases "pr_shm r") (auto simp: list_all2_conv_all_nth, metis)

lemma peer_slot_at_put_other: "j \<noteq> i \<Longrightarrow> peer_slot_at (put_peer_slot i y pr) j = peer_slot_at pr j"
  by (auto simp: peer_slot_at_def put_peer_slot_def split: option.splits)

lemma peer_slot_at_put_self: "peer_slot_at (put_peer_slot i y pr) i = Some x \<Longrightarrow> x = y"
  by (cases y) (auto simp: peer_slot_at_def put_peer_slot_def split: option.splits if_splits)

lemma own_but_put [simp]: "own_but pid i (put_peer_slot i y pr) = own_but pid i pr"
  by (auto simp: own_but_def peer_slot_at_put_other)

lemma own_put: "own_but pid i pr \<Longrightarrow> own_ok pid y \<Longrightarrow> own_inv pid (put_peer_slot i y pr)"
  unfolding own_inv_def own_but_def
  by (metis (no_types, lifting) peer_slot_at_put_other peer_slot_at_put_self put_peer_slot_def
      check_proc.ext_inject check_proc.surjective check_proc.update_convs(1,2))

lemma owners_put:
  assumes "peer_slot_at pr i = Some x" "sh_owner (snd y) \<in> {sh_owner (snd x), NGX_INVALID_PID, pid}"
  shows "owners_step pid pr (put_peer_slot i y pr)"
  using assms
  by (auto simp: owners_step_def put_peer_slot_def peer_slot_at_def list_all2_conv_all_nth nth_list_update
      split: option.splits if_splits)


subsection \<open>One event of a worker\<close>

lemma owners_clear: "owners_step pid pr (ngx_http_upstream_check_clear_all_events pr)"
  by (auto simp: owners_step_def ngx_http_upstream_check_clear_all_events_def intro!: option.rel_refl list.rel_refl)

lemma own_cleared: "own_inv pid (ngx_http_upstream_check_clear_all_events pr)"
  by (auto simp: own_inv_def ngx_http_upstream_check_clear_all_events_def peer_slot_at_def split: option.splits)

lemma own_unless_exit:
  assumes "\<not> e_exit e \<Longrightarrow> own_res pid pr (f pr)"
  shows "own_res pid pr (unless_exit e f pr)"
  using assms own_cleared owners_clear
  by (auto simp: own_res_def unless_exit_def ngx_http_upstream_check_need_exit_def)

lemma own_on_peer:
  assumes "own_but pid i pr" "peer_slot_at pr i = Some x" "pid \<noteq> NGX_INVALID_PID"
    and "own_ok pid z" "sh_owner (snd z) = sh_owner (snd x)" "\<And>y. f x = Some y \<Longrightarrow> settled z y"
  shows "own_res pid pr (on_peer i f pr)"
proof -
  have "own_ok pid y" "sh_owner (snd y) \<in> {sh_owner (snd x), NGX_INVALID_PID, pid}" if "f x = Some y" for y
    using settled_own_ok [OF assms(6) [OF that] assms(4,3)] assms(5) assms(6) [OF that]
    by (auto simp: settled_def)
  then show ?thesis
    using assms(2) own_put [OF assms(1)] owners_put [OF assms(2)] by (auto simp: own_res_def on_peer_def)
qed

lemma own_run_handler:
  assumes "own_but pid i pr" "peer_slot_at pr i = Some x" "own_ok pid x" "pid \<noteq> NGX_INVALID_PID"
  shows "own_res pid pr (ngx_http_run_handler h e i pr)"
proof (cases h)
  case Peek_Handler
  have "own_res pid pr (on_peer i (peek_peer e) pr)"
    by (rule own_on_peer [OF assms(1,2,4,3) refl peek_peer_settled])
  then have "own_res pid pr (map_option (ngx_http_upstream_check_finish_handler e i) (on_peer i (peek_peer e) pr))"
    using own_cleared owners_step_trans [OF _ owners_clear]
    by (auto simp: own_res_def ngx_http_upstream_check_finish_handler_def ngx_http_upstream_check_need_exit_def)
  then show ?thesis
    by (simp add: Peek_Handler ngx_http_upstream_check_peek_handler_def own_unless_exit)
next
  case Send_Handler
  show ?thesis
    unfolding Send_Handler ngx_http_run_handler.simps ngx_http_upstream_check_send_handler_def
    by (rule own_unless_exit, rule own_on_peer [OF assms(1,2,4,3) refl send_peer_settled])
next
  case Recv_Handler
  show ?thesis
    unfolding Recv_Handler ngx_http_run_handler.simps ngx_http_upstream_check_recv_handler_def
    by (rule own_unless_exit, rule own_on_peer [OF assms(1,2,4,3) refl recv_peer_settled])
next
  case Discard_Handler
  show ?thesis
    unfolding Discard_Handler ngx_http_run_handler.simps ngx_http_upstream_check_discard_handler_def
    by (rule own_unless_exit, rule own_on_peer [OF assms(1,2,4,3) refl discard_peer_settled])
next
  case Dummy_Handler
  have "own_inv pid pr"
    using assms unfolding own_inv_def own_but_def by (metis option.inject)
  then show ?thesis by (simp add: Dummy_Handler ngx_http_upstream_check_dummy_handler_def own_res_def)
qed

lemma own_res_trans:
  assumes "owners_step pid pr q" "own_res pid q r" shows "own_res pid pr r"
  using assms owners_step_trans by (auto simp: own_res_def)

lemma own_connect_done:
  assumes "own_but (e_pid e) i pr" "peer_slot_at pr i = Some (p0, s)" "e_pid e \<noteq> NGX_INVALID_PID"
  shows "own_res (e_pid e) pr (Some (put_peer_slot i (connect_done e c (p, s)) pr))"
    and "own_res (e_pid e) pr (ngx_http_run_handler h e' i (put_peer_slot i (connect_done e c (p, s)) pr))"
proof -
  let ?x = "connect_done e c (p, s)"
  have ok: "own_ok (e_pid e) ?x" by (simp add: own_ok_def connect_done_def)
  have st: "owners_step (e_pid e) pr (put_peer_slot i ?x pr)"
    by (rule owners_put [OF assms(2)]) (simp add: connect_done_def)
  show "own_res (e_pid e) pr (Some (put_peer_slot i ?x pr))"
    using own_put [OF assms(1) ok] st by (simp add: own_res_def)
  show "own_res (e_pid e) pr (ngx_http_run_handler h e' i (put_peer_slot i ?x pr))"
    using assms ok peer_slot_at_put [OF assms(2), of ?x]
    by (intro own_res_trans [OF st] own_run_handler) auto
qed

lemma own_connect_new:
  assumes "own_but (e_pid e) i pr" "peer_slot_at pr i = Some (p, s)" "e_pid e \<noteq> NGX_INVALID_PID"
  shows "own_res (e_pid e) pr (connect_new e e' i (p, s) pr)"
proof -
  obtain rc con where rc: "ngx_event_connect_peer (e_connect e) = (rc, con)" by fastforce
  have "own_res (e_pid e) pr (map_option (\<lambda>x. put_peer_slot i x pr)
          (check_done e False (p\<lparr>p_connection := None\<rparr>, s)))"
    using own_put [OF assms(1)] owners_put [OF assms(2)] assms(3)
    by (auto simp: own_res_def own_ok_def settled_def dest!: check_done_settled [where z = "(p\<lparr>p_check_timeout_ev := Some 0\<rparr>, s\<lparr>sh_owner := -1\<rparr>)"])
  then show ?thesis
    using own_connect_done [OF assms, where p = "p\<lparr>p_connection := None\<rparr>"]
    by (simp add: connect_new_def rc Let_def)
qed

lemma own_connect_handler:
  assumes "own_but (e_pid e) i pr" "peer_slot_at pr i = Some (p, s)" "e_pid e \<noteq> NGX_INVALID_PID"
  shows "own_res (e_pid e) pr (ngx_http_upstream_check_connect_handler e i pr)"
  unfolding ngx_http_upstream_check_connect_handler_def
  using own_connect_done(2) [OF assms] own_connect_new [OF assms] assms(2)
  by (intro own_unless_exit) (auto simp: Let_def split: option.split)


lemma own_begin_handler:
  assumes "own_but (e_pid e) i pr" "peer_slot_at pr i = Some (p, s)" "own_ok (e_pid e) (p, s)"
    "e_pid e \<noteq> NGX_INVALID_PID"
  shows "own_res (e_pid e) pr (ngx_http_upstream_check_begin_handler e i pr)"
proof -
  let ?p = "begin_timer e p" and ?s = "begin_claim e (p_conf p) s"
  have conf: "p_conf ?p = p_conf p" by (simp add: begin_timer_def)
  have ok: "own_ok (e_pid e) (?p, s)" using assms(3) by (simp add: own_ok_def begin_timer_def)
  have keep: "own_res (e_pid e) pr (Some (put_peer_slot i (?p, s) pr))"
    using own_put [OF assms(1) ok] owners_put [OF assms(2)] by (simp add: own_res_def)
  have claim: "sh_owner ?s \<in> {sh_owner s, NGX_INVALID_PID, e_pid e}" by (simp add: begin_claim_def Let_def)
  have st: "owners_step (e_pid e) pr (put_peer_slot i (?p, ?s) pr)"
    by (rule owners_put [OF assms(2)]) (use claim in simp)
  have run: "own_res (e_pid e) pr (ngx_http_upstream_check_connect_handler e i (put_peer_slot i (?p, ?s) pr))"
    using assms(1,4) peer_slot_at_put [OF assms(2), of "(?p, ?s)"]
    by (intro own_res_trans [OF st] own_connect_handler) auto
  have rest: "own_res (e_pid e) pr (Some (put_peer_slot i (?p, ?s) pr))" if "sh_owner ?s \<noteq> e_pid e"
    using own_put [OF assms(1), of "(?p, ?s)"] that st by (simp add: own_res_def own_ok_def)
  show ?thesis
    unfolding ngx_http_upstream_check_begin_handler_def
    using peer_slot_at_nonnull [OF assms(2)] assms(2) keep run rest
    by (intro own_unless_exit) (auto simp: Let_def conf)
qed

lemma own_event:
  assumes "own_inv (e_pid e) pr" "e_pid e \<noteq> NGX_INVALID_PID" "\<not> pr_has_cleared pr"
  shows "own_res (e_pid e) pr (ngx_http_check_event e i ev pr)"
proof (cases "peer_slot_at pr i")
  case None
  then show ?thesis by (simp add: ngx_http_check_event_def own_res_def)
next
  case (Some x)
  obtain p s where x: "x = (p, s)" by (cases x)
  note at = Some [unfolded x]
  have but: "own_but (e_pid e) i pr" by (rule own_but_weaken [OF assms(1)])
  have ok: "own_ok (e_pid e) (p, s)" using assms(1,3) at by (simp add: own_inv_def)
  note run = own_run_handler [OF but at ok assms(2)]
  let ?b = "p\<lparr>p_check_ev := None\<rparr>" and ?t = "p\<lparr>p_check_timeout_ev := None\<rparr>"
  have st: "owners_step (e_pid e) pr (put_peer_slot i (q, s) pr)" for q
    by (rule owners_put [OF at]) simp
  have beg: "own_res (e_pid e) pr (ngx_http_upstream_check_begin_handler e i (put_peer_slot i (?b, s) pr))"
    by (rule own_res_trans [OF st], rule own_begin_handler [OF _ peer_slot_at_put [OF at]])
      (use but ok assms(2) in \<open>simp_all add: own_ok_def\<close>)
  let ?z = "(p\<lparr>p_check_timeout_ev := Some 0\<rparr>, s)"
  have "own_res (e_pid e) (put_peer_slot i (?t, s) pr) (on_peer i (timeout_peer e) (put_peer_slot i (?t, s) pr))"
    by (rule own_on_peer [where z = ?z, OF _ peer_slot_at_put [OF at] assms(2) _ _ timeout_peer_settled])
      (simp_all add: but own_ok_def)
  then have tmo: "own_res (e_pid e) pr (ngx_http_upstream_check_timeout_handler e i (put_peer_slot i (?t, s) pr))"
    unfolding ngx_http_upstream_check_timeout_handler_def
    by (intro own_res_trans [OF st [of ?t]] own_unless_exit)
  show ?thesis
    using at run beg tmo
    by (cases ev) (auto simp: ngx_http_check_event_def own_res_def split: option.splits)
qed

subsection \<open>All workers\<close>

text \<open>Distinct process ids, every worker in order, and none of them named as the owner of a slot it
  is not checking: the case at the start, when no slot has an owner.\<close>

definition cluster_ok :: "cluster \<Rightarrow> bool" where
  "cluster_ok cl \<longleftrightarrow> distinct (map fst (cl_workers cl)) \<and> NGX_INVALID_PID \<notin> set (map fst (cl_workers cl))
     \<and> (\<forall>w < length (cl_workers cl).
          proc_inv (worker_view cl w) \<and> own_inv (fst (cl_workers cl ! w)) (worker_view cl w))"

lemma own_foreign:
  assumes "own_inv v pr" "owners_step pid q q'" "v \<noteq> pid" "v \<noteq> NGX_INVALID_PID"
    and "pr_shm pr = Some sh" "pr_shm q = Some sh" "pr_shm q' = Some sh'"
  shows "own_inv v (pr\<lparr>pr_shm := Some sh'\<rparr>)"
proof -
  have "own_ok v x" if nc: "\<not> pr_has_cleared pr" and at: "peer_slot_at (pr\<lparr>pr_shm := Some sh'\<rparr>) j = Some x" for j x
  proof -
    from assms(2,6,7) have "list_all2 (\<lambda>s s'. sh_owner s' \<in> {sh_owner s, NGX_INVALID_PID, pid}) (ps_peers sh) (ps_peers sh')"
      by (simp add: owners_step_def)
    with at assms(5) obtain s where "peer_slot_at pr j = Some (fst x, s)" "sh_owner (snd x) \<in> {sh_owner s, NGX_INVALID_PID, pid}"
      by (auto simp: peer_slot_at_def list_all2_conv_all_nth split: option.splits if_splits)
    with assms(1,3,4) nc show ?thesis by (cases x) (auto simp: own_inv_def own_ok_def)
  qed
  then show ?thesis by (auto simp: own_inv_def)
qed

lemma cluster_ok_event:
  assumes ok: "cluster_ok cl" and w: "w < length (cl_workers cl)" and pid: "e_pid e = fst (cl_workers cl ! w)"
    and en: "event_enabled e i ev (worker_view cl w)"
    and ev: "ngx_http_check_event e i ev (worker_view cl w) = Some pr"
    and v: "v < length (cl_workers cl)"
  shows "own_inv (fst (cl_workers cl ! v)) (worker_view (worker_ran w pr cl) v)"
proof -
  from ok w have pi: "proc_inv (worker_view cl w)" and oi: "own_inv (e_pid e) (worker_view cl w)"
    by (simp_all add: cluster_ok_def pid)
  have valid: "fst (cl_workers cl ! v) \<noteq> NGX_INVALID_PID" if "v < length (cl_workers cl)" for v
    using ok nth_mem [OF that] by (force simp: cluster_ok_def)
  have live: "\<not> pr_has_cleared (worker_view cl w)" using enabled_live [OF pi en] by blast
  have step: "own_inv (e_pid e) pr" "owners_step (e_pid e) (worker_view cl w) pr"
    using own_event [OF oi _ live, of i ev] valid [OF w] ev by (simp_all add: pid own_res_def)
  from http_engine.run_shm [OF ev] obtain sh' where sh': "pr_shm pr = Some sh'" by blast
  show ?thesis
  proof (cases "v = w")
    case True
    then show ?thesis using step(1) by (simp add: worker_view_ran [OF w sh'] pid)
  next
    case False
    with ok v w have ne: "fst (cl_workers cl ! v) \<noteq> e_pid e"
      using nth_eq_iff_index_eq [of "map fst (cl_workers cl)" v w] by (auto simp: cluster_ok_def pid)
    from ok v have "own_inv (fst (cl_workers cl ! v)) (worker_view cl v)" by (simp add: cluster_ok_def)
    from own_foreign [OF this step(2) ne valid [OF v] worker_view_shm worker_view_shm sh'] False
    show ?thesis by (simp add: worker_view_ran [OF w sh'])
  qed
qed

lemma cluster_reachable_ok:
  assumes "cluster_reachable ngx_http_check_event cl0 cl" "cluster_ok cl0"
  shows "cluster_ok cl"
  using assms
proof (induction)
  case (cluster_event cl w e i ev pr)
  then have ok: "cluster_ok cl" by blast
  have "proc_inv (worker_view (worker_ran w pr cl) v)" if "v < length (cl_workers cl)" for v
    using http_engine.workers_in_order [OF cluster_reachable.cluster_event [OF cluster_event.hyps]]
      cluster_event.prems that by (simp add: cluster_ok_def)
  with cluster_ok_event [OF ok cluster_event.hyps(2-5)] ok cluster_event.hyps(2) show ?case
    unfolding cluster_ok_def worker_pids_ran worker_count_ran by simp
qed

subsection \<open>Leaving\<close>

lemma put_same_shm: "peer_slot_at pr i = Some (p, s) \<Longrightarrow> pr_shm (put_peer_slot i (q, s) pr) = pr_shm pr"
  by (auto simp: put_peer_slot_def elim!: peer_slot_at_SomeD)

lemma put_same: "peer_slot_at pr i = Some x \<Longrightarrow> put_peer_slot i x pr = pr"
  by (cases x) (auto simp: put_peer_slot_def elim!: peer_slot_at_SomeD)

lemma cleared_disabled:
  assumes "\<not> pr_has_cleared pr"
  shows "\<not> event_enabled e j ev (ngx_http_upstream_check_clear_all_events pr)"
    and "pr_shm (ngx_http_upstream_check_clear_all_events pr) = pr_shm pr"
  using assms
  by (auto simp: event_enabled_def ngx_http_upstream_check_clear_all_events_def peer_slot_at_def
      clear_peer_def timer_due_def split: option.splits check_event.splits if_splits)

lemma exit_run_handler:
  assumes "e_exit e" "h \<noteq> Dummy_Handler"
  shows "ngx_http_run_handler h e i pr = Some (ngx_http_upstream_check_clear_all_events pr)"
  using assms
  by (cases h) (simp_all add: ngx_http_upstream_check_peek_handler_def ngx_http_upstream_check_send_handler_def
      ngx_http_upstream_check_recv_handler_def ngx_http_upstream_check_discard_handler_def unless_exit_def
      ngx_http_upstream_check_need_exit_def)

lemma peer_conf_handlers: "peer_conf_ok p \<Longrightarrow> p_send_handler p \<noteq> Dummy_Handler \<and> p_recv_handler p \<noteq> Dummy_Handler"
  by (auto simp: peer_conf_ok_def wf_check_type_def)

lemma exit_event:
  assumes "peer_inv p" "peer_slot_at pr i = Some (p, s)" "e_exit e" "ev = Ev_Write \<longrightarrow> in_check p"
    and "ev \<in> {Ev_Write, Ev_Read} \<Longrightarrow> p_connection p \<noteq> None"
  shows "\<exists>q. ngx_http_check_event e i ev pr = Some (ngx_http_upstream_check_clear_all_events (put_peer_slot i (q, s) pr))"
proof (cases "ev \<in> {Ev_Write, Ev_Read}")
  case True
  with assms(5) obtain c where c: "p_connection p = Some c" by auto
  have "c_read_handler c \<noteq> Dummy_Handler" "in_check p \<longrightarrow> c_write_handler c \<noteq> Dummy_Handler"
    using assms(1) c peer_conf_handlers [of p] by (auto simp: peer_inv_def conn_ok_def)
  then have "ngx_http_check_event e i ev pr = Some (ngx_http_upstream_check_clear_all_events (put_peer_slot i (p, s) pr))"
    using True c assms(2,3,4) put_same [OF assms(2)]
    by (auto simp: ngx_http_check_event_def exit_run_handler)
  then show ?thesis by blast
next
  case False
  then consider "ev = Ev_Begin" | "ev = Ev_Timeout" by (cases ev) auto
  then show ?thesis
    using assms(2,3)
    by cases (auto simp: ngx_http_check_event_def ngx_http_upstream_check_begin_handler_def
        ngx_http_upstream_check_timeout_handler_def unless_exit_def ngx_http_upstream_check_need_exit_def)
qed

lemma due_timeout_connection:
  assumes "proc_inv pr" "event_enabled e i Ev_Timeout pr" "peer_slot_at pr i = Some (p, s)"
  shows "\<exists>c cf. p_connection p = Some c \<and> uc_check_type_conf (p_conf p) = Ptr cf"
proof -
  from enabled_live [OF assms(1,2)] assms(1,3) have l: "live_at pr i (p, s)" by (simp add: live_at_def)
  from assms(2,3) have "p_check_timeout_ev p \<noteq> None"
    by (auto simp: event_enabled_def timer_due_def split: option.splits)
  with live_at_inv [OF l] show ?thesis
    by (auto simp: peer_inv_def conn_ok_def peer_conf_ok_def split: option.splits)
qed

subsection \<open>Properties\<close>

text \<open>C1: No null pointer. Workers that start with their peers in order and run any interleaving of
  due timers and connection events, all on the same shared memory, reach only states in which every
  further event of a peer whose protocol is tcp, ssl_hello, mysql or ajp has an outcome: no handler
  follows a null connection, context, pool or check type.\<close>

theorem events_never_fault:
  assumes "\<forall>w < length (cl_workers cl0). proc_inv (worker_view cl0 w)"
    and "cluster_reachable ngx_http_check_event cl0 cl" and "w < length (cl_workers cl)"
    and "event_enabled e i ev (worker_view cl w)" and "peer_slot_at (worker_view cl w) i = Some (p, s)"
    and "p_parse p \<notin> {Some Parse_Http, Some Parse_Fastcgi}"
  shows "\<exists>pr'. ngx_http_check_event e i ev (worker_view cl w) = Some pr' \<and> proc_inv pr'"
  using check_event_ok [OF http_engine.workers_in_order [OF assms(2,1,3)] assms(4)]
    plain_parse_returns [OF assms(6)] assms(5)
  by (auto simp: proc_step_ok_def)

text \<open>C27: Stream checks never follow a null pointer either: the same guarantee for the stream
  module, whose own connect, begin and timeout handlers end no check when a connection fails.\<close>

theorem stream_events_never_fault:
  assumes "\<forall>w < length (cl_workers cl0). proc_inv (worker_view cl0 w)"
    and "cluster_reachable ngx_stream_check_event cl0 cl" and "w < length (cl_workers cl)"
    and "event_enabled e i ev (worker_view cl w)" and "peer_slot_at (worker_view cl w) i = Some (p, s)"
    and "p_parse p \<notin> {Some Parse_Http, Some Parse_Fastcgi}"
  shows "\<exists>pr'. ngx_stream_check_event e i ev (worker_view cl w) = Some pr' \<and> proc_inv pr'"
  using stream_event_ok [OF stream_engine.workers_in_order [OF assms(2,1,3)] assms(4)]
    plain_parse_returns [OF assms(6)] assms(5)
  by (auto simp: proc_step_ok_def)

text \<open>C2: Whoever owns a slot is checking it. Start any number of workers with distinct process ids
  and run any interleaving of their events: whenever the shared memory names a worker that has not
  been told to exit as the owner of a peer, that worker has a check of the peer in progress, with a
  connection and a timeout armed, so the slot is released at the latest when that timeout fires.\<close>

theorem owner_is_checking:
  assumes "cluster_ok cl0" "cluster_reachable ngx_http_check_event cl0 cl" "w < length (cl_workers cl)"
    and "\<not> pr_has_cleared (worker_view cl w)" "peer_slot_at (worker_view cl w) i = Some (p, s)"
    and "sh_owner s = fst (cl_workers cl ! w)"
  shows "p_check_timeout_ev p \<noteq> None \<and> in_check p \<and> p_connection p \<noteq> None"
proof -
  from cluster_reachable_ok [OF assms(2,1)] assms(3)
  have inv: "proc_inv (worker_view cl w)" "own_inv (fst (cl_workers cl ! w)) (worker_view cl w)"
    by (simp_all add: cluster_ok_def)
  with assms(4-6) have "p_check_timeout_ev p \<noteq> None" by (simp add: own_inv_def own_ok_def)
  moreover from slot_list_inv(2) [OF inv(1) assms(4,5)] have "peer_inv p" .
  ultimately show ?thesis by (auto simp: peer_inv_def conn_ok_def split: option.splits)
qed

text \<open>C28: The timeout of an http module's check: whatever the workers have done before, when the
  timeout fires the check ends as a failure, its connection is closed and its slot is released.\<close>

theorem timeout_verdict:
  assumes "\<forall>w < length (cl_workers cl0). proc_inv (worker_view cl0 w)"
    and "cluster_reachable ngx_http_check_event cl0 cl" and "w < length (cl_workers cl)"
    and "event_enabled e i Ev_Timeout (worker_view cl w)" "\<not> e_exit e"
    and "peer_slot_at (worker_view cl w) i = Some (p, s)"
  shows "\<exists>pr' p'. ngx_http_check_event e i Ev_Timeout (worker_view cl w) = Some pr'
    \<and> peer_slot_at pr' i = Some (p', (ngx_http_upstream_check_status_update e (p_conf p) False s)
                                      \<lparr>sh_owner := NGX_INVALID_PID\<rparr>)
    \<and> p_check_timeout_ev p' = None \<and> p_connection p' = None \<and> p_state p' = Check_All_Done"
proof -
  note pi = http_engine.workers_in_order [OF assms(2,1,3)]
  from due_timeout_connection [OF pi assms(4,6)] obtain c where c: "p_connection p = Some c" by blast
  let ?q = "p\<lparr>p_check_timeout_ev := None\<rparr>"
  have "\<exists>y. timeout_peer e (?q, s) = Some y
      \<and> snd y = (ngx_http_upstream_check_status_update e (p_conf p) False s)\<lparr>sh_owner := NGX_INVALID_PID\<rparr>
      \<and> p_check_timeout_ev (fst y) = None \<and> p_connection (fst y) = None \<and> p_state (fst y) = Check_All_Done"
    using c by (simp add: timeout_peer_def set_error_def check_done_def ngx_http_upstream_check_clean_event_def
        clean_connection_def)
  then obtain y where y: "timeout_peer e (?q, s) = Some y"
    "snd y = (ngx_http_upstream_check_status_update e (p_conf p) False s)\<lparr>sh_owner := NGX_INVALID_PID\<rparr>"
    "p_check_timeout_ev (fst y) = None" "p_connection (fst y) = None" "p_state (fst y) = Check_All_Done" by blast
  note at = peer_slot_at_put [OF assms(6), of "(?q, s)"]
  have "ngx_http_check_event e i Ev_Timeout (worker_view cl w)
      = Some (put_peer_slot i y (put_peer_slot i (?q, s) (worker_view cl w)))"
    using assms(5,6) at y(1)
    by (simp add: ngx_http_check_event_def ngx_http_upstream_check_timeout_handler_def unless_exit_def
        ngx_http_upstream_check_need_exit_def on_peer_def)
  with y peer_slot_at_put [OF at, of y] show ?thesis by (cases y) auto
qed

text \<open>The timeout of a stream check: when it fires the check ends, its slot is released and
  exactly one result is counted: a failure for a tcp or http check, a success for a udp check.\<close>

theorem stream_timeout_verdict:
  assumes "\<forall>w < length (cl_workers cl0). proc_inv (worker_view cl0 w)"
    and "cluster_reachable ngx_stream_check_event cl0 cl" and "w < length (cl_workers cl)"
    and "event_enabled e i Ev_Timeout (worker_view cl w)" "\<not> e_exit e"
    and "peer_slot_at (worker_view cl w) i = Some (p, s)"
  shows "\<exists>pr' p'. ngx_stream_check_event e i Ev_Timeout (worker_view cl w) = Some pr'
    \<and> peer_slot_at pr' i = Some (p', (ngx_stream_upstream_check_status_update e (p_conf p)
                                       (p_pc_type p = SOCK_DGRAM) s)\<lparr>sh_owner := NGX_INVALID_PID\<rparr>)
    \<and> p_check_timeout_ev p' = None \<and> p_state p' = Check_All_Done"
proof -
  note pi = stream_engine.workers_in_order [OF assms(2,1,3)]
  from due_timeout_connection [OF pi assms(4,6)] obtain c cf
    where c: "p_connection p = Some c" and cf: "uc_check_type_conf (p_conf p) = Ptr cf" by blast
  let ?q = "p\<lparr>p_check_timeout_ev := None\<rparr>"
  have "\<exists>y. stream_timeout_peer e (?q, s) = Some y
      \<and> snd y = (ngx_stream_upstream_check_status_update e (p_conf p) (p_pc_type p = SOCK_DGRAM) s)
                  \<lparr>sh_owner := NGX_INVALID_PID\<rparr>
      \<and> p_check_timeout_ev (fst y) = None \<and> p_state (fst y) = Check_All_Done"
    using c cf by (cases "p_pc_type p")
      (simp_all add: stream_timeout_peer_def check_done_def ngx_http_upstream_check_clean_event_def
        clean_connection_def)
  then obtain y where y: "stream_timeout_peer e (?q, s) = Some y"
    "snd y = (ngx_stream_upstream_check_status_update e (p_conf p) (p_pc_type p = SOCK_DGRAM) s)
                  \<lparr>sh_owner := NGX_INVALID_PID\<rparr>"
    "p_check_timeout_ev (fst y) = None" "p_state (fst y) = Check_All_Done" by blast
  note at = peer_slot_at_put [OF assms(6), of "(?q, s)"]
  have "ngx_stream_check_event e i Ev_Timeout (worker_view cl w)
      = Some (put_peer_slot i y (put_peer_slot i (?q, s) (worker_view cl w)))"
    using assms(5,6) at y(1)
    by (simp add: ngx_stream_check_event_def ngx_stream_upstream_check_timeout_handler_def unless_exit_def
        ngx_http_upstream_check_need_exit_def on_peer_def)
  with y peer_slot_at_put [OF at, of y] show ?thesis by (cases y) auto
qed

text \<open>C29: Leaving. An event whose handler looks at the exit flags (every one but a write event on
  an idle connection), run by a worker told to exit, changes no slot and leaves no event of any of the
  worker's peers enabled.\<close>

theorem exit_quiesces:
  assumes "\<forall>w < length (cl_workers cl0). proc_inv (worker_view cl0 w)"
    and "cluster_reachable ngx_http_check_event cl0 cl" and "w < length (cl_workers cl)"
    and "event_enabled e i ev (worker_view cl w)" "e_exit e"
    and "peer_slot_at (worker_view cl w) i = Some (p, s)" "ev = Ev_Write \<longrightarrow> in_check p"
  shows "\<exists>pr'. ngx_http_check_event e i ev (worker_view cl w) = Some pr' \<and> pr_shm pr' = Some (cl_shm cl)
    \<and> (\<forall>e' j ev'. \<not> event_enabled e' j ev' pr')"
proof -
  note pi = http_engine.workers_in_order [OF assms(2,1,3)]
  from enabled_live [OF pi assms(4)] assms(6) pi have l: "live_at (worker_view cl w) i (p, s)" by (simp add: live_at_def)
  have nc: "\<not> pr_has_cleared (put_peer_slot i (q, s) (worker_view cl w))" for q
    using l by (simp add: live_at_def put_peer_slot_def)
  from assms(4,6) have con: "p_connection p \<noteq> None" if "ev \<in> {Ev_Write, Ev_Read}"
    using that by (auto simp: event_enabled_def split: option.splits)
  obtain q where "ngx_http_check_event e i ev (worker_view cl w)
      = Some (ngx_http_upstream_check_clear_all_events (put_peer_slot i (q, s) (worker_view cl w)))"
    using exit_event [OF live_at_inv [OF l] assms(6,5,7) con] by blast
  with cleared_disabled [OF nc] put_same_shm [OF assms(6)] show ?thesis by simp
qed

text \<open>A connection kept by an idle worker, closed by the peer while another worker is checking:
  the discard handler of the idle worker releases the slot it does not own.\<close>

theorem discard_releases_foreign_check:
  assumes "cluster_ok cl0" "cluster_reachable ngx_http_check_event cl0 cl" "w < length (cl_workers cl)"
    and "\<not> pr_has_cleared (worker_view cl w)" "\<not> e_exit e" "\<not> discard_loop (e_recv e)"
    and "peer_slot_at (worker_view cl w) i = Some (p, s)" "\<not> in_check p" "p_connection p \<noteq> None"
    and "v < length (cl_workers cl)" "v \<noteq> w" "sh_owner s = fst (cl_workers cl ! v)"
  shows "\<exists>pr' p'. ngx_http_check_event e i Ev_Read (worker_view cl w) = Some pr'
    \<and> peer_slot_at pr' i = Some (p', s\<lparr>sh_owner := NGX_INVALID_PID\<rparr>)
    \<and> sh_owner s \<noteq> NGX_INVALID_PID"
proof -
  note ok = cluster_reachable_ok [OF assms(2,1)]
  have "proc_inv (worker_view cl w)" using ok assms(3) by (simp add: cluster_ok_def)
  from slot_list_inv(2) [OF this assms(4,7)] have inv: "peer_inv p" .
  from assms(9) obtain c where c: "p_connection p = Some c" by blast
  with inv assms(8) have h: "c_read_handler c = Discard_Handler" by (simp add: peer_inv_def conn_ok_def)
  have "\<exists>p'. discard_peer e (p, s) = Some (p', s\<lparr>sh_owner := NGX_INVALID_PID\<rparr>)"
    using assms(6) c
    by (simp add: discard_peer_def ngx_http_upstream_check_clean_event_def clean_connection_def set_error_def)
  then obtain p' where "discard_peer e (p, s) = Some (p', s\<lparr>sh_owner := NGX_INVALID_PID\<rparr>)" by blast
  moreover have "sh_owner s \<noteq> NGX_INVALID_PID"
    using ok assms(10,12) nth_mem [OF assms(10)] by (force simp: cluster_ok_def)
  ultimately show ?thesis
    using assms(5,7) c h peer_slot_at_put [OF assms(7), of "(p', s\<lparr>sh_owner := NGX_INVALID_PID\<rparr>)"]
    by (simp add: ngx_http_check_event_def ngx_http_upstream_check_discard_handler_def unless_exit_def
        ngx_http_upstream_check_need_exit_def on_peer_def)
qed

subsection \<open>Examples\<close>

text \<open>Two workers of a freshly started server with one tcp peer.\<close>

definition tcp_conf :: ngx_upstream_check_srv_conf_t where
  "tcp_conf = sample_conf\<lparr>uc_check_type_conf := Ptr (ngx_check_types ! 0), uc_send := None,
     uc_expect_body_regex := None\<rparr>"

definition two_workers :: cluster where
  "two_workers =
     (let pr = started_proc tcp_conf (ngx_check_types ! 0)
      in \<lparr>cl_workers = [(7, pr), (8, pr)],
          cl_shm = \<lparr>ps_generation = 1, ps_checksum = 0, ps_number = 1, ps_peers = [sample_shm]\<rparr>\<rparr>)"

definition connecting_env :: env where
  "connecting_env = sample_env\<lparr>e_connect := sample_connect\<lparr>k_connect := In_Progress\<rparr>\<rparr>"

lemma two_workers_ok: "cluster_ok two_workers"
proof -
  let ?pr = "started_proc tcp_conf (ngx_check_types ! 0)"
  have view: "worker_view two_workers w = ?pr" if "w < 2" for w
    using that by (auto simp: two_workers_def worker_view_def started_proc_def less_2_cases_iff Let_def)
  have "proc_inv ?pr"
    by (rule started_proc_inv) (simp_all add: tcp_conf_def ngx_check_types_def)
  moreover have "own_inv pid ?pr" if "pid \<noteq> NGX_INVALID_PID" for pid
    using that by (auto simp: own_inv_def own_ok_def started_proc_def peer_slot_at_def sample_shm_def split: if_splits)
  ultimately have "\<forall>w < 2. proc_inv (worker_view two_workers w)
      \<and> own_inv (fst (cl_workers two_workers ! w)) (worker_view two_workers w)"
    by (auto simp: view less_2_cases_iff) (simp_all add: two_workers_def Let_def)
  then show ?thesis by (simp add: cluster_ok_def two_workers_def Let_def numeral_2_eq_2)
qed


lemma started_in_order:
  assumes "uc_check_type_conf uc = Ptr cf" "cf \<in> set ngx_check_types \<union> set ngx_stream_check_types"
    and "cl_workers cl = [(pid, started_proc uc cf)]" "Some (cl_shm cl) = pr_shm (started_proc uc cf)"
  shows "\<forall>w < length (cl_workers cl). proc_inv (worker_view cl w)"
  using started_proc_inv [OF assms(1,2)] assms(3,4) by (simp add: worker_view_def)

definition one_worker :: "ngx_upstream_check_srv_conf_t \<Rightarrow> ngx_check_conf_t \<Rightarrow> cluster" where
  "one_worker uc cf =
     \<lparr>cl_workers = [(7, started_proc uc cf)],
      cl_shm = \<lparr>ps_generation = 1, ps_checksum = 0, ps_number = 1, ps_peers = [sample_shm]\<rparr>\<rparr>"

lemma one_worker_in_order:
  assumes "uc_check_type_conf uc = Ptr cf" "cf \<in> set ngx_check_types \<union> set ngx_stream_check_types"
  shows "\<forall>w < length (cl_workers (one_worker uc cf)). proc_inv (worker_view (one_worker uc cf) w)"
  by (rule started_in_order [OF assms]) (simp_all add: one_worker_def started_proc_def)

lemma one_worker_slot:
  "peer_slot_at (worker_view (one_worker uc cf) 0) 0 = Some (started_peer uc cf, sample_shm)"
  by (simp add: one_worker_def worker_view_def started_proc_def peer_slot_at_def)

lemma events_never_fault_witness:
  "\<exists>pr'. ngx_http_check_event sample_env 0 Ev_Begin
      (worker_view (one_worker mysql_conf (ngx_check_types ! 4)) 0) = Some pr' \<and> proc_inv pr'"
proof (rule events_never_fault [OF one_worker_in_order cluster_reachable.cluster_start _ _ one_worker_slot])
  let ?cl = "one_worker mysql_conf (ngx_check_types ! 4)"
  show "uc_check_type_conf mysql_conf = Ptr (ngx_check_types ! 4)" by (simp add: mysql_conf_def)
  show "ngx_check_types ! 4 \<in> set ngx_check_types \<union> set ngx_stream_check_types" by (simp add: ngx_check_types_def)
  show "0 < length (cl_workers ?cl)" by (simp add: one_worker_def)
  show "event_enabled sample_env 0 Ev_Begin (worker_view ?cl 0)" by code_simp
  show "p_parse (started_peer mysql_conf (ngx_check_types ! 4)) \<notin> {Some Parse_Http, Some Parse_Fastcgi}"
    by (simp add: started_peer_def ngx_check_types_def)
qed

lemma stream_events_never_fault_witness:
  "\<exists>pr'. ngx_stream_check_event refused_env 0 Ev_Begin
      (worker_view (one_worker (stream_conf (ngx_stream_check_types ! 0)) (ngx_stream_check_types ! 0)) 0) = Some pr'
     \<and> proc_inv pr'"
proof (rule stream_events_never_fault [OF one_worker_in_order cluster_reachable.cluster_start _ _ one_worker_slot])
  let ?cf = "ngx_stream_check_types ! 0"
  let ?cl = "one_worker (stream_conf ?cf) ?cf"
  show "uc_check_type_conf (stream_conf ?cf) = Ptr ?cf" by (simp add: stream_conf_def)
  show "?cf \<in> set ngx_check_types \<union> set ngx_stream_check_types" by (simp add: ngx_stream_check_types_def)
  show "0 < length (cl_workers ?cl)" by (simp add: one_worker_def)
  show "event_enabled refused_env 0 Ev_Begin (worker_view ?cl 0)" by code_simp
  show "p_parse (started_peer (stream_conf ?cf) ?cf) \<notin> {Some Parse_Http, Some Parse_Fastcgi}"
    by (simp add: started_peer_def ngx_stream_check_types_def)
qed

text \<open>Two tcp workers, the first of which has just started a check.\<close>

definition first_checking :: cluster where
  "first_checking = the (cluster_run ngx_http_check_event [(0, connecting_env, 0, Ev_Begin)] two_workers)"

lemma first_checking_facts:
  "cluster_run ngx_http_check_event [(0, connecting_env, 0, Ev_Begin)] two_workers = Some first_checking"
  "map_option (sh_owner \<circ> snd) (peer_slot_at (worker_view first_checking 0) 0) = Some 7"
  "0 < length (cl_workers first_checking)" "fst (cl_workers first_checking ! 0) = 7"
  "\<not> pr_has_cleared (worker_view first_checking 0)"
  "event_enabled (sample_env\<lparr>e_now := 100500\<rparr>) 0 Ev_Timeout (worker_view first_checking 0)"
  "event_enabled (sample_env\<lparr>e_now := 100500, e_exit := True\<rparr>) 0 Ev_Timeout (worker_view first_checking 0)"
proof -
  have "case cluster_run ngx_http_check_event [(0, connecting_env, 0, Ev_Begin)] two_workers of
      None \<Rightarrow> False
    | Some cl \<Rightarrow>
        map_option (sh_owner \<circ> snd) (peer_slot_at (worker_view cl 0) 0) = Some 7
        \<and> 0 < length (cl_workers cl) \<and> fst (cl_workers cl ! 0) = 7 \<and> \<not> pr_has_cleared (worker_view cl 0)
        \<and> event_enabled (sample_env\<lparr>e_now := 100500\<rparr>) 0 Ev_Timeout (worker_view cl 0)
        \<and> event_enabled (sample_env\<lparr>e_now := 100500, e_exit := True\<rparr>) 0 Ev_Timeout (worker_view cl 0)"
    by code_simp
  from case_Some_the [OF this, folded first_checking_def]
  show "cluster_run ngx_http_check_event [(0, connecting_env, 0, Ev_Begin)] two_workers = Some first_checking"
    "map_option (sh_owner \<circ> snd) (peer_slot_at (worker_view first_checking 0) 0) = Some 7"
    "0 < length (cl_workers first_checking)" "fst (cl_workers first_checking ! 0) = 7"
    "\<not> pr_has_cleared (worker_view first_checking 0)"
    "event_enabled (sample_env\<lparr>e_now := 100500\<rparr>) 0 Ev_Timeout (worker_view first_checking 0)"
    "event_enabled (sample_env\<lparr>e_now := 100500, e_exit := True\<rparr>) 0 Ev_Timeout (worker_view first_checking 0)"
    by blast+
qed

lemma first_checking_reachable: "cluster_reachable ngx_http_check_event two_workers first_checking"
  by (rule cluster_run_reachable [OF first_checking_facts(1) cluster_reachable.cluster_start])

lemma two_workers_in_order: "\<forall>w < length (cl_workers two_workers). proc_inv (worker_view two_workers w)"
  using two_workers_ok by (simp add: cluster_ok_def)

lemma owner_is_checking_witness:
  "\<exists>p s. peer_slot_at (worker_view first_checking 0) 0 = Some (p, s) \<and> sh_owner s = 7
     \<and> p_check_timeout_ev p \<noteq> None \<and> in_check p \<and> p_connection p \<noteq> None"
proof -
  from first_checking_facts(2) obtain p s
    where at: "peer_slot_at (worker_view first_checking 0) 0 = Some (p, s)" and own: "sh_owner s = 7" by auto
  from owner_is_checking [OF two_workers_ok first_checking_reachable first_checking_facts(3,5) at] at own
    first_checking_facts(4) show ?thesis by simp
qed

lemma timeout_verdict_witness:
  "\<exists>pr' p' s'. ngx_http_check_event (sample_env\<lparr>e_now := 100500\<rparr>) 0 Ev_Timeout (worker_view first_checking 0) = Some pr'
    \<and> peer_slot_at pr' 0 = Some (p', s') \<and> sh_owner s' = NGX_INVALID_PID \<and> sh_rise_count s' = 0
    \<and> p_check_timeout_ev p' = None \<and> p_connection p' = None \<and> p_state p' = Check_All_Done"
proof -
  from first_checking_facts(2) obtain p s
    where at: "peer_slot_at (worker_view first_checking 0) 0 = Some (p, s)" by auto
  from timeout_verdict [OF two_workers_in_order first_checking_reachable first_checking_facts(3,6) _ at]
  show ?thesis
    by (force simp: sample_env_def ngx_http_upstream_check_status_update_def Let_def)
qed

lemma exit_quiesces_witness:
  "\<exists>pr'. ngx_http_check_event (sample_env\<lparr>e_now := 100500, e_exit := True\<rparr>) 0 Ev_Timeout
        (worker_view first_checking 0) = Some pr'
    \<and> pr_shm pr' = Some (cl_shm first_checking) \<and> (\<forall>e' j ev'. \<not> event_enabled e' j ev' pr')"
proof -
  from first_checking_facts(2) obtain p s
    where at: "peer_slot_at (worker_view first_checking 0) 0 = Some (p, s)" by auto
  from exit_quiesces [OF two_workers_in_order first_checking_reachable first_checking_facts(3,7) _ at]
  show ?thesis by simp
qed

text \<open>A udp check of the sample peer: the datagram is sent, nothing comes back.\<close>

definition udp_sent :: cluster where
  "udp_sent = the (cluster_run ngx_stream_check_event [(0, sample_env\<lparr>e_send := [Sent 100]\<rparr>, 0, Ev_Begin)]
     (one_worker (stream_conf (ngx_stream_check_types ! 1)) (ngx_stream_check_types ! 1)))"

lemma stream_timeout_verdict_witness:
  "\<exists>pr' p' s'. ngx_stream_check_event (sample_env\<lparr>e_now := 101100\<rparr>) 0 Ev_Timeout (worker_view udp_sent 0) = Some pr'
    \<and> peer_slot_at pr' 0 = Some (p', s') \<and> sh_rise_count s' = 1 \<and> sh_fall_count s' = 0
    \<and> p_check_timeout_ev p' = None \<and> p_state p' = Check_All_Done"
proof -
  let ?cf = "ngx_stream_check_types ! 1" and ?e = "sample_env\<lparr>e_now := 101100\<rparr>"
  let ?run = "cluster_run ngx_stream_check_event [(0, sample_env\<lparr>e_send := [Sent 100]\<rparr>, 0, Ev_Begin)]
     (one_worker (stream_conf ?cf) ?cf)"
  have "case ?run of None \<Rightarrow> False
    | Some cl \<Rightarrow> 0 < length (cl_workers cl) \<and> event_enabled ?e 0 Ev_Timeout (worker_view cl 0)
        \<and> map_option (\<lambda>(p, s). (p_pc_type p, sh_rise_count s)) (peer_slot_at (worker_view cl 0) 0)
            = Some (SOCK_DGRAM, 0)"
    by code_simp
  from case_Some_the [OF this, folded udp_sent_def]
  have run: "?run = Some udp_sent" and len: "0 < length (cl_workers udp_sent)"
    and en: "event_enabled ?e 0 Ev_Timeout (worker_view udp_sent 0)"
    and slot: "map_option (\<lambda>(p, s). (p_pc_type p, sh_rise_count s)) (peer_slot_at (worker_view udp_sent 0) 0)
      = Some (SOCK_DGRAM, 0)"
    by blast+
  from cluster_run_reachable [OF run cluster_reachable.cluster_start]
  have r: "cluster_reachable ngx_stream_check_event (one_worker (stream_conf ?cf) ?cf) udp_sent" .
  have inv: "\<forall>w < length (cl_workers (one_worker (stream_conf ?cf) ?cf)).
      proc_inv (worker_view (one_worker (stream_conf ?cf) ?cf) w)"
    by (rule one_worker_in_order) (simp_all add: stream_conf_def ngx_stream_check_types_def)
  from slot obtain p s where at: "peer_slot_at (worker_view udp_sent 0) 0 = Some (p, s)"
    and ps: "p_pc_type p = SOCK_DGRAM" "sh_rise_count s = 0" by auto
  from stream_timeout_verdict [OF inv r len en _ at] ps show ?thesis
    by (force simp: sample_env_def ngx_http_upstream_check_status_update_def Let_def)
qed

text \<open>The end of a connection is found without counting up to the size of the buffer.\<close>

lemma discard_loop_code [code]:
  "discard_loop ios =
     (if ios = [] then True else if hd ios = Io_Bytes [] then False
      else (case recv_io 4096 ios of
              (Io_Bytes (x # xs), r) \<Rightarrow> discard_loop r
            | (Io_Again, r) \<Rightarrow> True
            | _ \<Rightarrow> False))"
proof (cases ios)
  case (Cons io r)
  then show ?thesis by (cases "io = Io_Bytes []") (simp add: discard_loop.simps, subst discard_loop.simps, simp)
qed (simp add: discard_loop.simps)

text \<open>The first worker has checked the peer and keeps the connection, the second is checking.\<close>

definition second_checking :: cluster where
  "second_checking = the (cluster_run ngx_http_check_event
     [(0, sample_env, 0, Ev_Begin),
      (1, connecting_env\<lparr>e_pid := 8, e_now := 101000\<rparr>, 0, Ev_Begin)] two_workers)"

definition closed_env :: env where
  "closed_env = sample_env\<lparr>e_now := 101100, e_recv := [Io_Bytes []]\<rparr>"

lemma second_checking_facts:
  "cluster_run ngx_http_check_event
     [(0, sample_env, 0, Ev_Begin),
      (1, connecting_env\<lparr>e_pid := 8, e_now := 101000\<rparr>, 0, Ev_Begin)] two_workers = Some second_checking"
  "map_option (\<lambda>(p, s). (in_check p, p_connection p = None, sh_owner s)) (peer_slot_at (worker_view second_checking 0) 0)
      = Some (False, False, 8)"
  "length (cl_workers second_checking) = 2" "fst (cl_workers second_checking ! 1) = 8"
  "\<not> pr_has_cleared (worker_view second_checking 0)"
proof -
  have "case cluster_run ngx_http_check_event
     [(0, sample_env, 0, Ev_Begin),
      (1, connecting_env\<lparr>e_pid := 8, e_now := 101000\<rparr>, 0, Ev_Begin)] two_workers of
      None \<Rightarrow> False
    | Some cl \<Rightarrow>
        map_option (\<lambda>(p, s). (in_check p, p_connection p = None, sh_owner s)) (peer_slot_at (worker_view cl 0) 0)
          = Some (False, False, 8)
        \<and> length (cl_workers cl) = 2 \<and> fst (cl_workers cl ! 1) = 8 \<and> \<not> pr_has_cleared (worker_view cl 0)"
    by code_simp
  from case_Some_the [OF this, folded second_checking_def]
  show "cluster_run ngx_http_check_event
     [(0, sample_env, 0, Ev_Begin),
      (1, connecting_env\<lparr>e_pid := 8, e_now := 101000\<rparr>, 0, Ev_Begin)] two_workers = Some second_checking"
    "map_option (\<lambda>(p, s). (in_check p, p_connection p = None, sh_owner s)) (peer_slot_at (worker_view second_checking 0) 0)
      = Some (False, False, 8)"
    "length (cl_workers second_checking) = 2" "fst (cl_workers second_checking ! 1) = 8"
    "\<not> pr_has_cleared (worker_view second_checking 0)"
    by blast+
qed

lemma second_checking_reachable: "cluster_reachable ngx_http_check_event two_workers second_checking"
  by (rule cluster_run_reachable [OF second_checking_facts(1) cluster_reachable.cluster_start])

lemma discard_releases_foreign_check_witness:
  "\<exists>pr' p' s'. ngx_http_check_event closed_env 0 Ev_Read (worker_view second_checking 0) = Some pr'
    \<and> map_option (sh_owner \<circ> snd) (peer_slot_at (worker_view second_checking 0) 0) = Some 8
    \<and> peer_slot_at pr' 0 = Some (p', s') \<and> sh_owner s' = NGX_INVALID_PID"
proof -
  from second_checking_facts(2) obtain p s where at: "peer_slot_at (worker_view second_checking 0) 0 = Some (p, s)"
    and ps: "\<not> in_check p" "p_connection p \<noteq> None" "sh_owner s = 8" by auto
  have len: "0 < length (cl_workers second_checking)" "1 < length (cl_workers second_checking)"
    by (simp_all add: second_checking_facts(3))
  have ex: "\<not> e_exit closed_env" by (simp add: closed_env_def sample_env_def)
  have dl: "\<not> discard_loop (e_recv closed_env)" by (simp add: closed_env_def discard_loop.simps)
  from discard_releases_foreign_check [OF two_workers_ok second_checking_reachable len(1) second_checking_facts(5)
      ex dl at ps(1,2) len(2)] ps(3) second_checking_facts(4) at show ?thesis by auto
qed


end
