(* ===== verification/Check_Shm.thy ===== *)
theory Check_Shm
  imports Check_Config Check_Workers
begin

text \<open>
  From the configuration to running workers: the list of peers the load balancers fill with
  \<open>add_peer\<close>, the completion of the main configuration, the shared memory zone with its inheritance from the
  zone of the configuration before, and the start of the workers.
\<close>

subsection \<open>The peers of a configuration\<close>

text \<open>What \<open>add_peer\<close> reads of an upstream: its name and the check configuration (\<open>None\<close>: \<open>srv_conf\<close> is
  \<open>NULL\<close>).\<close>

record check_upstream =
  us_host :: string
  us_srv_conf :: "ngx_upstream_check_srv_conf_t option"

text \<open>\<open>ngx_upstream_check_peers_t\<close>. A peer's \<open>conf\<close> points to the configuration of its upstream, which is
  completed after the peer was added: a peer comes with the number of its upstream, and \<open>bind_confs\<close>
  reads the configuration through it.\<close>

record ngx_upstream_check_peers_t =
  cp_check_shm_name :: string
  cp_checksum :: ngx_uint_t
  cp_peers :: "(nat \<times> ngx_upstream_check_peer_t) list"

record ngx_upstream_check_main_conf_t =
  mc_check_shm_size :: ngx_uint_t
  mc_peers :: ngx_upstream_check_peers_t

definition ngx_http_upstream_check_create_main_conf ::
  "bool \<Rightarrow> bool \<Rightarrow> bool \<Rightarrow> ngx_upstream_check_main_conf_t option" where
  "ngx_http_upstream_check_create_main_conf pcalloc1 pcalloc2 array_init =
     (if \<not> pcalloc1 then None
      else if \<not> pcalloc2 then None
      else if \<not> array_init then None
      else Some \<lparr>mc_check_shm_size = 0,
                 mc_peers = \<lparr>cp_check_shm_name = [], cp_checksum = 0, cp_peers = []\<rparr>\<rparr>)"

text \<open>\<open>ngx_http_upstream_check_addr_change_port\<close>: \<open>palloc\<close> and \<open>pnalloc\<close> tell whether the allocations of the
  sockaddr and of the name succeed. The second result is \<open>*dst\<close>, which was zeroed, as the function leaves it.
  The buffers have \<open>NGX_INET_ADDRSTRLEN + 6\<close> and \<open>NGX_INET6_ADDRSTRLEN + 6\<close> bytes.\<close>

definition no_addr :: ngx_addr_t where
  "no_addr = \<lparr>a_sockaddr = [], a_name = []\<rparr>"

definition ngx_http_upstream_check_addr_change_port ::
  "bool \<Rightarrow> bool \<Rightarrow> ngx_addr_t \<Rightarrow> ngx_uint_t \<Rightarrow> ngx_rc \<times> ngx_addr_t" where
  "ngx_http_upstream_check_addr_change_port palloc pnalloc src port =
     (if \<not> palloc then (NGX_ERROR, no_addr)
      else
        let sa = a_sockaddr src
        in if sa_family sa = AF_INET then
             let sa = take 2 sa @ be16 (ucast port) @ drop 4 sa
             in if \<not> pnalloc then (NGX_ERROR, no_addr\<lparr>a_sockaddr := sa\<rparr>)
                else (NGX_OK, \<lparr>a_sockaddr = sa, a_name = ngx_sock_ntop sa 21 True\<rparr>)
           else if sa_family sa = AF_INET6 then
             let sa = take 2 sa @ be16 (ucast port) @ drop 4 sa
             in if \<not> pnalloc then (NGX_ERROR, no_addr\<lparr>a_sockaddr := sa\<rparr>)
                else (NGX_OK, \<lparr>a_sockaddr = sa, a_name = ngx_sock_ntop sa 51 True\<rparr>)
           else (NGX_ERROR, no_addr\<lparr>a_sockaddr := sa\<rparr>))"

text \<open>A zeroed peer with the fields \<open>add_peer\<close> sets; its handlers are set by \<open>add_timers\<close> before anything
  can call them.\<close>

definition new_peer ::
  "nat \<Rightarrow> string \<Rightarrow> ngx_upstream_check_srv_conf_t \<Rightarrow> ngx_addr_t \<Rightarrow> ngx_upstream_check_peer_t" where
  "new_peer index host uc addr =
     \<lparr>p_state = Check_Zero, p_pool = False, p_index = index, p_upstream_name = host,
      p_check_peer_addr = no_addr, p_peer_addr = addr, p_check_ev = None, p_check_timeout_ev = None,
      p_pc_type = SOCK_STREAM, p_connection = None, p_check_data = None,
      p_send_handler = Dummy_Handler, p_recv_handler = Dummy_Handler,
      p_init = None, p_parse = None, p_reinit = None, p_conf = uc\<rparr>"

text \<open>What the pool grants during one \<open>add_peer\<close>: the array slot, the address, its sockaddr, its name.\<close>

record add_allocs =
  al_push :: bool
  al_pcalloc :: bool
  al_palloc :: bool
  al_pnalloc :: bool

definition push_peer ::
  "nat \<Rightarrow> ngx_upstream_check_peer_t \<Rightarrow> ngx_upstream_check_peers_t \<Rightarrow> ngx_upstream_check_peers_t" where
  "push_peer u p ps = ps\<lparr>cp_peers := cp_peers ps @ [(u, p)]\<rparr>"

definition count_peer ::
  "ngx_addr_t \<Rightarrow> ngx_upstream_check_peers_t \<Rightarrow> ngx_upstream_check_peers_t" where
  "count_peer addr ps = ps\<lparr>cp_checksum := cp_checksum ps + ucast (ngx_murmur_hash2 (a_name addr))\<rparr>"

definition ngx_http_upstream_check_add_peer ::
  "add_allocs \<Rightarrow> nat \<Rightarrow> check_upstream \<Rightarrow> ngx_addr_t \<Rightarrow> ngx_upstream_check_peers_t
     \<Rightarrow> ngx_uint_t \<times> ngx_upstream_check_peers_t" where
  "ngx_http_upstream_check_add_peer al u us addr ps =
     (case us_srv_conf us of
        None \<Rightarrow> (- 1, ps)
      | Some uc \<Rightarrow>
          if uc_check_interval uc = 0 then (- 1, ps)
          else if \<not> al_push al then (- 1, ps)
          else
            let index = length (cp_peers ps);
                p = new_peer index (us_host us) uc addr
            in if uc_port uc \<noteq> 0 then
                 (if \<not> al_pcalloc al then (- 1, push_peer u p ps)
                  else
                    (case ngx_http_upstream_check_addr_change_port (al_palloc al) (al_pnalloc al) addr (uc_port uc) of
                       (rc, dst) \<Rightarrow>
                         let ps = push_peer u (p\<lparr>p_check_peer_addr := dst\<rparr>) ps
                         in if rc \<noteq> NGX_OK then (- 1, ps) else (of_nat index, count_peer addr ps)))
               else (of_nat index, count_peer addr (push_peer u (p\<lparr>p_check_peer_addr := addr\<rparr>) ps)))"

subsection \<open>The name and the size of the zone\<close>

definition ngx_http_upstream_check_get_shm_name :: "bool \<Rightarrow> ngx_uint_t \<Rightarrow> ngx_rc \<times> string" where
  "ngx_http_upstream_check_get_shm_name palloc generation =
     (if \<not> palloc then (NGX_ERROR, [])
      else (NGX_OK, take 256 (''ngx_http_upstream_check'' @ ''#'' @ ngx_sprintf_num (unat generation))))"

text \<open>\<open>init_shm\<close>: the generation after it, the name and the size given to \<open>ngx_shared_memory_add\<close>, which
  \<open>add\<close> stands for (\<open>False\<close>: it returns \<open>NULL\<close>, which is then dereferenced), and the peers the
  module works on from now on.\<close>

definition ngx_http_upstream_check_init_shm ::
  "bool \<Rightarrow> (string \<Rightarrow> ngx_uint_t \<Rightarrow> bool) \<Rightarrow> ngx_uint_t \<Rightarrow> ngx_upstream_check_main_conf_t
     \<Rightarrow> (conf_rc \<times> ngx_uint_t \<times> ngx_upstream_check_peers_t) option" where
  "ngx_http_upstream_check_init_shm palloc add generation mc =
     (let generation = generation + 1;
          name = snd (ngx_http_upstream_check_get_shm_name palloc generation);
          shm_size = (if 1024 * 1024 < mc_check_shm_size mc then mc_check_shm_size mc else 1024 * 1024)
      in if \<not> add name shm_size then None
         else Some (NGX_CONF_OK, generation, (mc_peers mc)\<lparr>cp_check_shm_name := name\<rparr>))"

subsection \<open>Completing the configuration\<close>

text \<open>The loop of \<open>init_main_conf\<close> over the upstreams; \<open>alloc i\<close> tells whether the request of upstream
  \<open>i\<close> can be allocated. The inner \<open>None\<close> is \<open>NGX_CONF_ERROR\<close>.\<close>

fun init_upstreams ::
  "string \<Rightarrow> (nat \<Rightarrow> bool) \<Rightarrow> string \<Rightarrow> nat \<Rightarrow> check_upstream list \<Rightarrow> check_upstream list option option" where
  "init_upstreams dr alloc junk i [] = Some (Some [])"
| "init_upstreams dr alloc junk i (us # uss) =
     (case ngx_http_upstream_check_init_srv_conf dr (alloc i) junk (us_srv_conf us) of
        None \<Rightarrow> None
      | Some (rc, sc) \<Rightarrow>
          if rc \<noteq> NGX_CONF_OK then Some None
          else map_option (map_option (\<lambda>uss. us\<lparr>us_srv_conf := sc\<rparr> # uss))
                 (init_upstreams dr alloc junk (Suc i) uss))"

definition ngx_http_upstream_check_init_main_conf ::
  "bool \<Rightarrow> (nat \<Rightarrow> bool) \<Rightarrow> string \<Rightarrow> bool \<Rightarrow> (string \<Rightarrow> ngx_uint_t \<Rightarrow> bool) \<Rightarrow> ngx_uint_t \<Rightarrow> check_upstream list
     \<Rightarrow> ngx_upstream_check_main_conf_t
     \<Rightarrow> (conf_rc \<times> check_upstream list \<times> ngx_uint_t \<times> ngx_upstream_check_peers_t) option" where
  "ngx_http_upstream_check_init_main_conf alloc0 alloc junk palloc add generation uss mc =
     (if \<not> alloc0 then Some (NGX_CONF_ERROR, uss, generation, mc_peers mc)
      else
        (case ngx_http_upstream_check_create_fastcgi_request junk (param_pairs fastcgi_default_params) of
           None \<Rightarrow> None
         | Some dr \<Rightarrow>
             (case init_upstreams dr alloc junk 0 uss of
                None \<Rightarrow> None
              | Some None \<Rightarrow> Some (NGX_CONF_ERROR, uss, generation, mc_peers mc)
              | Some (Some uss) \<Rightarrow>
                  map_option (\<lambda>(rc, g, ps). (rc, uss, g, ps))
                    (ngx_http_upstream_check_init_shm palloc add generation mc))))"

text \<open>The peers with their configurations read through the pointer.\<close>

definition bind_confs :: "check_upstream list \<Rightarrow> ngx_upstream_check_peers_t \<Rightarrow> ngx_upstream_check_peer_t list" where
  "bind_confs uss ps =
     map (\<lambda>(u, p). case us_srv_conf (uss ! u) of None \<Rightarrow> p | Some uc \<Rightarrow> p\<lparr>p_conf := uc\<rparr>) (cp_peers ps)"

subsection \<open>The shared memory zone\<close>

text \<open>A zone of a cycle: its name, the module it belongs to and the slots in it (\<open>None\<close>: \<open>data\<close> is
  \<open>NULL\<close>). The parts of the list of zones are one list.\<close>

record check_zone =
  z_name :: string
  z_tag :: nat
  z_data :: "ngx_upstream_check_peers_shm_t option"

fun ngx_shared_memory_find :: "check_zone list \<Rightarrow> string \<Rightarrow> nat \<Rightarrow> check_zone option" where
  "ngx_shared_memory_find [] name tag = None"
| "ngx_shared_memory_find (z # zs) name tag =
     (if length name \<noteq> length (z_name z) then ngx_shared_memory_find zs name tag
      else if ngx_strncmp name (z_name z) (length name) \<noteq> 0 then ngx_shared_memory_find zs name tag
      else if tag \<noteq> z_tag z then ngx_shared_memory_find zs name tag
      else Some z)"

text \<open>\<open>find_shm_peer\<close>, on the slots of the zone: the first one with the address. A slot of the same address
  length without an address is a null pointer followed, the outer \<open>None\<close>.\<close>

fun ngx_http_upstream_check_find_shm_peer ::
  "ngx_upstream_check_peer_shm_t list \<Rightarrow> ngx_addr_t \<Rightarrow> ngx_upstream_check_peer_shm_t option option" where
  "ngx_http_upstream_check_find_shm_peer [] addr = Some None"
| "ngx_http_upstream_check_find_shm_peer (s # ss) addr =
     (if length (a_sockaddr addr) \<noteq> sh_socklen s then ngx_http_upstream_check_find_shm_peer ss addr
      else
        (case sh_sockaddr s of
           None \<Rightarrow> None
         | Some sa \<Rightarrow>
             if a_sockaddr addr = sa then Some (Some s) else ngx_http_upstream_check_find_shm_peer ss addr))"

text \<open>The stream module's also compares the names of the upstreams.\<close>

fun ngx_stream_upstream_check_find_shm_peer ::
  "ngx_upstream_check_peer_shm_t list \<Rightarrow> ngx_addr_t \<Rightarrow> string \<Rightarrow> ngx_upstream_check_peer_shm_t option option" where
  "ngx_stream_upstream_check_find_shm_peer [] addr name = Some None"
| "ngx_stream_upstream_check_find_shm_peer (s # ss) addr name =
     (if length (a_sockaddr addr) \<noteq> sh_socklen s then ngx_stream_upstream_check_find_shm_peer ss addr name
      else
        (case sh_sockaddr s of
           None \<Rightarrow> None
         | Some sa \<Rightarrow>
             if a_sockaddr addr \<noteq> sa then ngx_stream_upstream_check_find_shm_peer ss addr name
             else
               (case sh_upstream_name s of
                  None \<Rightarrow> None
                | Some n \<Rightarrow>
                    if name = n then Some (Some s) else ngx_stream_upstream_check_find_shm_peer ss addr name)))"

text \<open>\<open>init_shm_peer\<close> with atomic operations, where \<open>ngx_shmtx_create\<close> returns \<open>NGX_OK\<close>.\<close>

definition ngx_http_upstream_check_init_shm_peer ::
  "ngx_upstream_check_peer_shm_t option \<Rightarrow> ngx_uint_t \<Rightarrow> ngx_upstream_check_peer_shm_t
     \<Rightarrow> ngx_upstream_check_peer_shm_t" where
  "ngx_http_upstream_check_init_shm_peer opsh init_down psh =
     (case opsh of
        Some os \<Rightarrow>
          psh\<lparr>sh_access_time := sh_access_time os, sh_fall_count := sh_fall_count os,
              sh_rise_count := sh_rise_count os, sh_busyness := sh_busyness os,
              sh_access_count := sh_access_count os, sh_down := sh_down os\<rparr>
      | None \<Rightarrow>
          psh\<lparr>sh_access_time := 0, sh_fall_count := 0, sh_rise_count := 0, sh_busyness := 0,
              sh_access_count := 0, sh_down := init_down\<rparr>)"

definition ngx_stream_upstream_check_init_shm_peer ::
  "ngx_upstream_check_peer_shm_t option \<Rightarrow> ngx_uint_t \<Rightarrow> string \<Rightarrow> ngx_upstream_check_peer_shm_t
     \<Rightarrow> ngx_upstream_check_peer_shm_t" where
  "ngx_stream_upstream_check_init_shm_peer opsh init_down name psh =
     (ngx_http_upstream_check_init_shm_peer opsh init_down psh)\<lparr>sh_upstream_name := Some name\<rparr>"

text \<open>A zeroed slot with the owner and the address the loop sets first.\<close>

definition new_slot :: "ngx_addr_t \<Rightarrow> ngx_upstream_check_peer_shm_t" where
  "new_slot addr =
     \<lparr>sh_owner = NGX_INVALID_PID, sh_access_time = 0, sh_fall_count = 0, sh_rise_count = 0, sh_busyness = 0,
      sh_access_count = 0, sh_sockaddr = Some (a_sockaddr addr), sh_socklen = length (a_sockaddr addr),
      sh_down = 0, sh_upstream_name = None\<rparr>"

text \<open>The loop over the peers of a zone that is not taken over as it is. \<open>search\<close> is the module's search in
  the old zone, \<open>init\<close> its \<open>init_shm_peer\<close> (the peer gives the name and \<open>default_down\<close>), \<open>slab i\<close> tells
  whether the address of peer \<open>i\<close> can be allocated. The inner \<open>None\<close> is \<open>NGX_ERROR\<close>.\<close>

fun zone_slots ::
  "(ngx_upstream_check_peer_t \<Rightarrow> ngx_upstream_check_peer_shm_t option option)
     \<Rightarrow> (ngx_upstream_check_peer_t \<Rightarrow> ngx_upstream_check_peer_shm_t option \<Rightarrow> ngx_upstream_check_peer_shm_t
          \<Rightarrow> ngx_upstream_check_peer_shm_t)
     \<Rightarrow> (nat \<Rightarrow> bool) \<Rightarrow> nat \<Rightarrow> ngx_upstream_check_peer_t list
     \<Rightarrow> ngx_upstream_check_peer_shm_t list option option" where
  "zone_slots search init slab i [] = Some (Some [])"
| "zone_slots search init slab i (p # ps) =
     (if \<not> slab i then Some None
      else
        (case search p of
           None \<Rightarrow> None
         | Some os \<Rightarrow>
             map_option (map_option (\<lambda>ss. init p os (new_slot (p_peer_addr p)) # ss))
               (zone_slots search init slab (Suc i) ps)))"

text \<open>The zone whose slots are searched: the one given, or the one of the generation before.\<close>

definition old_zone ::
  "(ngx_uint_t \<Rightarrow> string) \<Rightarrow> nat \<Rightarrow> check_zone list \<Rightarrow> ngx_uint_t \<Rightarrow> ngx_upstream_check_peers_shm_t option
     \<Rightarrow> ngx_upstream_check_peers_shm_t option" where
  "old_zone shm_name tag zones generation data =
     (if generation > 1 then
        (case ngx_shared_memory_find zones (shm_name (generation - 1)) tag of
           None \<Rightarrow> data
         | Some z \<Rightarrow> z_data z)
      else data)"

definition keep_zone :: "nat \<Rightarrow> ngx_upstream_check_peers_shm_t \<Rightarrow> ngx_upstream_check_peers_shm_t" where
  "keep_zone number sh =
     sh\<lparr>ps_peers := map (\<lambda>s. s\<lparr>sh_owner := NGX_INVALID_PID\<rparr>) (take number (ps_peers sh)) @ drop number (ps_peers sh)\<rparr>"

text \<open>\<open>init_shm_zone\<close>. \<open>ctx\<close> is \<open>http_peers_ctx\<close> with its peers bound to their configurations, \<open>slab0\<close> and \<open>slab\<close>
  tell which allocations in the zone succeed, \<open>palloc\<close> whether the old name can be written. The result
  is the return code and what \<open>peers->peers_shm\<close> points to after it.\<close>

definition ngx_http_upstream_check_init_shm_zone ::
  "bool \<Rightarrow> (nat \<Rightarrow> bool) \<Rightarrow> bool \<Rightarrow> nat \<Rightarrow> check_zone list \<Rightarrow> ngx_uint_t
     \<Rightarrow> (ngx_uint_t \<times> ngx_upstream_check_peer_t list) option \<Rightarrow> ngx_upstream_check_peers_shm_t option
     \<Rightarrow> (ngx_rc \<times> ngx_upstream_check_peers_shm_t option) option" where
  "ngx_http_upstream_check_init_shm_zone slab0 slab palloc tag zones generation ctx data =
     (case ctx of
        None \<Rightarrow> Some (NGX_OK, None)
      | Some (checksum, ps) \<Rightarrow>
          if \<not> slab0 then Some (NGX_ERROR, None)
          else
            let number = length ps
            in if (case data of
                     Some od \<Rightarrow> ps_number od = number \<and> ps_checksum od = checksum
                   | None \<Rightarrow> False)
               then Some (NGX_OK, Some (keep_zone number (the data)))
               else
                 let osh = old_zone (\<lambda>g. snd (ngx_http_upstream_check_get_shm_name palloc g)) tag zones generation data;
                     search = (\<lambda>p. case osh of
                                None \<Rightarrow> Some None
                              | Some sh \<Rightarrow> ngx_http_upstream_check_find_shm_peer (take (ps_number sh) (ps_peers sh))
                                             (p_peer_addr p));
                     init = (\<lambda>p os. ngx_http_upstream_check_init_shm_peer os
                               (case os of None \<Rightarrow> uc_default_down (p_conf p) | Some _ \<Rightarrow> 0))
                 in (case zone_slots search init slab 0 ps of
                       None \<Rightarrow> None
                     | Some None \<Rightarrow> Some (NGX_ERROR, None)
                     | Some (Some ss) \<Rightarrow>
                         Some (NGX_OK, Some \<lparr>ps_generation = generation, ps_checksum = checksum,
                                             ps_number = number, ps_peers = ss\<rparr>)))"

text \<open>Every worker runs this when it starts; \<open>None\<close>: there is no \<open>http\<close> section.\<close>

definition ngx_http_upstream_check_init_process ::
  "ngx_msec_t \<Rightarrow> (nat \<Rightarrow> bool) \<Rightarrow> (nat \<Rightarrow> ngx_uint_t) \<Rightarrow> ngx_upstream_check_main_conf_t option \<Rightarrow> check_proc
     \<Rightarrow> (ngx_rc \<times> check_proc) option" where
  "ngx_http_upstream_check_init_process now pool rnd ucmcf pr =
     (if ucmcf = None then Some (NGX_OK, pr) else ngx_http_upstream_check_add_timers now pool rnd pr)"

subsection \<open>The stream module\<close>

definition ngx_stream_upstream_check_create_main_conf ::
  "bool \<Rightarrow> bool \<Rightarrow> bool \<Rightarrow> ngx_upstream_check_main_conf_t option" where
  "ngx_stream_upstream_check_create_main_conf pcalloc1 pcalloc2 array_init =
     (if \<not> pcalloc1 then None
      else if \<not> pcalloc2 then None
      else if \<not> array_init then None
      else Some \<lparr>mc_check_shm_size = 0,
                 mc_peers = \<lparr>cp_check_shm_name = [], cp_checksum = 0, cp_peers = []\<rparr>\<rparr>)"

definition ngx_stream_upstream_check_addr_change_port ::
  "bool \<Rightarrow> bool \<Rightarrow> ngx_addr_t \<Rightarrow> ngx_uint_t \<Rightarrow> ngx_rc \<times> ngx_addr_t" where
  "ngx_stream_upstream_check_addr_change_port palloc pnalloc src port =
     (if \<not> palloc then (NGX_ERROR, no_addr)
      else
        let sa = a_sockaddr src
        in if sa_family sa = AF_INET then
             let sa = take 2 sa @ be16 (ucast port) @ drop 4 sa
             in if \<not> pnalloc then (NGX_ERROR, no_addr\<lparr>a_sockaddr := sa\<rparr>)
                else (NGX_OK, \<lparr>a_sockaddr = sa, a_name = ngx_sock_ntop sa 21 True\<rparr>)
           else if sa_family sa = AF_INET6 then
             let sa = take 2 sa @ be16 (ucast port) @ drop 4 sa
             in if \<not> pnalloc then (NGX_ERROR, no_addr\<lparr>a_sockaddr := sa\<rparr>)
                else (NGX_OK, \<lparr>a_sockaddr = sa, a_name = ngx_sock_ntop sa 51 True\<rparr>)
           else (NGX_ERROR, no_addr\<lparr>a_sockaddr := sa\<rparr>))"

definition ngx_stream_upstream_check_add_peer ::
  "add_allocs \<Rightarrow> nat \<Rightarrow> check_upstream \<Rightarrow> ngx_addr_t \<Rightarrow> ngx_upstream_check_peers_t
     \<Rightarrow> ngx_uint_t \<times> ngx_upstream_check_peers_t" where
  "ngx_stream_upstream_check_add_peer al u us addr ps =
     (case us_srv_conf us of
        None \<Rightarrow> (- 1, ps)
      | Some uc \<Rightarrow>
          if uc_check_interval uc = 0 then (- 1, ps)
          else if \<not> al_push al then (- 1, ps)
          else
            let index = length (cp_peers ps);
                p = new_peer index (us_host us) uc addr
            in if uc_port uc \<noteq> 0 then
                 (if \<not> al_pcalloc al then (- 1, push_peer u p ps)
                  else
                    (case ngx_stream_upstream_check_addr_change_port (al_palloc al) (al_pnalloc al) addr (uc_port uc) of
                       (rc, dst) \<Rightarrow>
                         let ps = push_peer u (p\<lparr>p_check_peer_addr := dst\<rparr>) ps
                         in if rc \<noteq> NGX_OK then (- 1, ps) else (of_nat index, count_peer addr ps)))
               else (of_nat index, count_peer addr (push_peer u (p\<lparr>p_check_peer_addr := addr\<rparr>) ps)))"

definition ngx_stream_upstream_check_get_shm_name :: "bool \<Rightarrow> ngx_uint_t \<Rightarrow> ngx_rc \<times> string" where
  "ngx_stream_upstream_check_get_shm_name palloc generation =
     (if \<not> palloc then (NGX_ERROR, [])
      else (NGX_OK, take 256 (''ngx_stream_upstream_check'' @ ''#'' @ ngx_sprintf_num (unat generation))))"

definition ngx_stream_upstream_check_init_shm ::
  "bool \<Rightarrow> (string \<Rightarrow> ngx_uint_t \<Rightarrow> bool) \<Rightarrow> ngx_uint_t \<Rightarrow> ngx_upstream_check_main_conf_t
     \<Rightarrow> (conf_rc \<times> ngx_uint_t \<times> ngx_upstream_check_peers_t) option" where
  "ngx_stream_upstream_check_init_shm palloc add generation mc =
     (let generation = generation + 1;
          name = snd (ngx_stream_upstream_check_get_shm_name palloc generation);
          shm_size = (if 1024 * 1024 < mc_check_shm_size mc then mc_check_shm_size mc else 1024 * 1024)
      in if \<not> add name shm_size then None
         else Some (NGX_CONF_OK, generation, (mc_peers mc)\<lparr>cp_check_shm_name := name\<rparr>))"

fun stream_init_upstreams :: "check_upstream list \<Rightarrow> check_upstream list option option" where
  "stream_init_upstreams [] = Some (Some [])"
| "stream_init_upstreams (us # uss) =
     (case ngx_stream_upstream_check_init_srv_conf (us_srv_conf us) of
        None \<Rightarrow> None
      | Some (rc, sc) \<Rightarrow>
          if rc \<noteq> NGX_CONF_OK then Some None
          else map_option (map_option (\<lambda>uss. us\<lparr>us_srv_conf := sc\<rparr> # uss)) (stream_init_upstreams uss))"

definition ngx_stream_upstream_check_init_main_conf ::
  "bool \<Rightarrow> (string \<Rightarrow> ngx_uint_t \<Rightarrow> bool) \<Rightarrow> ngx_uint_t \<Rightarrow> check_upstream list \<Rightarrow> ngx_upstream_check_main_conf_t
     \<Rightarrow> (conf_rc \<times> check_upstream list \<times> ngx_uint_t \<times> ngx_upstream_check_peers_t) option" where
  "ngx_stream_upstream_check_init_main_conf palloc add generation uss mc =
     (case stream_init_upstreams uss of
        None \<Rightarrow> None
      | Some None \<Rightarrow> Some (NGX_CONF_ERROR, uss, generation, mc_peers mc)
      | Some (Some uss) \<Rightarrow>
          map_option (\<lambda>(rc, g, ps). (rc, uss, g, ps)) (ngx_stream_upstream_check_init_shm palloc add generation mc))"

definition ngx_stream_upstream_check_init_shm_zone ::
  "bool \<Rightarrow> (nat \<Rightarrow> bool) \<Rightarrow> bool \<Rightarrow> nat \<Rightarrow> check_zone list \<Rightarrow> ngx_uint_t
     \<Rightarrow> (ngx_uint_t \<times> ngx_upstream_check_peer_t list) option \<Rightarrow> ngx_upstream_check_peers_shm_t option
     \<Rightarrow> (ngx_rc \<times> ngx_upstream_check_peers_shm_t option) option" where
  "ngx_stream_upstream_check_init_shm_zone slab0 slab palloc tag zones generation ctx data =
     (case ctx of
        None \<Rightarrow> Some (NGX_OK, None)
      | Some (checksum, ps) \<Rightarrow>
          if \<not> slab0 then Some (NGX_ERROR, None)
          else
            let number = length ps
            in if (case data of
                     Some od \<Rightarrow> ps_number od = number \<and> ps_checksum od = checksum
                   | None \<Rightarrow> False)
               then Some (NGX_OK, Some (keep_zone number (the data)))
               else
                 let osh = old_zone (\<lambda>g. snd (ngx_stream_upstream_check_get_shm_name palloc g)) tag zones generation data;
                     search = (\<lambda>p. case osh of
                                None \<Rightarrow> Some None
                              | Some sh \<Rightarrow> ngx_stream_upstream_check_find_shm_peer (take (ps_number sh) (ps_peers sh))
                                             (p_peer_addr p) (p_upstream_name p));
                     init = (\<lambda>p os. ngx_stream_upstream_check_init_shm_peer os
                               (case os of None \<Rightarrow> uc_default_down (p_conf p) | Some _ \<Rightarrow> 0) (p_upstream_name p))
                 in (case zone_slots search init slab 0 ps of
                       None \<Rightarrow> None
                     | Some None \<Rightarrow> Some (NGX_ERROR, None)
                     | Some (Some ss) \<Rightarrow>
                         Some (NGX_OK, Some \<lparr>ps_generation = generation, ps_checksum = checksum,
                                             ps_number = number, ps_peers = ss\<rparr>)))"

text \<open>Without a \<open>stream\<close> section the module forgets its peers.\<close>

definition ngx_stream_upstream_check_init_process ::
  "ngx_msec_t \<Rightarrow> (nat \<Rightarrow> bool) \<Rightarrow> (nat \<Rightarrow> ngx_uint_t) \<Rightarrow> ngx_upstream_check_main_conf_t option \<Rightarrow> check_proc
     \<Rightarrow> (ngx_rc \<times> check_proc) option" where
  "ngx_stream_upstream_check_init_process now pool rnd ucmcf pr =
     (if ucmcf = None then Some (NGX_OK, pr\<lparr>pr_peers := None\<rparr>)
      else ngx_stream_upstream_check_add_timers now pool rnd pr)"

subsection \<open>From the configuration to the workers\<close>

text \<open>The load balancers add the servers of the upstreams one by one: what the pool grants, the upstream
  and the address.\<close>

fun add_peers ::
  "(add_allocs \<times> nat \<times> ngx_addr_t) list \<Rightarrow> check_upstream list \<Rightarrow> ngx_upstream_check_peers_t
     \<Rightarrow> ngx_upstream_check_peers_t" where
  "add_peers [] uss ps = ps"
| "add_peers ((al, u, addr) # adds) uss ps =
     add_peers adds uss (snd (ngx_http_upstream_check_add_peer al u (uss ! u) addr ps))"

text \<open>A worker when it starts, with the peers and the zone the master has set up.\<close>

definition fork_worker ::
  "ngx_uint_t \<Rightarrow> ngx_upstream_check_peer_t list \<Rightarrow> ngx_upstream_check_peers_shm_t \<Rightarrow> check_proc" where
  "fork_worker generation ps sh =
     \<lparr>pr_peers = Some ps, pr_shm = Some sh, pr_has_cleared = False, pr_generation = generation\<rparr>"

text \<open>A peer nothing has happened to.\<close>

definition fresh_peer :: "ngx_upstream_check_peer_t \<Rightarrow> bool" where
  "fresh_peer p \<longleftrightarrow> p_state p = Check_Zero \<and> p_connection p = None \<and> p_check_data p = None
     \<and> p_check_timeout_ev p = None \<and> \<not> p_pool p"

definition peers_in :: "check_upstream list \<Rightarrow> ngx_upstream_check_peers_t \<Rightarrow> bool" where
  "peers_in uss ps \<longleftrightarrow>
     (\<forall>(u, p) \<in> set (cp_peers ps). u < length uss \<and> fresh_peer p
        \<and> (\<exists>uc. us_srv_conf (uss ! u) = Some uc \<and> uc_check_interval uc \<noteq> 0))"

lemma fresh_new_peer [simp]: "fresh_peer (new_peer n h uc a)" "fresh_peer ((new_peer n h uc a)\<lparr>p_check_peer_addr := d\<rparr>)"
  by (simp_all add: fresh_peer_def new_peer_def)

lemma peers_in_push:
  "peers_in uss ps \<Longrightarrow> u < length uss \<Longrightarrow> fresh_peer p \<Longrightarrow> us_srv_conf (uss ! u) = Some uc \<Longrightarrow>
     uc_check_interval uc \<noteq> 0 \<Longrightarrow> peers_in uss (push_peer u p ps)"
  by (auto simp: peers_in_def push_peer_def)

lemma peers_in_count [simp]: "peers_in uss (count_peer addr ps) = peers_in uss ps"
  by (simp add: peers_in_def count_peer_def)

lemma add_peer_in:
  assumes "peers_in uss ps" "u < length uss"
  shows "peers_in uss (snd (ngx_http_upstream_check_add_peer al u (uss ! u) addr ps))"
  using assms
  by (auto simp: ngx_http_upstream_check_add_peer_def Let_def intro!: peers_in_push split: option.splits prod.splits)

lemma add_peers_in:
  "peers_in uss ps \<Longrightarrow> \<forall>(al, u, addr) \<in> set adds. u < length uss \<Longrightarrow> peers_in uss (add_peers adds uss ps)"
  by (induction adds uss ps rule: add_peers.induct) (auto intro: add_peer_in)

text \<open>Completing a configuration keeps the interval and the row of the table.\<close>

definition startable :: "ngx_upstream_check_srv_conf_t \<Rightarrow> bool" where
  "startable uc \<longleftrightarrow> uc_check_interval uc \<noteq> 0 \<longrightarrow> type_in ngx_check_types uc"

lemma init_send_type:
  "init_send dr al junk cf uc = Some (rc, uc') \<Longrightarrow>
     uc_check_type_conf uc' = uc_check_type_conf uc \<and> uc_check_interval uc' = uc_check_interval uc"
  by (auto simp: init_send_def split: if_splits option.splits)

lemma init_srv_conf_startable:
  assumes "ngx_http_upstream_check_init_srv_conf dr al junk (Some uc) = Some (NGX_CONF_OK, sc)" "block_conf uc"
  shows "\<exists>uc'. sc = Some uc' \<and> startable uc' \<and> uc_check_interval uc' = uc_check_interval uc"
proof -
  have n: "uc_check_interval (init_numbers uc) = uc_check_interval uc"
    "uc_check_interval uc \<noteq> 0 \<Longrightarrow> type_in ngx_check_types (init_numbers uc)"
    using assms(2) init_numbers_checked [OF assms(2)]
    by (cases "uc_check_interval uc = 0"; simp add: init_numbers_def unset_uint_def checked_conf_def)+
  from assms(1) show ?thesis
    unfolding ngx_http_upstream_check_init_srv_conf_def Let_def option.case
    by (cases "uc_check_type_conf (init_numbers uc)")
      (use n in \<open>auto simp: startable_def type_in_def init_alive_def split: option.splits if_splits prod.splits
         dest: init_send_type\<close>)
qed

lemma init_upstreams_startable:
  assumes "init_upstreams dr alloc junk i uss = Some (Some uss')"
    and "\<forall>us \<in> set uss. \<forall>uc. us_srv_conf us = Some uc \<longrightarrow> block_conf uc"
  shows "list_all2 (\<lambda>us us'. rel_option (\<lambda>uc uc'. startable uc' \<and> uc_check_interval uc' = uc_check_interval uc)
     (us_srv_conf us) (us_srv_conf us')) uss uss'"
  using assms
proof (induction uss arbitrary: i uss')
  case (Cons us uss)
  from Cons.prems(1) obtain sc us2
    where i: "ngx_http_upstream_check_init_srv_conf dr (alloc i) junk (us_srv_conf us) = Some (NGX_CONF_OK, sc)"
      and r: "init_upstreams dr alloc junk (Suc i) uss = Some (Some us2)"
      and u: "uss' = us\<lparr>us_srv_conf := sc\<rparr> # us2"
    by (auto split: option.splits if_splits prod.splits)
  have "rel_option (\<lambda>uc uc'. startable uc' \<and> uc_check_interval uc' = uc_check_interval uc) (us_srv_conf us) sc"
  proof (cases "us_srv_conf us")
    case None
    with i show ?thesis by (simp add: ngx_http_upstream_check_init_srv_conf_def)
  next
    case (Some uc)
    with i init_srv_conf_startable [of dr "alloc i" junk uc sc] Cons.prems(2) show ?thesis by auto
  qed
  with Cons.IH [OF r] Cons.prems(2) u show ?case by simp
qed simp

text \<open>The start of a worker: peers with a configuration that names a row of the table come in order.\<close>

lemma add_timers_loop_ok:
  assumes "add_timers_loop now pool rnd i ps = Some (NGX_OK, ps')"
    and "\<forall>p \<in> set ps. fresh_peer p \<and> type_in ngx_check_types (p_conf p)"
  shows "length ps' = length ps \<and> (\<forall>p \<in> set ps'. peer_inv p)"
  using assms
proof (induction ps arbitrary: i ps')
  case (Cons p ps)
  from Cons.prems(2) obtain cf where cf: "uc_check_type_conf (p_conf p) = Ptr cf" "wf_check_type cf" "fresh_peer p"
    using wf_check_types by (auto simp: type_in_def)
  from Cons.prems(1) obtain q ps2 where q: "add_timers_peer now (pool i) (rnd i) p = Some (Inr q)"
    and r: "add_timers_loop now pool rnd (Suc i) ps = Some (NGX_OK, ps2)" and "ps' = q # ps2"
    by (auto split: option.splits sum.splits)
  moreover have "peer_inv q"
    using q cf by (auto simp: add_timers_peer_def Let_def peer_inv_def peer_conf_ok_def conn_ok_def in_check_def
        fresh_peer_def split: if_splits)
  ultimately show ?case using Cons.IH [OF r] Cons.prems(2) by auto
qed simp

text \<open>The slots of a new zone, for any search and initialisation that keeps owner and address.\<close>

lemma zone_slots_eq:
  assumes "zone_slots search init slab i ps = Some (Some ss)"
  shows "list_all2 (\<lambda>p s. \<exists>os. search p = Some os \<and> s = init p os (new_slot (p_peer_addr p))) ps ss"
  using assms
  by (induction ps arbitrary: i ss) (auto split: if_splits option.splits)

lemma init_shm_peer_keeps [simp]:
  "sh_owner (ngx_http_upstream_check_init_shm_peer os d s) = sh_owner s"
  "sh_sockaddr (ngx_http_upstream_check_init_shm_peer os d s) = sh_sockaddr s"
  "sh_socklen (ngx_http_upstream_check_init_shm_peer os d s) = sh_socklen s"
  by (simp_all add: ngx_http_upstream_check_init_shm_peer_def split: option.splits)

text \<open>Where the status of a slot comes from.\<close>

definition inherits ::
  "ngx_upstream_check_peer_shm_t option \<Rightarrow> ngx_upstream_check_peer_t \<Rightarrow> ngx_upstream_check_peer_shm_t \<Rightarrow> bool" where
  "inherits os p s \<longleftrightarrow>
     (case os of
        None \<Rightarrow> sh_down s = uc_default_down (p_conf p) \<and> sh_rise_count s = 0 \<and> sh_fall_count s = 0 \<and> sh_access_time s = 0
      | Some o' \<Rightarrow> sh_down s = sh_down o' \<and> sh_rise_count s = sh_rise_count o' \<and> sh_fall_count s = sh_fall_count o'
          \<and> sh_access_time s = sh_access_time o')"

definition slot_for :: "ngx_upstream_check_peer_t \<Rightarrow> ngx_upstream_check_peer_shm_t \<Rightarrow> bool" where
  "slot_for p s \<longleftrightarrow> sh_owner s = NGX_INVALID_PID \<and> sh_sockaddr s = Some (a_sockaddr (p_peer_addr p))
     \<and> sh_socklen s = length (a_sockaddr (p_peer_addr p))"

lemma new_slot_for:
  "slot_for p (ngx_http_upstream_check_init_shm_peer os d (new_slot (p_peer_addr p)))"
  "inherits os p (ngx_http_upstream_check_init_shm_peer os
      (case os of None \<Rightarrow> uc_default_down (p_conf p) | Some _ \<Rightarrow> 0) (new_slot (p_peer_addr p)))"
  by (auto simp: slot_for_def new_slot_def inherits_def ngx_http_upstream_check_init_shm_peer_def split: option.splits)

definition shm_wf :: "ngx_upstream_check_peers_shm_t \<Rightarrow> bool" where
  "shm_wf sh \<longleftrightarrow> length (ps_peers sh) = ps_number sh"

lemma init_shm_zone_new:
  assumes "ngx_http_upstream_check_init_shm_zone slab0 slab palloc tag zones generation (Some (checksum, ps)) None
      = Some (NGX_OK, r)"
  defines "osh \<equiv> old_zone (\<lambda>g. snd (ngx_http_upstream_check_get_shm_name palloc g)) tag zones generation None"
  shows "\<exists>sh. r = Some sh \<and> shm_wf sh \<and> ps_number sh = length ps \<and> ps_generation sh = generation
    \<and> list_all2 (\<lambda>p s. slot_for p s
         \<and> (\<exists>os. (case osh of None \<Rightarrow> Some None
               | Some o' \<Rightarrow> ngx_http_upstream_check_find_shm_peer (take (ps_number o') (ps_peers o')) (p_peer_addr p)) = Some os
             \<and> inherits os p s)) ps (ps_peers sh)"
proof -
  let ?find = "\<lambda>p. case osh of None \<Rightarrow> Some None
     | Some o' \<Rightarrow> ngx_http_upstream_check_find_shm_peer (take (ps_number o') (ps_peers o')) (p_peer_addr p)"
  let ?init = "\<lambda>p os. ngx_http_upstream_check_init_shm_peer os
     (case os of None \<Rightarrow> uc_default_down (p_conf p) | Some _ \<Rightarrow> 0)"
  from assms(1) obtain ss where ss: "zone_slots ?find ?init slab 0 ps = Some (Some ss)"
    and r: "r = Some \<lparr>ps_generation = generation, ps_checksum = checksum, ps_number = length ps, ps_peers = ss\<rparr>"
    by (auto simp: ngx_http_upstream_check_init_shm_zone_def osh_def split: if_splits option.splits)
  note l = zone_slots_eq [OF ss]
  moreover have "list_all2 (\<lambda>p s. slot_for p s \<and> (\<exists>os. ?find p = Some os \<and> inherits os p s)) ps ss"
    by (rule list_all2_mono [OF l]) (use new_slot_for in blast)
  ultimately show ?thesis by (auto simp: r shm_wf_def dest: list_all2_lengthD)
qed

text \<open>The whole zone, whether new or taken over: every peer has a slot nobody owns.\<close>

lemma init_shm_zone_slots:
  assumes "ngx_http_upstream_check_init_shm_zone slab0 slab palloc tag zones generation (Some (checksum, ps)) data
      = Some (NGX_OK, r)"
    and "\<forall>od. data = Some od \<longrightarrow> shm_wf od"
  shows "\<exists>sh. r = Some sh \<and> length (ps_peers sh) = length ps
    \<and> (\<forall>s \<in> set (ps_peers sh). sh_owner s = NGX_INVALID_PID)"
proof (cases "case data of Some od \<Rightarrow> ps_number od = length ps \<and> ps_checksum od = checksum | None \<Rightarrow> False")
  case True
  then show ?thesis
    using assms by (auto simp: ngx_http_upstream_check_init_shm_zone_def keep_zone_def shm_wf_def split: option.splits if_splits)
next
  case False
  with assms(1) obtain search init ss where ss: "zone_slots search (\<lambda>p os. ngx_http_upstream_check_init_shm_peer os (init p os)) slab 0 ps
      = Some (Some ss)"
    and r: "r = Some \<lparr>ps_generation = generation, ps_checksum = checksum, ps_number = length ps, ps_peers = ss\<rparr>"
    by (auto simp: ngx_http_upstream_check_init_shm_zone_def Let_def split: if_splits option.splits)
  have "list_all (\<lambda>s. sh_owner s = NGX_INVALID_PID) ss \<and> length ss = length ps"
    using zone_slots_eq [OF ss] by (induction rule: list_all2_induct) (auto simp: new_slot_def)
  then show ?thesis by (simp add: r list_all_iff)
qed

lemma worker_starts:
  assumes "ngx_http_upstream_check_init_process now pool rnd (Some mc) (fork_worker generation ps sh) = Some (NGX_OK, pr)"
    and "\<forall>p \<in> set ps. fresh_peer p \<and> type_in ngx_check_types (p_conf p)"
    and "length (ps_peers sh) = length ps" "\<forall>s \<in> set (ps_peers sh). sh_owner s = NGX_INVALID_PID"
    and "pid \<noteq> NGX_INVALID_PID"
  shows "proc_inv (pr\<lparr>pr_shm := Some sh\<rparr>) \<and> own_inv pid (pr\<lparr>pr_shm := Some sh\<rparr>)"
proof -
  from assms(1) obtain ps' where l: "add_timers_loop now pool rnd 0 ps = Some (NGX_OK, ps')"
    and pr: "pr = (fork_worker generation ps sh)\<lparr>pr_peers := Some ps'\<rparr>"
    by (auto simp: ngx_http_upstream_check_init_process_def ngx_http_upstream_check_add_timers_def fork_worker_def)
  from add_timers_loop_ok [OF l assms(2)] assms(3-5) show ?thesis
    by (auto simp: pr proc_inv_def own_inv_def own_ok_def fork_worker_def elim!: peer_slot_at_SomeD)
qed

lemma bind_confs_startable:
  assumes "peers_in uss ps"
    and "list_all2 (\<lambda>us us'. rel_option (\<lambda>uc uc'. startable uc' \<and> uc_check_interval uc' = uc_check_interval uc)
           (us_srv_conf us) (us_srv_conf us')) uss uss'"
  shows "\<forall>p \<in> set (bind_confs uss' ps). fresh_peer p \<and> type_in ngx_check_types (p_conf p)"
proof
  fix q assume "q \<in> set (bind_confs uss' ps)"
  then obtain u p where up: "(u, p) \<in> set (cp_peers ps)"
    and q: "q = (case us_srv_conf (uss' ! u) of None \<Rightarrow> p | Some uc \<Rightarrow> p\<lparr>p_conf := uc\<rparr>)"
    by (auto simp: bind_confs_def)
  from assms(1) up obtain uc where u: "u < length uss" "fresh_peer p" "us_srv_conf (uss ! u) = Some uc"
    "uc_check_interval uc \<noteq> 0" by (auto simp: peers_in_def)
  from list_all2_nthD [OF assms(2) u(1)] u(3) obtain uc' where "us_srv_conf (uss' ! u) = Some uc'" "startable uc'"
    "uc_check_interval uc' = uc_check_interval uc" by (auto simp: option_rel_Some1)
  with u(2,4) show "fresh_peer q \<and> type_in ngx_check_types (p_conf q)"
    by (simp add: q startable_def fresh_peer_def)
qed

text \<open>The searches against the list function: in a zone whose slots have addresses (and names) they find the
  first slot that fits.\<close>

definition addressed :: "ngx_upstream_check_peer_shm_t \<Rightarrow> bool" where
  "addressed s \<longleftrightarrow> (\<exists>sa. sh_sockaddr s = Some sa \<and> sh_socklen s = length sa)"

lemma http_find_eq:
  "\<forall>s \<in> set ss. addressed s \<Longrightarrow>
     ngx_http_upstream_check_find_shm_peer ss addr = Some (List.find (\<lambda>s. sh_sockaddr s = Some (a_sockaddr addr)) ss)"
  by (induction ss) (auto simp: addressed_def)

lemma stream_find_eq:
  "\<forall>s \<in> set ss. addressed s \<and> sh_upstream_name s \<noteq> None \<Longrightarrow>
     ngx_stream_upstream_check_find_shm_peer ss addr name =
       Some (List.find (\<lambda>s. sh_sockaddr s = Some (a_sockaddr addr) \<and> sh_upstream_name s = Some name) ss)"
  by (induction ss) (auto simp: addressed_def)

lemma old_zone_found:
  "generation > 1 \<Longrightarrow> ngx_shared_memory_find zones (shm_name (generation - 1)) tag = Some z \<Longrightarrow>
     old_zone shm_name tag zones generation data = z_data z"
  by (simp add: old_zone_def)

lemma stream_init_shm_zone_new:
  assumes "ngx_stream_upstream_check_init_shm_zone slab0 slab palloc tag zones generation (Some (checksum, ps)) None
      = Some (NGX_OK, r)"
  defines "osh \<equiv> old_zone (\<lambda>g. snd (ngx_stream_upstream_check_get_shm_name palloc g)) tag zones generation None"
  shows "\<exists>sh. r = Some sh \<and> shm_wf sh \<and> ps_number sh = length ps \<and> ps_generation sh = generation
    \<and> list_all2 (\<lambda>p s. slot_for p s \<and> sh_upstream_name s = Some (p_upstream_name p)
         \<and> (\<exists>os. (case osh of None \<Rightarrow> Some None
               | Some o' \<Rightarrow> ngx_stream_upstream_check_find_shm_peer (take (ps_number o') (ps_peers o')) (p_peer_addr p) (p_upstream_name p)) = Some os
             \<and> inherits os p s)) ps (ps_peers sh)"
proof -
  let ?find = "\<lambda>p. case osh of None \<Rightarrow> Some None
     | Some o' \<Rightarrow> ngx_stream_upstream_check_find_shm_peer (take (ps_number o') (ps_peers o')) (p_peer_addr p) (p_upstream_name p)"
  let ?init = "\<lambda>p os. ngx_stream_upstream_check_init_shm_peer os
     (case os of None \<Rightarrow> uc_default_down (p_conf p) | Some _ \<Rightarrow> 0) (p_upstream_name p)"
  from assms(1) obtain ss where ss: "zone_slots ?find ?init slab 0 ps = Some (Some ss)"
    and r: "r = Some \<lparr>ps_generation = generation, ps_checksum = checksum, ps_number = length ps, ps_peers = ss\<rparr>"
    by (auto simp: ngx_stream_upstream_check_init_shm_zone_def osh_def split: if_splits option.splits)
  note l = zone_slots_eq [OF ss]
  have u: "slot_for p (s\<lparr>sh_upstream_name := n\<rparr>) = slot_for p s" "inherits os p (s\<lparr>sh_upstream_name := n\<rparr>) = inherits os p s"
    for p os s n by (simp_all add: slot_for_def inherits_def split: option.splits)
  have "list_all2 (\<lambda>p s. slot_for p s \<and> sh_upstream_name s = Some (p_upstream_name p) \<and> (\<exists>os. ?find p = Some os \<and> inherits os p s)) ps ss"
    by (rule list_all2_mono [OF l]) (auto simp: ngx_stream_upstream_check_init_shm_peer_def u new_slot_for)
  then show ?thesis by (auto simp: r shm_wf_def dest: list_all2_lengthD)
qed

subsection \<open>Properties\<close>

text \<open>C5: A configuration that was accepted starts workers in order. Upstreams configured by accepted
  directives, servers added in any order, \<open>init_main_conf\<close> and \<open>init_shm_zone\<close> successful, with or
  without zones of the configuration before: when \<open>init_process\<close> succeeds in workers with distinct process
  ids, the peers of every worker satisfy the invariant of the engine, every peer has its slot and nobody owns
  one, so the theorems on the workers apply from this start.\<close>

theorem configured_workers_ok:
  assumes "\<forall>us \<in> set uss. \<forall>uc. us_srv_conf us = Some uc
      \<longrightarrow> (\<exists>compiles ds. http_block compiles ds unset_srv_conf = Some uc)"
    and "\<forall>(al, u, addr) \<in> set adds. u < length uss"
    and "ngx_http_upstream_check_create_main_conf True True True = Some mc0"
    and "mc = mc0\<lparr>mc_peers := add_peers adds uss (mc_peers mc0)\<rparr>"
    and "ngx_http_upstream_check_init_main_conf True alloc junk palloc add g uss mc
      = Some (NGX_CONF_OK, uss', generation, ps)"
    and "\<forall>od. data = Some od \<longrightarrow> shm_wf od"
    and "ngx_http_upstream_check_init_shm_zone slab0 slab palloc' tag zones generation
      (Some (cp_checksum ps, bind_confs uss' ps)) data = Some (NGX_OK, r)"
    and "list_all2 (\<lambda>pid pr. \<exists>now pool rnd. ngx_http_upstream_check_init_process now pool rnd (Some mc)
      (fork_worker generation (bind_confs uss' ps) (the r)) = Some (NGX_OK, pr)) pids prs"
    and "distinct pids" "NGX_INVALID_PID \<notin> set pids"
  shows "cluster_ok \<lparr>cl_workers = zip pids prs, cl_shm = the r\<rparr>
    \<and> length (ps_peers (the r)) = length (cp_peers ps)
    \<and> (\<forall>s \<in> set (ps_peers (the r)). sh_owner s = NGX_INVALID_PID)"
proof -
  have "peers_in uss (mc_peers mc0)"
    using assms(3) by (auto simp: ngx_http_upstream_check_create_main_conf_def peers_in_def)
  from add_peers_in [OF this assms(2)] have "peers_in uss (mc_peers mc)" by (simp add: assms(4))
  moreover from assms(5) have "cp_peers ps = cp_peers (mc_peers mc)"
    by (auto simp: ngx_http_upstream_check_init_main_conf_def ngx_http_upstream_check_init_shm_def Let_def
        split: option.splits if_splits)
  ultimately have pin: "peers_in uss ps" by (simp add: peers_in_def)
  from assms(5) obtain dr where iu: "init_upstreams dr alloc junk 0 uss = Some (Some uss')"
    by (auto simp: ngx_http_upstream_check_init_main_conf_def split: option.splits if_splits)
  have "\<forall>us \<in> set uss. \<forall>uc. us_srv_conf us = Some uc \<longrightarrow> block_conf uc"
    using assms(1) http_block_ok unset_block_conf(1) by blast
  note fresh = bind_confs_startable [OF pin init_upstreams_startable [OF iu this]]
  from init_shm_zone_slots [OF assms(7,6)] obtain sh where sh: "r = Some sh"
    "length (ps_peers sh) = length (bind_confs uss' ps)" "\<forall>s \<in> set (ps_peers sh). sh_owner s = NGX_INVALID_PID" by blast
  have start: "proc_inv ((prs ! w)\<lparr>pr_shm := Some sh\<rparr>) \<and> own_inv (pids ! w) ((prs ! w)\<lparr>pr_shm := Some sh\<rparr>)"
    if "w < length pids" for w
  proof -
    from nth_mem [OF that] assms(10) have "pids ! w \<noteq> NGX_INVALID_PID" by auto
    with list_all2_nthD [OF assms(8) that] worker_starts [OF _ fresh sh(2,3)] show ?thesis
      unfolding sh(1) option.sel by blast
  qed
  have len: "length pids = length prs" using assms(8) by (rule list_all2_lengthD)
  then have "cluster_ok \<lparr>cl_workers = zip pids prs, cl_shm = sh\<rparr>"
    using assms(9,10) start by (simp add: cluster_ok_def worker_view_def)
  with sh show ?thesis by (simp add: bind_confs_def)
qed

text \<open>An upstream with one server, checked by mysql greetings, and two workers.\<close>

definition sample_allocs :: add_allocs where
  "sample_allocs = \<lparr>al_push = True, al_pcalloc = True, al_palloc = True, al_pnalloc = True\<rparr>"

definition sample_server :: ngx_addr_t where
  "sample_server = \<lparr>a_sockaddr = sockaddr_in 3306 [CHR 0x0A, NUL, NUL, CHR 0x01], a_name = ''10.0.0.1:3306''\<rparr>"

definition sample_block :: "directive list" where
  "sample_block = [D_Check [''check'', ''rise=3'', ''type=mysql'']]"

definition sample_uc :: ngx_upstream_check_srv_conf_t where
  "sample_uc = the (http_block (\<lambda>_. True) sample_block unset_srv_conf)"

lemma sample_uc_block:
  "http_block (\<lambda>_. True) sample_block unset_srv_conf = Some sample_uc" "uc_port sample_uc = 0"
  "uc_fastcgi_params sample_uc = []"
proof -
  have "case http_block (\<lambda>_. True) sample_block unset_srv_conf of
      None \<Rightarrow> False | Some uc \<Rightarrow> uc_port uc = 0 \<and> uc_fastcgi_params uc = []"
    by code_simp
  from case_Some_the [OF this]
  show "http_block (\<lambda>_. True) sample_block unset_srv_conf = Some sample_uc" "uc_port sample_uc = 0"
    "uc_fastcgi_params sample_uc = []"
    by (simp_all add: sample_uc_def)
qed

lemma sample_uc_interval: "uc_check_interval sample_uc \<noteq> 0" "block_conf sample_uc"
  using http_block_ok [OF sample_uc_block(1) unset_block_conf(1)] unset_block_conf(2) by (auto simp: sample_block_def)

lemma configured_workers_ok_witness:
  "\<exists>cl. cluster_ok cl \<and> length (cl_workers cl) = 2 \<and> length (ps_peers (cl_shm cl)) = 1"
proof -
  let ?uss = "[\<lparr>us_host = ''db'', us_srv_conf = Some sample_uc\<rparr>]"
  let ?adds = "[(sample_allocs, 0 :: nat, sample_server)]"
  obtain mc0 where mc0: "ngx_http_upstream_check_create_main_conf True True True = Some mc0" "cp_peers (mc_peers mc0) = []"
    by (simp add: ngx_http_upstream_check_create_main_conf_def)
  define mc where "mc = mc0\<lparr>mc_peers := add_peers ?adds ?uss (mc_peers mc0)\<rparr>"
  define p where "p = (new_peer 0 ''db'' sample_uc sample_server)\<lparr>p_check_peer_addr := sample_server\<rparr>"
  have mp: "cp_peers (mc_peers mc) = [(0, p)]"
    using sample_uc_interval(1)
    by (simp add: mc_def mc0(2) p_def ngx_http_upstream_check_add_peer_def sample_uc_block(2) sample_allocs_def Let_def
        count_peer_def push_peer_def)
  obtain dr where dr: "ngx_http_upstream_check_create_fastcgi_request [] (param_pairs fastcgi_default_params) = Some dr" "dr \<noteq> []"
    using fastcgi_request_fits [of "param_pairs fastcgi_default_params" "[]"] by (auto simp: fastcgi_default_params_def)
  obtain uc where uc: "ngx_http_upstream_check_init_srv_conf dr True [] (Some sample_uc) = Some (NGX_CONF_OK, Some uc)" "complete_conf uc"
    using init_srv_conf_complete [OF sample_uc_interval(2,1) dr(2), of "[]"] by (auto simp: sample_uc_block(3))
  let ?uss' = "[\<lparr>us_host = ''db'', us_srv_conf = Some uc\<rparr>]"
  obtain ps where im: "ngx_http_upstream_check_init_main_conf True (\<lambda>_. True) [] True (\<lambda>_ _. True) 0 ?uss mc
      = Some (NGX_CONF_OK, ?uss', 1, ps)" and ps: "cp_peers ps = [(0, p)]"
    using mp by (simp add: ngx_http_upstream_check_init_main_conf_def dr(1) uc(1) ngx_http_upstream_check_init_shm_def Let_def)
  have b: "bind_confs ?uss' ps = [p\<lparr>p_conf := uc\<rparr>]" by (simp add: bind_confs_def ps)
  obtain sh where z: "ngx_http_upstream_check_init_shm_zone True (\<lambda>_. True) True 0 [] 1
      (Some (cp_checksum ps, bind_confs ?uss' ps)) None = Some (NGX_OK, Some sh)"
    by (simp add: ngx_http_upstream_check_init_shm_zone_def b old_zone_def)
  obtain cf where "uc_check_type_conf uc = Ptr cf" using uc(2) by (auto simp: complete_conf_def checked_conf_def type_in_def)
  then obtain pr where pr: "ngx_http_upstream_check_init_process 0 (\<lambda>_. True) (\<lambda>_. 7) (Some mc)
      (fork_worker 1 (bind_confs ?uss' ps) sh) = Some (NGX_OK, pr)"
    by (simp add: b ngx_http_upstream_check_init_process_def ngx_http_upstream_check_add_timers_def fork_worker_def
        add_timers_peer_def Let_def)
  have "\<exists>compiles ds. http_block compiles ds unset_srv_conf = Some sample_uc" using sample_uc_block(1) by blast
  then have "cluster_ok \<lparr>cl_workers = zip [7, 8] [pr, pr], cl_shm = the (Some sh)\<rparr> \<and> length (ps_peers (the (Some sh))) = length (cp_peers ps)"
    using configured_workers_ok [of ?uss ?adds mc0 mc "\<lambda>_. True" "[]" True "\<lambda>_ _. True" 0 ?uss' 1 ps None True "\<lambda>_. True" True 0 "[]" "Some sh" "[7, 8]" "[pr, pr]"]
      mc0(1) mc_def im z pr by auto
  then show ?thesis by (intro exI [of _ "\<lparr>cl_workers = zip [7, 8] [pr, pr], cl_shm = sh\<rparr>"]) (simp add: ps)
qed

text \<open>C39: A reload keeps what is known of a server. When the zone of the generation before is found, the
  slot of a peer of the http module starts unowned with the peer's address, and with the verdict and the
  counts of the first old slot of the same address, whatever upstream that slot belonged to; without
  one it starts with \<open>default_down\<close> and no counts.\<close>

theorem reload_keeps_status:
  assumes "ngx_http_upstream_check_init_shm_zone slab0 slab palloc tag zones generation (Some (checksum, ps)) None
      = Some (NGX_OK, r)"
    and "generation > 1"
    and "ngx_shared_memory_find zones (snd (ngx_http_upstream_check_get_shm_name palloc (generation - 1))) tag = Some z"
    and "z_data z = Some osh" "shm_wf osh" "\<forall>s \<in> set (ps_peers osh). addressed s"
  shows "\<exists>sh. r = Some sh \<and> ps_number sh = length ps
    \<and> list_all2 (\<lambda>p s. slot_for p s
        \<and> inherits (List.find (\<lambda>o'. sh_sockaddr o' = Some (a_sockaddr (p_peer_addr p))) (ps_peers osh)) p s) ps (ps_peers sh)"
proof -
  have o: "old_zone (\<lambda>g. snd (ngx_http_upstream_check_get_shm_name palloc g)) tag zones generation None = Some osh"
    using old_zone_found [OF assms(2), of zones "\<lambda>g. snd (ngx_http_upstream_check_get_shm_name palloc g)" tag z None]
      assms(3,4) by simp
  from init_shm_zone_new [OF assms(1)] assms(5) http_find_eq [OF assms(6)] show ?thesis
    unfolding o by (simp add: shm_wf_def) blast
qed

definition sample_old_zone :: check_zone where
  "sample_old_zone =
     \<lparr>z_name = ''ngx_http_upstream_check#1'', z_tag = 0,
      z_data = Some \<lparr>ps_generation = 1, ps_checksum = 5, ps_number = 1,
                     ps_peers = [(new_slot sample_server)\<lparr>sh_down := 1, sh_fall_count := 4\<rparr>]\<rparr>\<rparr>"

lemma sample_old_zone_name:
  "snd (ngx_http_upstream_check_get_shm_name True (2 - 1)) = z_name sample_old_zone"
  by code_simp

lemma reload_keeps_status_witness:
  "\<exists>sh. ngx_http_upstream_check_init_shm_zone True (\<lambda>_. True) True 0 [sample_old_zone] 2
       (Some (6, [new_peer 0 ''db'' unset_srv_conf sample_server])) None = Some (NGX_OK, Some sh)
     \<and> map (\<lambda>s. (sh_down s, sh_fall_count s)) (ps_peers sh) = [(1, 4)]"
proof -
  have f: "ngx_shared_memory_find [sample_old_zone] (snd (ngx_http_upstream_check_get_shm_name True (2 - 1))) 0 = Some sample_old_zone"
    unfolding sample_old_zone_name by (simp add: sample_old_zone_def ngx_strncmp_same_length)
  have a: "addressed ((new_slot sample_server)\<lparr>sh_down := 1, sh_fall_count := 4\<rparr>)"
    by (simp add: addressed_def new_slot_def)
  obtain r where r: "ngx_http_upstream_check_init_shm_zone True (\<lambda>_. True) True 0 [sample_old_zone] 2
       (Some (6, [new_peer 0 ''db'' unset_srv_conf sample_server])) None = Some (NGX_OK, Some r)"
    using f by (simp add: ngx_http_upstream_check_init_shm_zone_def old_zone_def sample_old_zone_def new_peer_def new_slot_def)
  from reload_keeps_status [OF r _ f, of "the (z_data sample_old_zone)"] a r show ?thesis
    by (auto simp: sample_old_zone_def shm_wf_def new_peer_def inherits_def new_slot_def list_all2_Cons1)
qed

text \<open>The stream module inherits from the slot of the same address and the same upstream.\<close>

theorem stream_reload_keeps_status:
  assumes "ngx_stream_upstream_check_init_shm_zone slab0 slab palloc tag zones generation (Some (checksum, ps)) None
      = Some (NGX_OK, r)"
    and "generation > 1"
    and "ngx_shared_memory_find zones (snd (ngx_stream_upstream_check_get_shm_name palloc (generation - 1))) tag = Some z"
    and "z_data z = Some osh" "shm_wf osh" "\<forall>s \<in> set (ps_peers osh). addressed s \<and> sh_upstream_name s \<noteq> None"
  shows "\<exists>sh. r = Some sh \<and> ps_number sh = length ps
    \<and> list_all2 (\<lambda>p s. slot_for p s \<and> sh_upstream_name s = Some (p_upstream_name p)
        \<and> inherits (List.find (\<lambda>o'. sh_sockaddr o' = Some (a_sockaddr (p_peer_addr p))
              \<and> sh_upstream_name o' = Some (p_upstream_name p)) (ps_peers osh)) p s) ps (ps_peers sh)"
proof -
  have o: "old_zone (\<lambda>g. snd (ngx_stream_upstream_check_get_shm_name palloc g)) tag zones generation None = Some osh"
    using old_zone_found [OF assms(2), of zones "\<lambda>g. snd (ngx_stream_upstream_check_get_shm_name palloc g)" tag z None]
      assms(3,4) by simp
  from stream_init_shm_zone_new [OF assms(1)] assms(5) stream_find_eq [OF assms(6)] show ?thesis
    unfolding o by (simp add: shm_wf_def) blast
qed

definition sample_stream_zone :: check_zone where
  "sample_stream_zone =
     \<lparr>z_name = ''ngx_stream_upstream_check#1'', z_tag = 0,
      z_data = Some \<lparr>ps_generation = 1, ps_checksum = 5, ps_number = 2,
                     ps_peers = [(new_slot sample_server)\<lparr>sh_down := 1, sh_upstream_name := Some ''a''\<rparr>,
                                 (new_slot sample_server)\<lparr>sh_rise_count := 3, sh_upstream_name := Some ''db''\<rparr>]\<rparr>\<rparr>"

lemma sample_stream_zone_name:
  "snd (ngx_stream_upstream_check_get_shm_name True (2 - 1)) = z_name sample_stream_zone"
  by code_simp

lemma stream_reload_keeps_status_witness:
  "\<exists>sh. ngx_stream_upstream_check_init_shm_zone True (\<lambda>_. True) True 0 [sample_stream_zone] 2
       (Some (6, [new_peer 0 ''db'' unset_srv_conf sample_server])) None = Some (NGX_OK, Some sh)
     \<and> map (\<lambda>s. (sh_down s, sh_rise_count s)) (ps_peers sh) = [(0, 3)]"
proof -
  have f: "ngx_shared_memory_find [sample_stream_zone] (snd (ngx_stream_upstream_check_get_shm_name True (2 - 1))) 0 = Some sample_stream_zone"
    unfolding sample_stream_zone_name by (simp add: sample_stream_zone_def ngx_strncmp_same_length)
  have a: "addressed ((new_slot sample_server)\<lparr>sh_down := 1, sh_upstream_name := Some ''a''\<rparr>)"
    "addressed ((new_slot sample_server)\<lparr>sh_rise_count := 3, sh_upstream_name := Some ''db''\<rparr>)"
    by (simp_all add: addressed_def new_slot_def)
  obtain r where r: "ngx_stream_upstream_check_init_shm_zone True (\<lambda>_. True) True 0 [sample_stream_zone] 2
       (Some (6, [new_peer 0 ''db'' unset_srv_conf sample_server])) None = Some (NGX_OK, Some r)"
    using f by (simp add: ngx_stream_upstream_check_init_shm_zone_def old_zone_def sample_stream_zone_def new_peer_def new_slot_def)
  from stream_reload_keeps_status [OF r _ f, of "the (z_data sample_stream_zone)"] a r show ?thesis
    by (auto simp: sample_stream_zone_def shm_wf_def new_peer_def inherits_def new_slot_def list_all2_Cons1)
qed

text \<open>A server that is neither IPv4 nor IPv6 (a unix socket) in an upstream with \<open>port=\<close>: \<open>add_peer\<close>
  reports failure, so the load balancer takes the server for one that is not checked, but the peer stays in the
  list, without an address name, and the workers check it; the checksum that tells configurations apart does
  not count it.\<close>

theorem add_peer_leaves_orphan:
  assumes "us_srv_conf us = Some uc" "uc_check_interval uc \<noteq> 0" "uc_port uc \<noteq> 0" "al_push al"
    and "sa_family (a_sockaddr addr) \<notin> {AF_INET, AF_INET6}"
  shows "\<exists>p. ngx_http_upstream_check_add_peer al u us addr ps = (- 1, ps\<lparr>cp_peers := cp_peers ps @ [(u, p)]\<rparr>)
    \<and> p_peer_addr p = addr \<and> p_conf p = uc \<and> a_name (p_check_peer_addr p) = []"
proof -
  have "\<exists>d. ngx_http_upstream_check_addr_change_port x y addr port = (NGX_ERROR, d) \<and> a_name d = []" for x y port
    using assms(5) by (simp add: ngx_http_upstream_check_addr_change_port_def Let_def no_addr_def)
  then obtain d where "ngx_http_upstream_check_addr_change_port (al_palloc al) (al_pnalloc al) addr (uc_port uc) = (NGX_ERROR, d)"
    "a_name d = []" by blast
  then show ?thesis
    using assms(1-4)
    by (intro exI [of _ "(new_peer (length (cp_peers ps)) (us_host us) uc addr)
          \<lparr>p_check_peer_addr := (if al_pcalloc al then d else no_addr)\<rparr>"])
      (simp add: ngx_http_upstream_check_add_peer_def Let_def push_peer_def new_peer_def no_addr_def)
qed

lemma add_peer_leaves_orphan_witness:
  "\<exists>p. ngx_http_upstream_check_add_peer sample_allocs 0
       \<lparr>us_host = ''db'', us_srv_conf = Some (unset_srv_conf\<lparr>uc_check_interval := 1000, uc_port := 80\<rparr>)\<rparr>
       \<lparr>a_sockaddr = AF_UNIX @ ''/tmp/db'', a_name = ''unix:/tmp/db''\<rparr> \<lparr>cp_check_shm_name = [], cp_checksum = 0, cp_peers = []\<rparr>
     = (- 1, \<lparr>cp_check_shm_name = [], cp_checksum = 0, cp_peers = [(0, p)]\<rparr>)"
proof -
  let ?us = "\<lparr>us_host = ''db'', us_srv_conf = Some (unset_srv_conf\<lparr>uc_check_interval := 1000, uc_port := 80\<rparr>)\<rparr>"
  let ?addr = "\<lparr>a_sockaddr = AF_UNIX @ ''/tmp/db'', a_name = ''unix:/tmp/db''\<rparr>"
  have "sa_family (a_sockaddr ?addr) \<notin> {AF_INET, AF_INET6}"
    by (simp add: sa_family_def AF_UNIX_def AF_INET_def AF_INET6_def)
  with add_peer_leaves_orphan [of ?us "unset_srv_conf\<lparr>uc_check_interval := 1000, uc_port := 80\<rparr>" sample_allocs ?addr 0
      "\<lparr>cp_check_shm_name = [], cp_checksum = 0, cp_peers = []\<rparr>"]
  show ?thesis by (auto simp: sample_allocs_def)
qed

text \<open>The address a check connects to with \<open>port=\<close> is the server's with that port, taken modulo 65536,
  and the name written for it reads back as that address (unless the port is 0 then, or the last four
  bytes of the address are 255).\<close>

theorem check_port_roundtrip:
  assumes "a_sockaddr src = sockaddr_in x a \<and> length a = 4 \<and> sa = sockaddr_in (ucast port) a
      \<or> a_sockaddr src = sockaddr_in6 x a \<and> length a = 16 \<and> sa = sockaddr_in6 (ucast port) a"
    and "(ucast port :: 16 word) \<noteq> 0" "of_be32 (drop (length a - 4) a) \<noteq> INADDR_NONE"
  shows "\<exists>dst. ngx_http_upstream_check_addr_change_port True True src port = (NGX_OK, dst)
    \<and> a_sockaddr dst = sa \<and> ngx_parse_addr_port True (a_name dst) = (NGX_OK, Some sa)"
proof -
  have p: "1 \<le> unat (ucast port :: 16 word)" using assms(2) by (simp add: Suc_le_eq unat_gt_0)
  from assms(1) show ?thesis
  proof
    assume a: "a_sockaddr src = sockaddr_in x a \<and> length a = 4 \<and> sa = sockaddr_in (ucast port) a"
    then have "sa_family (a_sockaddr src) = AF_INET" "take 2 (a_sockaddr src) @ be16 (ucast port) @ drop 4 (a_sockaddr src) = sa"
      by (simp_all add: sockaddr_in_def sa_family_def AF_INET_def be16_def)
    with a parse_addr_port_in [of a "ucast port"] p assms(3) show ?thesis
      by (simp add: ngx_http_upstream_check_addr_change_port_def Let_def sock_ntop_in)
  next
    assume a: "a_sockaddr src = sockaddr_in6 x a \<and> length a = 16 \<and> sa = sockaddr_in6 (ucast port) a"
    then have "sa_family (a_sockaddr src) = AF_INET6" "take 2 (a_sockaddr src) @ be16 (ucast port) @ drop 4 (a_sockaddr src) = sa"
      by (simp_all add: sockaddr_in6_def sa_family_def AF_INET6_def be16_def)
    with a parse_addr_port_in6 [of a "ucast port"] inet6_reads_back [of a] p assms(3) show ?thesis
      by (simp add: ngx_http_upstream_check_addr_change_port_def Let_def sock_ntop_in6 AF_INET_def AF_INET6_def)
  qed
qed

lemma check_port_roundtrip_witness:
  "\<exists>dst. ngx_http_upstream_check_addr_change_port True True sample_server 80 = (NGX_OK, dst)
    \<and> a_sockaddr dst = sockaddr_in 80 [CHR 0x0A, NUL, NUL, CHR 0x01]"
proof -
  let ?a = "[CHR 0x0A, NUL, NUL, CHR 0x01]"
  have "of_be32 (drop (length ?a - 4) ?a) \<noteq> INADDR_NONE" by code_simp
  with check_port_roundtrip [of sample_server 3306 ?a "sockaddr_in 80 ?a" 80] show ?thesis
    by (auto simp: sample_server_def)
qed

end
