(* ===== verification/Round_Robin.thy ===== *)
theory Round_Robin
  imports Check_Shm
begin

text \<open>
  The weighted round robin balancers of http and stream upstreams (\<open>ngx_http_upstream_round_robin.c\<close>,
  \<open>ngx_stream_upstream_round_robin.c\<close>): they add the servers to the health checks, and ask for every request
  whether a peer is down. The locks around the operations make them atomic; the weights are signed integers,
  kept within the total weight as shown below.
\<close>

subsection \<open>Peers\<close>

record ngx_http_upstream_rr_peer_t =
  rp_addr :: ngx_addr_t
  rp_server :: string
  rp_current_weight :: int
  rp_effective_weight :: int
  rp_weight :: int
  rp_conns :: ngx_uint_t
  rp_max_conns :: ngx_uint_t
  rp_fails :: ngx_uint_t
  rp_accessed :: int
  rp_checked :: int
  rp_max_fails :: ngx_uint_t
  rp_fail_timeout :: int
  rp_check_index :: ngx_uint_t
  rp_down :: bool

record ngx_http_upstream_rr_peers_t =
  rs_number :: nat
  rs_total_weight :: ngx_uint_t
  rs_single :: bool
  rs_weighted :: bool
  rs_name :: string
  rs_peer :: "ngx_http_upstream_rr_peer_t list"

text \<open>The peers of an upstream, with those \<open>peers->next\<close> points to, the backup servers.\<close>

record rr_upstream =
  ru_peers :: ngx_http_upstream_rr_peers_t
  ru_next :: "ngx_http_upstream_rr_peers_t option"

text \<open>The state of one request: \<open>peers\<close> points to the backup servers when \<open>rrp_next\<close>, \<open>current\<close> is a list and a
  position in it, \<open>tried\<close> a bitmap of 64-bit words.\<close>

record ngx_http_upstream_rr_peer_data_t =
  rrp_config :: ngx_uint_t
  rrp_next :: bool
  rrp_current :: "(bool \<times> nat) option"
  rrp_tried :: "64 word list"

text \<open>What the balancer writes of \<open>ngx_peer_connection_t\<close>.\<close>

record rr_pc =
  pc_sockaddr :: string
  pc_name :: string
  pc_tries :: nat
  pc_cached :: bool

subsection \<open>Configuration\<close>

record ngx_http_upstream_server_t =
  sv_name :: string
  sv_addrs :: "ngx_addr_t list"
  sv_weight :: ngx_uint_t
  sv_max_conns :: ngx_uint_t
  sv_max_fails :: ngx_uint_t
  sv_fail_timeout :: int
  sv_backup :: bool
  sv_down :: bool

text \<open>A zeroed peer with the fields the loops over the servers set; \<open>ngx_int_t\<close> reads the weight as signed.\<close>

definition rr_server_peer :: "ngx_http_upstream_server_t \<Rightarrow> ngx_addr_t \<Rightarrow> ngx_uint_t \<Rightarrow> ngx_http_upstream_rr_peer_t" where
  "rr_server_peer sv addr index =
     \<lparr>rp_addr = addr, rp_server = sv_name sv, rp_current_weight = 0, rp_effective_weight = sint (sv_weight sv),
      rp_weight = sint (sv_weight sv), rp_conns = 0, rp_max_conns = sv_max_conns sv, rp_fails = 0, rp_accessed = 0,
      rp_checked = 0, rp_max_fails = sv_max_fails sv, rp_fail_timeout = sv_fail_timeout sv,
      rp_check_index = index, rp_down = sv_down sv\<rparr>"

text \<open>The addresses of one server; \<open>add k\<close> is the \<open>k\<close>th call of the module's \<open>add_peer\<close>.\<close>

fun rr_addrs ::
  "(nat \<Rightarrow> ngx_addr_t \<Rightarrow> ngx_upstream_check_peers_t \<Rightarrow> ngx_uint_t \<times> ngx_upstream_check_peers_t)
     \<Rightarrow> ngx_http_upstream_server_t \<Rightarrow> ngx_addr_t list \<Rightarrow> nat \<Rightarrow> ngx_upstream_check_peers_t
     \<Rightarrow> ngx_http_upstream_rr_peer_t list \<times> nat \<times> ngx_upstream_check_peers_t" where
  "rr_addrs add sv [] k cps = ([], k, cps)"
| "rr_addrs add sv (addr # addrs) k cps =
     (let (index, k, cps) =
            (if \<not> sv_down sv then (case add k addr cps of (index, cps) \<Rightarrow> (index, Suc k, cps)) else (- 1, k, cps));
          (ps, k, cps) = rr_addrs add sv addrs k cps
      in (rr_server_peer sv addr index # ps, k, cps))"

fun rr_servers ::
  "(nat \<Rightarrow> ngx_addr_t \<Rightarrow> ngx_upstream_check_peers_t \<Rightarrow> ngx_uint_t \<times> ngx_upstream_check_peers_t)
     \<Rightarrow> bool \<Rightarrow> ngx_http_upstream_server_t list \<Rightarrow> nat \<Rightarrow> ngx_upstream_check_peers_t
     \<Rightarrow> ngx_http_upstream_rr_peer_t list \<times> nat \<times> ngx_upstream_check_peers_t" where
  "rr_servers add backup [] k cps = ([], k, cps)"
| "rr_servers add backup (sv # svs) k cps =
     (if sv_backup sv \<noteq> backup then rr_servers add backup svs k cps
      else
        let (ps, k, cps) = rr_addrs add sv (sv_addrs sv) k cps;
            (qs, k, cps) = rr_servers add backup svs k cps
        in (ps @ qs, k, cps))"

definition rr_count :: "bool \<Rightarrow> ngx_http_upstream_server_t list \<Rightarrow> nat" where
  "rr_count backup svs = (\<Sum>sv \<leftarrow> filter (\<lambda>sv. sv_backup sv = backup) svs. length (sv_addrs sv))"

definition rr_total :: "bool \<Rightarrow> ngx_http_upstream_server_t list \<Rightarrow> ngx_uint_t" where
  "rr_total backup svs =
     (\<Sum>sv \<leftarrow> filter (\<lambda>sv. sv_backup sv = backup) svs. of_nat (length (sv_addrs sv)) * sv_weight sv)"

definition rr_group ::
  "bool \<Rightarrow> string \<Rightarrow> bool \<Rightarrow> ngx_http_upstream_server_t list \<Rightarrow> ngx_http_upstream_rr_peer_t list \<Rightarrow> ngx_http_upstream_rr_peers_t" where
  "rr_group backup host single svs ps =
     \<lparr>rs_number = rr_count backup svs, rs_total_weight = rr_total backup svs, rs_single = single,
      rs_weighted = (rr_total backup svs \<noteq> of_nat (rr_count backup svs)), rs_name = host, rs_peer = ps\<rparr>"

text \<open>A server of an upstream that is defined by its name only.\<close>

definition rr_plain_peer :: "ngx_addr_t \<Rightarrow> ngx_http_upstream_rr_peer_t" where
  "rr_plain_peer addr =
     \<lparr>rp_addr = addr, rp_server = [], rp_current_weight = 0, rp_effective_weight = 1, rp_weight = 1, rp_conns = 0,
      rp_max_conns = 0, rp_fails = 0, rp_accessed = 0, rp_checked = 0, rp_max_fails = 1, rp_fail_timeout = 10,
      rp_check_index = - 1, rp_down = False\<rparr>"

text \<open>\<open>init_round_robin\<close>: \<open>servers\<close> is \<open>us->servers\<close> (\<open>None\<close>: \<open>NULL\<close>), \<open>resolve\<close> what
  \<open>ngx_inet_resolve_host\<close> finds, \<open>pcalloc i\<close> whether the \<open>i\<close>th allocation succeeds. On success the second result
  is \<open>us->peer.data\<close>; a failure after the primary servers leaves them there.\<close>

definition rr_init ::
  "(nat \<Rightarrow> bool) \<Rightarrow> (nat \<Rightarrow> ngx_addr_t \<Rightarrow> ngx_upstream_check_peers_t \<Rightarrow> ngx_uint_t \<times> ngx_upstream_check_peers_t)
     \<Rightarrow> ngx_addr_t list option \<Rightarrow> string \<Rightarrow> 16 word
     \<Rightarrow> ngx_http_upstream_server_t list option \<Rightarrow> ngx_upstream_check_peers_t
     \<Rightarrow> ngx_rc \<times> rr_upstream option \<times> ngx_upstream_check_peers_t" where
  "rr_init pcalloc add resolve host port servers cps =
     (case servers of
        Some svs \<Rightarrow>
          let n = rr_count False svs
          in if n = 0 then (NGX_ERROR, None, cps)
             else if \<not> pcalloc 0 \<or> \<not> pcalloc 1 then (NGX_ERROR, None, cps)
             else
               let (ps, k, cps) = rr_servers add False svs 0 cps;
                   peers = rr_group False host (n = 1) svs ps;
                   m = rr_count True svs
               in if m = 0 then (NGX_OK, Some \<lparr>ru_peers = peers, ru_next = None\<rparr>, cps)
                  else if \<not> pcalloc 2 \<or> \<not> pcalloc 3 then (NGX_ERROR, Some \<lparr>ru_peers = peers, ru_next = None\<rparr>, cps)
                  else
                    let (qs, k, cps) = rr_servers add True svs k cps
                    in (NGX_OK, Some \<lparr>ru_peers = peers\<lparr>rs_single := False\<rparr>,
                                      ru_next = Some (rr_group True host False svs qs)\<rparr>, cps)
      | None \<Rightarrow>
          if port = 0 then (NGX_ERROR, None, cps)
          else
            (case resolve of
               None \<Rightarrow> (NGX_ERROR, None, cps)
             | Some addrs \<Rightarrow>
                 if \<not> pcalloc 0 \<or> \<not> pcalloc 1 then (NGX_ERROR, None, cps)
                 else
                   let n = length addrs
                   in (NGX_OK,
                       Some \<lparr>ru_peers = \<lparr>rs_number = n, rs_total_weight = of_nat n, rs_single = (n = 1),
                                          rs_weighted = False, rs_name = host,
                                          rs_peer = map rr_plain_peer addrs\<rparr>,
                             ru_next = None\<rparr>, cps)))"

text \<open>The same for the two modules, with allocations \<open>al k\<close> for the \<open>k\<close>th call of \<open>add_peer\<close>.\<close>

definition ngx_http_upstream_init_round_robin ::
  "(nat \<Rightarrow> bool) \<Rightarrow> (nat \<Rightarrow> add_allocs) \<Rightarrow> ngx_addr_t list option \<Rightarrow> nat \<Rightarrow> check_upstream \<Rightarrow> 16 word
     \<Rightarrow> ngx_http_upstream_server_t list option \<Rightarrow> ngx_upstream_check_peers_t
     \<Rightarrow> ngx_rc \<times> rr_upstream option \<times> ngx_upstream_check_peers_t" where
  "ngx_http_upstream_init_round_robin pcalloc al resolve u us port servers cps =
     rr_init pcalloc (\<lambda>k. ngx_http_upstream_check_add_peer (al k) u us) resolve (us_host us) port servers cps"

definition ngx_stream_upstream_init_round_robin ::
  "(nat \<Rightarrow> bool) \<Rightarrow> (nat \<Rightarrow> add_allocs) \<Rightarrow> ngx_addr_t list option \<Rightarrow> nat \<Rightarrow> check_upstream \<Rightarrow> 16 word
     \<Rightarrow> ngx_http_upstream_server_t list option \<Rightarrow> ngx_upstream_check_peers_t
     \<Rightarrow> ngx_rc \<times> rr_upstream option \<times> ngx_upstream_check_peers_t" where
  "ngx_stream_upstream_init_round_robin pcalloc al resolve u us port servers cps =
     rr_init pcalloc (\<lambda>k. ngx_stream_upstream_check_add_peer (al k) u us) resolve (us_host us) port servers cps"

text \<open>The state of a request. \<open>palloc\<close> and \<open>pcalloc\<close> tell whether it and a bitmap of more than one word can be
  allocated; a state left from a try before is reused. The second result is \<open>peer.tries\<close>.\<close>

definition rr_init_peer ::
  "bool \<Rightarrow> bool \<Rightarrow> ngx_http_upstream_rr_peer_data_t option \<Rightarrow> rr_upstream
     \<Rightarrow> (ngx_http_upstream_rr_peer_data_t \<times> nat) option" where
  "rr_init_peer palloc pcalloc rrp up =
     (if rrp = None \<and> \<not> palloc then None
      else
        let n = (case ru_next up of
                   Some b \<Rightarrow> if rs_number b > rs_number (ru_peers up) then rs_number b else rs_number (ru_peers up)
                 | None \<Rightarrow> rs_number (ru_peers up));
            words = (if n \<le> 64 then 1 else (n + 63) div 64)
        in if \<not> n \<le> 64 \<and> \<not> pcalloc then None
           else Some (\<lparr>rrp_config = 0, rrp_next = False, rrp_current = None, rrp_tried = replicate words 0\<rparr>,
                      rs_number (ru_peers up) + (case ru_next up of None \<Rightarrow> 0 | Some b \<Rightarrow> rs_number b)))"

definition ngx_http_upstream_init_round_robin_peer ::
  "bool \<Rightarrow> bool \<Rightarrow> ngx_http_upstream_rr_peer_data_t option \<Rightarrow> rr_upstream
     \<Rightarrow> (ngx_http_upstream_rr_peer_data_t \<times> nat) option" where
  "ngx_http_upstream_init_round_robin_peer palloc pcalloc rrp up = rr_init_peer palloc pcalloc rrp up"

definition ngx_stream_upstream_init_round_robin_peer ::
  "bool \<Rightarrow> bool \<Rightarrow> ngx_http_upstream_rr_peer_data_t option \<Rightarrow> rr_upstream
     \<Rightarrow> (ngx_http_upstream_rr_peer_data_t \<times> nat) option" where
  "ngx_stream_upstream_init_round_robin_peer palloc pcalloc rrp up = rr_init_peer palloc pcalloc rrp up"

text \<open>Peers of a name resolved during a request: one given address, or all addresses with the port. \<open>palloc i\<close>
  and \<open>pnalloc i\<close> tell whether copy and name of address \<open>i\<close> can be allocated.\<close>

fun rr_resolved ::
  "(nat \<Rightarrow> bool) \<Rightarrow> (nat \<Rightarrow> bool) \<Rightarrow> 16 word \<Rightarrow> nat \<Rightarrow> ngx_addr_t list \<Rightarrow> ngx_http_upstream_rr_peer_t list option" where
  "rr_resolved palloc pnalloc port i [] = Some []"
| "rr_resolved palloc pnalloc port i (addr # addrs) =
     (if \<not> palloc i then None
      else if \<not> pnalloc i then None
      else
        let sa = ngx_inet_set_port (a_sockaddr addr) port
        in map_option (\<lambda>ps. rr_plain_peer \<lparr>a_sockaddr = sa, a_name = ngx_sock_ntop sa 113 True\<rparr> # ps)
             (rr_resolved palloc pnalloc port (Suc i) addrs))"

definition rr_create ::
  "(nat \<Rightarrow> bool) \<Rightarrow> (nat \<Rightarrow> bool) \<Rightarrow> (nat \<Rightarrow> bool) \<Rightarrow> ngx_http_upstream_rr_peer_data_t option \<Rightarrow> string \<Rightarrow> 16 word
     \<Rightarrow> (string \<times> string) option \<Rightarrow> nat \<Rightarrow> ngx_addr_t list
     \<Rightarrow> (rr_upstream \<times> ngx_http_upstream_rr_peer_data_t \<times> nat) option" where
  "rr_create alloc palloc pnalloc rrp host port given naddrs addrs =
     (if rrp = None \<and> \<not> alloc 0 then None
      else if \<not> alloc 1 \<or> \<not> alloc 2 then None
      else
        (case (case given of
                 Some (sa, name) \<Rightarrow>
                   Some [rr_plain_peer \<lparr>a_sockaddr = sa, a_name = name\<rparr>]
               | None \<Rightarrow> rr_resolved palloc pnalloc port 0 (take naddrs addrs)) of
           None \<Rightarrow> None
         | Some ps \<Rightarrow>
             let n = naddrs;
                 up = \<lparr>ru_peers = \<lparr>rs_number = n, rs_total_weight = 0, rs_single = (n = 1), rs_weighted = False,
                                    rs_name = host, rs_peer = ps\<rparr>, ru_next = None\<rparr>;
                 words = (if n \<le> 64 then 1 else (n + 63) div 64)
             in if \<not> n \<le> 64 \<and> \<not> alloc 3 then None
                else Some (up, \<lparr>rrp_config = 0, rrp_next = False, rrp_current = None, rrp_tried = replicate words 0\<rparr>, n)))"

text \<open>A given address without a name (\<open>ur->name.data\<close> is \<open>NULL\<close>) has the host's for http, and none for stream.\<close>

definition ngx_http_upstream_create_round_robin_peer ::
  "(nat \<Rightarrow> bool) \<Rightarrow> (nat \<Rightarrow> bool) \<Rightarrow> (nat \<Rightarrow> bool) \<Rightarrow> ngx_http_upstream_rr_peer_data_t option \<Rightarrow> string \<Rightarrow> 16 word
     \<Rightarrow> (string \<times> string option) option \<Rightarrow> nat \<Rightarrow> ngx_addr_t list
     \<Rightarrow> (rr_upstream \<times> ngx_http_upstream_rr_peer_data_t \<times> nat) option" where
  "ngx_http_upstream_create_round_robin_peer alloc palloc pnalloc rrp host port given naddrs addrs =
     rr_create alloc palloc pnalloc rrp host port
       (map_option (map_prod id (\<lambda>name. case name of Some n \<Rightarrow> n | None \<Rightarrow> host)) given) naddrs addrs"

definition ngx_stream_upstream_create_round_robin_peer ::
  "(nat \<Rightarrow> bool) \<Rightarrow> (nat \<Rightarrow> bool) \<Rightarrow> (nat \<Rightarrow> bool) \<Rightarrow> ngx_http_upstream_rr_peer_data_t option \<Rightarrow> string \<Rightarrow> 16 word
     \<Rightarrow> (string \<times> string option) option \<Rightarrow> nat \<Rightarrow> ngx_addr_t list
     \<Rightarrow> (rr_upstream \<times> ngx_http_upstream_rr_peer_data_t \<times> nat) option" where
  "ngx_stream_upstream_create_round_robin_peer alloc palloc pnalloc rrp host port given naddrs addrs =
     rr_create alloc palloc pnalloc rrp host port
       (map_option (map_prod id (\<lambda>name. case name of Some n \<Rightarrow> n | None \<Rightarrow> [])) given) naddrs addrs"

subsection \<open>Choosing a peer\<close>

text \<open>\<open>rrp->tried[n] & m\<close> and \<open>rrp->tried[n] |= m\<close>.\<close>

definition rr_tried :: "64 word list \<Rightarrow> nat \<Rightarrow> bool" where
  "rr_tried tried i \<longleftrightarrow> (tried ! (i div 64)) AND push_bit (i mod 64) 1 \<noteq> 0"

definition rr_mark :: "64 word list \<Rightarrow> nat \<Rightarrow> 64 word list" where
  "rr_mark tried i = tried[i div 64 := (tried ! (i div 64)) OR push_bit (i mod 64) 1]"

text \<open>The conditions under which the loop goes on to the next peer, in the order of each module. \<open>check_down\<close> is
  \<open>check_peer_down\<close>.\<close>

definition http_rr_skip ::
  "int \<Rightarrow> (ngx_uint_t \<Rightarrow> bool) \<Rightarrow> 64 word list \<Rightarrow> nat \<Rightarrow> ngx_http_upstream_rr_peer_t \<Rightarrow> bool" where
  "http_rr_skip now check_down tried i p =
     (if rr_tried tried i then True
      else if rp_down p then True
      else if check_down (rp_check_index p) then True
      else if rp_max_fails p \<noteq> 0 \<and> rp_fails p \<ge> rp_max_fails p \<and> now - rp_checked p \<le> rp_fail_timeout p then True
      else if rp_max_conns p \<noteq> 0 \<and> rp_conns p \<ge> rp_max_conns p then True
      else False)"

definition stream_rr_skip ::
  "int \<Rightarrow> (ngx_uint_t \<Rightarrow> bool) \<Rightarrow> 64 word list \<Rightarrow> nat \<Rightarrow> ngx_http_upstream_rr_peer_t \<Rightarrow> bool" where
  "stream_rr_skip now check_down tried i p =
     (if rr_tried tried i then True
      else if rp_down p then True
      else if rp_max_fails p \<noteq> 0 \<and> rp_fails p \<ge> rp_max_fails p \<and> now - rp_checked p \<le> rp_fail_timeout p then True
      else if rp_max_conns p \<noteq> 0 \<and> rp_conns p \<ge> rp_max_conns p then True
      else if check_down (rp_check_index p) then True
      else False)"

text \<open>The loop: the peers with their new weights, the best one (position and weight) and the total.\<close>

definition rr_weigh :: "ngx_http_upstream_rr_peer_t \<Rightarrow> ngx_http_upstream_rr_peer_t" where
  "rr_weigh p =
     p\<lparr>rp_current_weight := rp_current_weight p + rp_effective_weight p,
       rp_effective_weight := (if rp_effective_weight p < rp_weight p then rp_effective_weight p + 1
                               else rp_effective_weight p)\<rparr>"

fun rr_scan ::
  "(nat \<Rightarrow> ngx_http_upstream_rr_peer_t \<Rightarrow> bool) \<Rightarrow> nat \<Rightarrow> ngx_http_upstream_rr_peer_t list \<Rightarrow> (nat \<times> int) option \<Rightarrow> int
     \<Rightarrow> ngx_http_upstream_rr_peer_t list \<times> (nat \<times> int) option \<times> int" where
  "rr_scan skip i [] best tot = ([], best, tot)"
| "rr_scan skip i (p # ps) best tot =
     (if skip i p then map_prod ((#) p) id (rr_scan skip (Suc i) ps best tot)
      else
        let q = rr_weigh p
        in map_prod ((#) q) id
             (rr_scan skip (Suc i) ps
                (case best of
                   None \<Rightarrow> Some (i, rp_current_weight q)
                 | Some (j, w) \<Rightarrow> if rp_current_weight q > w then Some (i, rp_current_weight q) else best)
                (tot + rp_effective_weight p)))"

text \<open>After the loop: the chosen peer pays the total and is marked as tried.\<close>

definition rr_take :: "int \<Rightarrow> int \<Rightarrow> ngx_http_upstream_rr_peer_t \<Rightarrow> ngx_http_upstream_rr_peer_t" where
  "rr_take now tot p =
     p\<lparr>rp_current_weight := rp_current_weight p - tot,
       rp_checked := (if now - rp_checked p > rp_fail_timeout p then now else rp_checked p)\<rparr>"

definition rr_choose ::
  "(64 word list \<Rightarrow> nat \<Rightarrow> ngx_http_upstream_rr_peer_t \<Rightarrow> bool) \<Rightarrow> int \<Rightarrow> ngx_http_upstream_rr_peer_data_t
     \<Rightarrow> ngx_http_upstream_rr_peer_t list
     \<Rightarrow> nat option \<times> ngx_http_upstream_rr_peer_data_t \<times> ngx_http_upstream_rr_peer_t list" where
  "rr_choose skip now rrp ps =
     (case rr_scan (skip (rrp_tried rrp)) 0 ps None 0 of
        (ps, None, tot) \<Rightarrow> (None, rrp, ps)
      | (ps, Some (p, w), tot) \<Rightarrow>
          (Some p, rrp\<lparr>rrp_current := Some (rrp_next rrp, p), rrp_tried := rr_mark (rrp_tried rrp) p\<rparr>,
           ps[p := rr_take now tot (ps ! p)]))"

definition ngx_http_upstream_get_peer ::
  "int \<Rightarrow> (ngx_uint_t \<Rightarrow> bool) \<Rightarrow> ngx_http_upstream_rr_peer_data_t \<Rightarrow> ngx_http_upstream_rr_peer_t list
     \<Rightarrow> nat option \<times> ngx_http_upstream_rr_peer_data_t \<times> ngx_http_upstream_rr_peer_t list" where
  "ngx_http_upstream_get_peer now check_down rrp ps = rr_choose (http_rr_skip now check_down) now rrp ps"

definition ngx_stream_upstream_get_peer ::
  "int \<Rightarrow> (ngx_uint_t \<Rightarrow> bool) \<Rightarrow> ngx_http_upstream_rr_peer_data_t \<Rightarrow> ngx_http_upstream_rr_peer_t list
     \<Rightarrow> nat option \<times> ngx_http_upstream_rr_peer_data_t \<times> ngx_http_upstream_rr_peer_t list" where
  "ngx_stream_upstream_get_peer now check_down rrp ps = rr_choose (stream_rr_skip now check_down) now rrp ps"

text \<open>The attempt on one list of peers: the position chosen.\<close>

definition rr_attempt ::
  "(ngx_http_upstream_rr_peer_data_t \<Rightarrow> ngx_http_upstream_rr_peer_t list
      \<Rightarrow> nat option \<times> ngx_http_upstream_rr_peer_data_t \<times> ngx_http_upstream_rr_peer_t list)
     \<Rightarrow> (ngx_uint_t \<Rightarrow> bool) \<Rightarrow> ngx_http_upstream_rr_peer_data_t \<Rightarrow> ngx_http_upstream_rr_peers_t
     \<Rightarrow> nat option \<times> ngx_http_upstream_rr_peer_data_t \<times> ngx_http_upstream_rr_peers_t" where
  "rr_attempt get check_down rrp peers =
     (case (if rs_single peers
            then
              let p = rs_peer peers ! 0
              in if rp_down p then (None, rrp, rs_peer peers)
                 else if rp_max_conns p \<noteq> 0 \<and> rp_conns p \<ge> rp_max_conns p then (None, rrp, rs_peer peers)
                 else if check_down (rp_check_index p) then (None, rrp, rs_peer peers)
                 else (Some 0, rrp\<lparr>rrp_current := Some (rrp_next rrp, 0)\<rparr>, rs_peer peers)
            else get rrp (rs_peer peers)) of
        (None, rrp, ps) \<Rightarrow> (None, rrp, peers\<lparr>rs_peer := ps\<rparr>)
      | (Some i, rrp, ps) \<Rightarrow>
          (Some i, rrp, peers\<lparr>rs_peer := ps[i := (ps ! i)\<lparr>rp_conns := rp_conns (ps ! i) + 1\<rparr>]\<rparr>))"

text \<open>\<open>get_round_robin_peer\<close>, for any such attempt: on a failure of the primary servers it calls itself on the backup servers, whose
  \<open>next\<close> is \<open>NULL\<close>. A \<open>None\<close> stands for \<open>rrp->peers\<close> pointing to backup servers that do not exist.\<close>

definition rr_found :: "ngx_http_upstream_rr_peer_t \<Rightarrow> rr_pc \<Rightarrow> rr_pc" where
  "rr_found p pc = pc\<lparr>pc_sockaddr := a_sockaddr (rp_addr p), pc_name := a_name (rp_addr p)\<rparr>"

definition rr_get_backup ::
  "(ngx_http_upstream_rr_peer_data_t \<Rightarrow> ngx_http_upstream_rr_peers_t
      \<Rightarrow> nat option \<times> ngx_http_upstream_rr_peer_data_t \<times> ngx_http_upstream_rr_peers_t)
     \<Rightarrow> rr_pc \<Rightarrow> ngx_http_upstream_rr_peer_data_t \<Rightarrow> rr_upstream
     \<Rightarrow> (ngx_rc \<times> rr_pc \<times> ngx_http_upstream_rr_peer_data_t \<times> rr_upstream) option" where
  "rr_get_backup attempt pc rrp up =
     (case ru_next up of
        None \<Rightarrow> None
      | Some b \<Rightarrow>
          (case attempt rrp b of
             (Some i, rrp, b) \<Rightarrow> Some (NGX_OK, rr_found (rs_peer b ! i) pc, rrp, up\<lparr>ru_next := Some b\<rparr>)
           | (None, rrp, b) \<Rightarrow> Some (NGX_BUSY, pc\<lparr>pc_name := rs_name b\<rparr>, rrp, up\<lparr>ru_next := Some b\<rparr>)))"

definition rr_get ::
  "(ngx_http_upstream_rr_peer_data_t \<Rightarrow> ngx_http_upstream_rr_peers_t
      \<Rightarrow> nat option \<times> ngx_http_upstream_rr_peer_data_t \<times> ngx_http_upstream_rr_peers_t)
     \<Rightarrow> rr_pc \<Rightarrow> ngx_http_upstream_rr_peer_data_t \<Rightarrow> rr_upstream
     \<Rightarrow> (ngx_rc \<times> rr_pc \<times> ngx_http_upstream_rr_peer_data_t \<times> rr_upstream) option" where
  "rr_get attempt pc rrp up =
     (if rrp_next rrp then rr_get_backup attempt pc rrp up
      else
        (case attempt rrp (ru_peers up) of
           (Some i, rrp, ps) \<Rightarrow> Some (NGX_OK, rr_found (rs_peer ps ! i) pc, rrp, up\<lparr>ru_peers := ps\<rparr>)
         | (None, rrp, ps) \<Rightarrow>
             let up = up\<lparr>ru_peers := ps\<rparr>
             in (case ru_next up of
                   None \<Rightarrow> Some (NGX_BUSY, pc\<lparr>pc_name := rs_name ps\<rparr>, rrp, up)
                 | Some b \<Rightarrow>
                     let n = (rs_number b + 63) div 64;
                         rrp = rrp\<lparr>rrp_next := True,
                                   rrp_tried := replicate n 0 @ drop n (rrp_tried rrp)\<rparr>
                     in (case rr_get_backup attempt pc rrp up of
                           Some (rc, pc, rrp, up) \<Rightarrow>
                             if rc \<noteq> NGX_BUSY then Some (rc, pc, rrp, up)
                             else Some (NGX_BUSY, pc\<lparr>pc_name := rs_name ps\<rparr>, rrp, up)
                         | None \<Rightarrow> None))))"

definition ngx_http_upstream_get_round_robin_peer ::
  "int \<Rightarrow> (ngx_uint_t \<Rightarrow> bool) \<Rightarrow> rr_pc \<Rightarrow> ngx_http_upstream_rr_peer_data_t \<Rightarrow> rr_upstream
     \<Rightarrow> (ngx_rc \<times> rr_pc \<times> ngx_http_upstream_rr_peer_data_t \<times> rr_upstream) option" where
  "ngx_http_upstream_get_round_robin_peer now check_down pc rrp up =
     rr_get (rr_attempt (ngx_http_upstream_get_peer now check_down) check_down) (pc\<lparr>pc_cached := False\<rparr>) rrp up"

definition ngx_stream_upstream_get_round_robin_peer ::
  "int \<Rightarrow> (ngx_uint_t \<Rightarrow> bool) \<Rightarrow> rr_pc \<Rightarrow> ngx_http_upstream_rr_peer_data_t \<Rightarrow> rr_upstream
     \<Rightarrow> (ngx_rc \<times> rr_pc \<times> ngx_http_upstream_rr_peer_data_t \<times> rr_upstream) option" where
  "ngx_stream_upstream_get_round_robin_peer now check_down pc rrp up =
     rr_get (rr_attempt (ngx_stream_upstream_get_peer now check_down) check_down) pc rrp up"

subsection \<open>Giving a peer back\<close>

definition rr_failed :: "int \<Rightarrow> ngx_http_upstream_rr_peer_t \<Rightarrow> ngx_http_upstream_rr_peer_t" where
  "rr_failed now p =
     (let p = p\<lparr>rp_fails := rp_fails p + 1, rp_accessed := now, rp_checked := now\<rparr>;
          w = (if rp_max_fails p \<noteq> 0
               then rp_effective_weight p - rp_weight p div int (unat (rp_max_fails p))
               else rp_effective_weight p)
      in p\<lparr>rp_effective_weight := (if w < 0 then 0 else w)\<rparr>)"

definition rr_alive :: "ngx_http_upstream_rr_peer_t \<Rightarrow> ngx_http_upstream_rr_peer_t" where
  "rr_alive p = (if rp_accessed p < rp_checked p then p\<lparr>rp_fails := 0\<rparr> else p)"

definition rr_on_current ::
  "(ngx_http_upstream_rr_peer_t \<Rightarrow> ngx_http_upstream_rr_peer_t) \<Rightarrow> ngx_http_upstream_rr_peer_data_t \<Rightarrow> rr_upstream
     \<Rightarrow> rr_upstream option" where
  "rr_on_current f rrp up =
     (case rrp_current rrp of
        None \<Rightarrow> None
      | Some (b, i) \<Rightarrow>
          if b then
            (case ru_next up of
               None \<Rightarrow> None
             | Some ps \<Rightarrow>
                 if i < length (rs_peer ps)
                 then Some (up\<lparr>ru_next := Some (ps\<lparr>rs_peer := (rs_peer ps)[i := f (rs_peer ps ! i)]\<rparr>)\<rparr>) else None)
          else
            let ps = ru_peers up
            in if i < length (rs_peer ps)
               then Some (up\<lparr>ru_peers := ps\<lparr>rs_peer := (rs_peer ps)[i := f (rs_peer ps ! i)]\<rparr>\<rparr>) else None)"

definition rr_free ::
  "int \<Rightarrow> bool \<Rightarrow> rr_pc \<Rightarrow> ngx_http_upstream_rr_peer_data_t \<Rightarrow> rr_upstream \<Rightarrow> (rr_pc \<times> rr_upstream) option" where
  "rr_free now failed pc rrp up =
     (let single = (if rrp_next rrp then (case ru_next up of None \<Rightarrow> False | Some b \<Rightarrow> rs_single b)
                    else rs_single (ru_peers up));
          leave = (\<lambda>p. p\<lparr>rp_conns := rp_conns p - 1\<rparr>)
      in if single then map_option (\<lambda>up. (pc\<lparr>pc_tries := 0\<rparr>, up)) (rr_on_current leave rrp up)
         else map_option (\<lambda>up. (pc\<lparr>pc_tries := pc_tries pc - 1\<rparr>, up))
                (rr_on_current (\<lambda>p. leave (if failed then rr_failed now p else rr_alive p)) rrp up))"

definition ngx_http_upstream_free_round_robin_peer ::
  "int \<Rightarrow> bool \<Rightarrow> rr_pc \<Rightarrow> ngx_http_upstream_rr_peer_data_t \<Rightarrow> rr_upstream \<Rightarrow> (rr_pc \<times> rr_upstream) option" where
  "ngx_http_upstream_free_round_robin_peer now failed pc rrp up = rr_free now failed pc rrp up"

definition ngx_stream_upstream_free_round_robin_peer ::
  "int \<Rightarrow> bool \<Rightarrow> rr_pc \<Rightarrow> ngx_http_upstream_rr_peer_data_t \<Rightarrow> rr_upstream \<Rightarrow> (rr_pc \<times> rr_upstream) option" where
  "ngx_stream_upstream_free_round_robin_peer now failed pc rrp up = rr_free now failed pc rrp up"

text \<open>The stream module also marks a peer alive when a TCP connection to it is established.\<close>

definition ngx_stream_upstream_notify_round_robin_peer ::
  "bool \<Rightarrow> sock_type \<Rightarrow> ngx_http_upstream_rr_peer_data_t \<Rightarrow> rr_upstream \<Rightarrow> rr_upstream option" where
  "ngx_stream_upstream_notify_round_robin_peer connected ty rrp up =
     (if connected \<and> ty = SOCK_STREAM then rr_on_current rr_alive rrp up else Some up)"

subsection \<open>What the loop does\<close>

lemma rr_weigh_sel [simp]:
  "rp_addr (rr_weigh p) = rp_addr p" "rp_server (rr_weigh p) = rp_server p" "rp_down (rr_weigh p) = rp_down p" "rp_check_index (rr_weigh p) = rp_check_index p"
  "rp_weight (rr_weigh p) = rp_weight p" "rp_fails (rr_weigh p) = rp_fails p" "rp_max_fails (rr_weigh p) = rp_max_fails p"
  "rp_conns (rr_weigh p) = rp_conns p" "rp_max_conns (rr_weigh p) = rp_max_conns p"
  "rp_checked (rr_weigh p) = rp_checked p" "rp_fail_timeout (rr_weigh p) = rp_fail_timeout p"
  "rp_current_weight (rr_weigh p) = rp_current_weight p + rp_effective_weight p"
  by (simp_all add: rr_weigh_def)

lemma rr_take_sel [simp]:
  "rp_addr (rr_take now tot p) = rp_addr p" "rp_server (rr_take now tot p) = rp_server p" "rp_down (rr_take now tot p) = rp_down p"
  "rp_check_index (rr_take now tot p) = rp_check_index p" "rp_weight (rr_take now tot p) = rp_weight p"
  "rp_fails (rr_take now tot p) = rp_fails p" "rp_max_fails (rr_take now tot p) = rp_max_fails p"
  "rp_conns (rr_take now tot p) = rp_conns p" "rp_max_conns (rr_take now tot p) = rp_max_conns p"
  "rp_fail_timeout (rr_take now tot p) = rp_fail_timeout p"
  "rp_effective_weight (rr_take now tot p) = rp_effective_weight p"
  "rp_current_weight (rr_take now tot p) = rp_current_weight p - tot"
  by (simp_all add: rr_take_def)

text \<open>The peers after the loop, and what it adds up.\<close>

definition rr_weighed :: "(nat \<Rightarrow> ngx_http_upstream_rr_peer_t \<Rightarrow> bool) \<Rightarrow> nat \<Rightarrow> ngx_http_upstream_rr_peer_t list
    \<Rightarrow> ngx_http_upstream_rr_peer_t list" where
  "rr_weighed skip i ps = map2 (\<lambda>k p. if skip k p then p else rr_weigh p) [i..<i + length ps] ps"

lemma rr_weighed_simps [simp]:
  "rr_weighed skip i [] = []"
  "rr_weighed skip i (p # ps) = (if skip i p then p else rr_weigh p) # rr_weighed skip (Suc i) ps"
  by (simp_all add: rr_weighed_def upt_rec)

lemma length_rr_weighed [simp]: "length (rr_weighed skip i ps) = length ps"
  by (simp add: rr_weighed_def)

lemma nth_rr_weighed: "k < length ps \<Longrightarrow>
    rr_weighed skip i ps ! k = (if skip (i + k) (ps ! k) then ps ! k else rr_weigh (ps ! k))"
  by (simp add: rr_weighed_def)

definition rr_gain :: "(nat \<Rightarrow> ngx_http_upstream_rr_peer_t \<Rightarrow> bool) \<Rightarrow> nat \<Rightarrow> ngx_http_upstream_rr_peer_t list \<Rightarrow> int" where
  "rr_gain skip i ps = (\<Sum>(k, p) \<leftarrow> zip [i..<i + length ps] ps. if skip k p then 0 else rp_effective_weight p)"

lemma rr_gain_simps [simp]:
  "rr_gain skip i [] = 0"
  "rr_gain skip i (p # ps) = (if skip i p then 0 else rp_effective_weight p) + rr_gain skip (Suc i) ps"
  by (simp_all add: rr_gain_def upt_rec)

lemma rr_scan_fst: "fst (rr_scan skip i ps best tot) = rr_weighed skip i ps"
  by (induction ps arbitrary: i best tot) (simp_all add: Let_def)

lemma rr_scan_total: "snd (snd (rr_scan skip i ps best tot)) = tot + rr_gain skip i ps"
  by (induction ps arbitrary: i best tot) (simp_all add: Let_def)

lemma rr_weighed_sum:
  "sum_list (map rp_current_weight (rr_weighed skip i ps)) = sum_list (map rp_current_weight ps) + rr_gain skip i ps"
  by (induction ps arbitrary: i) auto

text \<open>The best peer is one that is not skipped, with the largest weight.\<close>

definition rr_best ::
  "(nat \<Rightarrow> ngx_http_upstream_rr_peer_t \<Rightarrow> bool) \<Rightarrow> nat \<Rightarrow> ngx_http_upstream_rr_peer_t list \<Rightarrow> nat \<times> int \<Rightarrow> bool" where
  "rr_best skip i ps b \<longleftrightarrow> (\<exists>k < length ps. fst b = i + k \<and> \<not> skip (i + k) (ps ! k)
     \<and> snd b = rp_current_weight (rr_weighed skip i ps ! k))"

lemma rr_best_Suc: "rr_best skip (Suc i) ps b \<Longrightarrow> rr_best skip i (p # ps) b"
  unfolding rr_best_def by (elim exE conjE, rule_tac x = "Suc k" in exI) simp

lemma rr_scan_best:
  assumes "fst (snd (rr_scan skip i ps best tot)) = r"
  shows "(r = None \<longrightarrow> best = None \<and> (\<forall>k < length ps. skip (i + k) (ps ! k)))
    \<and> (\<forall>b. r = Some b \<longrightarrow> (best = Some b \<or> rr_best skip i ps b)
        \<and> (\<forall>j w. best = Some (j, w) \<longrightarrow> w \<le> snd b)
        \<and> (\<forall>k < length ps. \<not> skip (i + k) (ps ! k) \<longrightarrow> rp_current_weight (rr_weighed skip i ps ! k) \<le> snd b))"
  using assms
proof (induction ps arbitrary: i best tot)
  case Nil
  then show ?case by auto
next
  case (Cons p ps)
  have all: "(\<forall>k < length (p # ps). P (i + k) ((p # ps) ! k) k) \<longleftrightarrow> P i p 0 \<and> (\<forall>k < length ps. P (Suc i + k) (ps ! k) (Suc k))"
    for P :: "nat \<Rightarrow> ngx_http_upstream_rr_peer_t \<Rightarrow> nat \<Rightarrow> bool"
    by (auto simp: less_Suc_eq_0_disj)
  show ?case
  proof (cases "skip i p")
    case True
    with Cons.prems have "fst (snd (rr_scan skip (Suc i) ps best tot)) = r" by simp
    from Cons.IH [OF this] True show ?thesis
      unfolding all [of "\<lambda>n q k. skip n q"] all [of "\<lambda>n q k. \<not> skip n q \<longrightarrow> rp_current_weight (rr_weighed skip i (p # ps) ! k) \<le> snd b" for b]
      by (auto dest: rr_best_Suc)
  next
    case False
    let ?q = "rr_weigh p"
    let ?best = "case best of None \<Rightarrow> Some (i, rp_current_weight ?q)
      | Some (j, w) \<Rightarrow> if rp_current_weight ?q > w then Some (i, rp_current_weight ?q) else best"
    from False Cons.prems have "fst (snd (rr_scan skip (Suc i) ps ?best (tot + rp_effective_weight p))) = r"
      by (simp add: Let_def)
    note ih = Cons.IH [OF this]
    have here: "rr_best skip i (p # ps) (i, rp_current_weight ?q)"
      unfolding rr_best_def using False by (intro exI [of _ 0]) simp
    from ih False show ?thesis
      unfolding all [of "\<lambda>n q k. skip n q"] all [of "\<lambda>n q k. \<not> skip n q \<longrightarrow> rp_current_weight (rr_weighed skip i (p # ps) ! k) \<le> snd b" for b]
      using here by (cases best) (fastforce dest: rr_best_Suc split: if_splits)+
  qed
qed

lemma rr_choose_None:
  assumes "rr_choose skip now rrp ps = (None, rrp', ps')"
  shows "rrp' = rrp \<and> ps' = ps \<and> (\<forall>k < length ps. skip (rrp_tried rrp) k (ps ! k))"
proof -
  let ?s = "rr_scan (skip (rrp_tried rrp)) 0 ps None 0"
  from assms have n: "fst (snd ?s) = None" and r: "rrp' = rrp" "ps' = fst ?s"
    by (auto simp: rr_choose_def split: prod.splits option.splits)
  from rr_scan_best [OF n] have "\<forall>k < length ps. skip (rrp_tried rrp) k (ps ! k)" by simp
  then show ?thesis using r rr_scan_fst [of "skip (rrp_tried rrp)" 0 ps None 0]
    by (auto simp: nth_rr_weighed intro!: nth_equalityI)
qed

lemma rr_choose_Some:
  assumes "rr_choose skip now rrp ps = (Some j, rrp', ps')"
  defines "qs \<equiv> rr_weighed (skip (rrp_tried rrp)) 0 ps" and "t \<equiv> rr_gain (skip (rrp_tried rrp)) 0 ps"
  shows "j < length ps" "\<not> skip (rrp_tried rrp) j (ps ! j)"
    "rrp' = rrp\<lparr>rrp_current := Some (rrp_next rrp, j), rrp_tried := rr_mark (rrp_tried rrp) j\<rparr>"
    "ps' = qs[j := rr_take now t (qs ! j)]"
    "\<And>k. k < length ps \<Longrightarrow> \<not> skip (rrp_tried rrp) k (ps ! k) \<Longrightarrow> rp_current_weight (qs ! k) \<le> rp_current_weight (qs ! j)"
proof -
  let ?s = "rr_scan (skip (rrp_tried rrp)) 0 ps None 0"
  have q: "fst ?s = qs" "snd (snd ?s) = t" by (simp_all add: qs_def t_def rr_scan_fst rr_scan_total)
  from assms(1) q obtain w where s: "fst (snd ?s) = Some (j, w)"
    and r: "rrp' = rrp\<lparr>rrp_current := Some (rrp_next rrp, j), rrp_tried := rr_mark (rrp_tried rrp) j\<rparr>"
    and p: "ps' = qs[j := rr_take now t (qs ! j)]"
    by (auto simp: rr_choose_def split: prod.splits option.splits)
  from rr_scan_best [OF s] have b: "rr_best (skip (rrp_tried rrp)) 0 ps (j, w)"
    and m: "\<And>k. k < length ps \<Longrightarrow> \<not> skip (rrp_tried rrp) k (ps ! k) \<Longrightarrow> rp_current_weight (qs ! k) \<le> w"
    by (auto simp: qs_def)
  from b show "j < length ps" "\<not> skip (rrp_tried rrp) j (ps ! j)" by (auto simp: rr_best_def)
  from b have "w = rp_current_weight (qs ! j)" by (auto simp: rr_best_def qs_def)
  with m show "\<And>k. k < length ps \<Longrightarrow> \<not> skip (rrp_tried rrp) k (ps ! k) \<Longrightarrow> rp_current_weight (qs ! k) \<le> rp_current_weight (qs ! j)"
    by simp
  show "rrp' = rrp\<lparr>rrp_current := Some (rrp_next rrp, j), rrp_tried := rr_mark (rrp_tried rrp) j\<rparr>"
    "ps' = qs[j := rr_take now t (qs ! j)]" using r p by simp_all
qed

lemma sum_list_update_int:
  "k < length xs \<Longrightarrow> sum_list (xs[k := (x :: int)]) = sum_list xs + x - xs ! k"
  by (induction xs arbitrary: k) (auto split: nat.split)

lemma sum_list_bounded_pos: "0 < sum_list (xs :: int list) \<Longrightarrow> \<forall>x \<in> set xs. x \<le> m \<Longrightarrow> 0 < m"
proof -
  have "sum_list xs \<le> 0" if "\<forall>x \<in> set xs. x \<le> (0 :: int)" for xs using that by (induction xs) auto
  then show "0 < sum_list xs \<Longrightarrow> \<forall>x \<in> set xs. x \<le> m \<Longrightarrow> 0 < m" by (meson leD leI order_trans)
qed

lemma rr_choose_sum:
  assumes "rr_choose skip now rrp ps = (r, rrp', ps')"
  shows "sum_list (map rp_current_weight ps') = sum_list (map rp_current_weight ps)"
proof (cases r)
  case None
  with assms rr_choose_None [of skip now rrp ps rrp' ps'] show ?thesis by simp
next
  case (Some j)
  note c = rr_choose_Some [OF assms [unfolded Some]]
  show ?thesis using c(1)
    by (simp add: c(4) map_update sum_list_update_int rr_weighed_sum)
qed

subsection \<open>Both modules at once\<close>

text \<open>A peer that can take a request.\<close>

definition rr_usable :: "int \<Rightarrow> (ngx_uint_t \<Rightarrow> bool) \<Rightarrow> ngx_http_upstream_rr_peer_t \<Rightarrow> bool" where
  "rr_usable now check_down p \<longleftrightarrow>
     \<not> rp_down p \<and> \<not> check_down (rp_check_index p)
     \<and> \<not> (rp_max_fails p \<noteq> 0 \<and> rp_fails p \<ge> rp_max_fails p \<and> now - rp_checked p \<le> rp_fail_timeout p)
     \<and> \<not> (rp_max_conns p \<noteq> 0 \<and> rp_conns p \<ge> rp_max_conns p)"

text \<open>A usable peer that stays usable while requests are only handed out: its failures are below the limit.\<close>

definition rr_sound :: "(ngx_uint_t \<Rightarrow> bool) \<Rightarrow> ngx_http_upstream_rr_peer_t \<Rightarrow> bool" where
  "rr_sound check_down p \<longleftrightarrow>
     \<not> rp_down p \<and> \<not> check_down (rp_check_index p) \<and> (rp_max_fails p = 0 \<or> rp_fails p < rp_max_fails p)
     \<and> (rp_max_conns p = 0 \<or> rp_conns p < rp_max_conns p)
     \<and> rp_effective_weight p = rp_weight p \<and> 0 \<le> rp_weight p"

lemma rr_sound_usable: "rr_sound check_down p \<Longrightarrow> rr_usable now check_down p"
  by (auto simp: rr_sound_def rr_usable_def)

lemma rr_sound_weigh [simp]: "rr_sound cd (rr_weigh p) = rr_sound cd p" if "rp_effective_weight p = rp_weight p"
  using that by (simp add: rr_sound_def rr_weigh_def)

lemma rr_sound_take [simp]: "rr_sound cd (rr_take now t p) = rr_sound cd p"
  by (simp add: rr_sound_def)

lemma rr_gain_sound:
  "\<forall>p \<in> set ps. rr_sound cd p \<Longrightarrow> (\<And>k. k < length ps \<Longrightarrow> \<not> skip (i + k) (ps ! k)) \<Longrightarrow>
     rr_gain skip i ps = sum_list (map rp_weight ps)"
proof (induction ps arbitrary: i)
  case (Cons p ps)
  from Cons.prems(2) [of 0] have "\<not> skip i p" by simp
  moreover have "rr_gain skip (Suc i) ps = sum_list (map rp_weight ps)"
    using Cons.IH [of "Suc i"] Cons.prems(2) [of "Suc k" for k] Cons.prems(1) by simp
  ultimately show ?case using Cons.prems(1) by (simp add: rr_sound_def)
qed simp

text \<open>Between two rounds with everybody usable: the weights add up to zero and are above minus the total.\<close>

definition rr_balanced :: "int \<Rightarrow> ngx_http_upstream_rr_peer_t list \<Rightarrow> bool" where
  "rr_balanced t ps \<longleftrightarrow> t = sum_list (map rp_weight ps) \<and> sum_list (map rp_current_weight ps) = 0
     \<and> (\<forall>p \<in> set ps. - t < rp_current_weight p)"

text \<open>A series of requests at the given times, each with a fresh state; the positions chosen.\<close>

fun rr_rounds ::
  "(int \<Rightarrow> ngx_http_upstream_rr_peer_data_t \<Rightarrow> ngx_http_upstream_rr_peer_t list
      \<Rightarrow> nat option \<times> ngx_http_upstream_rr_peer_data_t \<times> ngx_http_upstream_rr_peer_t list)
     \<Rightarrow> ngx_http_upstream_rr_peer_data_t \<Rightarrow> int list \<Rightarrow> ngx_http_upstream_rr_peer_t list
     \<Rightarrow> nat list \<times> ngx_http_upstream_rr_peer_t list" where
  "rr_rounds get rrp [] ps = ([], ps)"
| "rr_rounds get rrp (now # nows) ps =
     (case get now rrp ps of
        (Some i, _, ps) \<Rightarrow> map_prod ((#) i) id (rr_rounds get rrp nows ps)
      | (None, _, ps) \<Rightarrow> ([], ps))"

text \<open>The lists of an upstream, and their shape: a single peer is the only one, and the numbers are the lengths.\<close>

definition rr_list :: "bool \<Rightarrow> rr_upstream \<Rightarrow> ngx_http_upstream_rr_peer_t list" where
  "rr_list b up = (if b then (case ru_next up of None \<Rightarrow> [] | Some g \<Rightarrow> rs_peer g) else rs_peer (ru_peers up))"

definition rr_shape :: "ngx_http_upstream_rr_peers_t \<Rightarrow> bool" where
  "rr_shape g \<longleftrightarrow> rs_number g = length (rs_peer g) \<and> (rs_single g \<longrightarrow> length (rs_peer g) = 1)"

definition rr_shaped :: "rr_upstream \<Rightarrow> bool" where
  "rr_shaped up \<longleftrightarrow> rr_shape (ru_peers up) \<and> (\<forall>g. ru_next up = Some g \<longrightarrow> rr_shape g)"

text \<open>A request has taken peer \<open>i\<close>: the weights add up to the same, the effective weights stay within their bounds,
  the peer has one connection more, everything else is kept.\<close>

definition rr_weight_ok :: "ngx_http_upstream_rr_peer_t \<Rightarrow> bool" where
  "rr_weight_ok p \<longleftrightarrow> 0 \<le> rp_effective_weight p \<and> rp_effective_weight p \<le> rp_weight p"

definition rr_static :: "ngx_http_upstream_rr_peer_t \<Rightarrow> ngx_addr_t \<times> string \<times> int \<times> ngx_uint_t \<times> ngx_uint_t \<times> int \<times> ngx_uint_t \<times> bool" where
  "rr_static p = (rp_addr p, rp_server p, rp_weight p, rp_max_conns p, rp_max_fails p, rp_fail_timeout p, rp_check_index p, rp_down p)"

definition rr_took :: "nat \<Rightarrow> ngx_http_upstream_rr_peer_t list \<Rightarrow> ngx_http_upstream_rr_peer_t list \<Rightarrow> bool" where
  "rr_took i ps ps' \<longleftrightarrow> i < length ps \<and> length ps' = length ps
     \<and> sum_list (map rp_current_weight ps') = sum_list (map rp_current_weight ps)
     \<and> (\<forall>k < length ps. rr_static (ps' ! k) = rr_static (ps ! k)
          \<and> (rr_weight_ok (ps ! k) \<longrightarrow> rr_weight_ok (ps' ! k))
          \<and> rp_conns (ps' ! k) = rp_conns (ps ! k) + (if k = i then 1 else 0))"

lemma rr_took_choose:
  assumes "rr_choose skip now rrp ps = (Some i, rrp', qs)"
  shows "rr_took i ps (qs[i := (qs ! i)\<lparr>rp_conns := rp_conns (qs ! i) + 1\<rparr>])"
proof -
  note c = rr_choose_Some [OF assms]
  let ?ws = "rr_weighed (skip (rrp_tried rrp)) 0 ps"
  have w: "rr_weight_ok (?ws ! k)" if "k < length ps" "rr_weight_ok (ps ! k)" for k
    using that by (auto simp: nth_rr_weighed rr_weight_ok_def rr_weigh_def)
  have e: "rr_static (?ws ! k) = rr_static (ps ! k)" "rp_conns (?ws ! k) = rp_conns (ps ! k)" if "k < length ps" for k
    using that by (simp_all add: nth_rr_weighed rr_static_def)
  show ?thesis
    unfolding rr_took_def
  proof (intro conjI allI impI)
    show "i < length ps" by (rule c(1))
    show "length (qs[i := (qs ! i)\<lparr>rp_conns := rp_conns (qs ! i) + 1\<rparr>]) = length ps" by (simp add: c(4))
    show "sum_list (map rp_current_weight (qs[i := (qs ! i)\<lparr>rp_conns := rp_conns (qs ! i) + 1\<rparr>])) = sum_list (map rp_current_weight ps)"
      using rr_choose_sum [OF assms] c(1) by (simp add: map_update sum_list_update_int c(4))
  qed (use c(1) w e in \<open>auto simp: c(4) nth_list_update rr_weight_ok_def rr_static_def\<close>)
qed

text \<open>What a successful \<open>get\<close> does: the peer it takes may be used, and the other list is as before.\<close>

definition rr_got ::
  "int \<Rightarrow> (ngx_uint_t \<Rightarrow> bool) \<Rightarrow> ngx_http_upstream_rr_peer_data_t \<Rightarrow> ngx_http_upstream_rr_peer_data_t \<Rightarrow> nat
     \<Rightarrow> rr_upstream \<Rightarrow> rr_upstream \<Rightarrow> bool" where
  "rr_got now cd rrp rrp' i up up' \<longleftrightarrow>
     (let b = rrp_next rrp'; p = rr_list b up ! i
      in rrp_current rrp' = Some (b, i) \<and> (rrp_next rrp \<longrightarrow> b) \<and> rr_took i (rr_list b up) (rr_list b up')
         \<and> rr_list (\<not> b) up' = rr_list (\<not> b) up \<and> rr_shaped up' \<and> (ru_next up' = None \<longleftrightarrow> ru_next up = None)
         \<and> \<not> rp_down p \<and> \<not> cd (rp_check_index p) \<and> (rp_max_conns p = 0 \<or> rp_conns p < rp_max_conns p)
         \<and> (rr_usable now cd p \<or> length (rr_list b up) = 1)
         \<and> (b = rrp_next rrp \<longrightarrow> \<not> rr_tried (rrp_tried rrp) i \<or> length (rr_list b up) = 1))"

lemma rr_tried_cleared:
  "k < n \<Longrightarrow> \<not> rr_tried (replicate ((n + 63) div 64) 0 @ tried) k"
proof -
  assume "k < n"
  then have "k div 64 < (n + 63) div 64" by linarith
  then show ?thesis by (simp add: rr_tried_def nth_append)
qed

text \<open>What the search over primary and backup servers needs of an attempt on one list.\<close>

locale peer_attempt =
  fixes attempt :: "int \<Rightarrow> (ngx_uint_t \<Rightarrow> bool) \<Rightarrow> ngx_http_upstream_rr_peer_data_t \<Rightarrow> ngx_http_upstream_rr_peers_t
      \<Rightarrow> nat option \<times> ngx_http_upstream_rr_peer_data_t \<times> ngx_http_upstream_rr_peers_t"
  assumes attempt_none: "attempt now cd rrp g = (None, rrp', g') \<Longrightarrow> rr_shape g \<Longrightarrow>
      rrp' = rrp \<and> g' = g \<and> (\<forall>k < length (rs_peer g). rr_tried (rrp_tried rrp) k \<or> \<not> rr_usable now cd (rs_peer g ! k))"
    and attempt_some: "attempt now cd rrp g = (Some i, rrp', g') \<Longrightarrow> rr_shape g \<Longrightarrow>
      rr_took i (rs_peer g) (rs_peer g') \<and> rr_shape g'
      \<and> rrp_current rrp' = Some (rrp_next rrp, i) \<and> rrp_next rrp' = rrp_next rrp
      \<and> \<not> rp_down (rs_peer g ! i) \<and> \<not> cd (rp_check_index (rs_peer g ! i))
      \<and> (rp_max_conns (rs_peer g ! i) = 0 \<or> rp_conns (rs_peer g ! i) < rp_max_conns (rs_peer g ! i))
      \<and> (rs_single g \<or> rr_usable now cd (rs_peer g ! i) \<and> \<not> rr_tried (rrp_tried rrp) i)"
begin

lemma backup_cases:
  assumes "rr_get_backup (attempt now cd) pc rrp up = Some (rc, pc', rrp', up')" "rrp_next rrp" "rr_shaped up"
  shows "(rc = NGX_BUSY \<and> up' = up
      \<and> (\<forall>k < length (rr_list True up). rr_tried (rrp_tried rrp) k \<or> \<not> rr_usable now cd (rr_list True up ! k)))
    \<or> (rc = NGX_OK \<and> (\<exists>i. rr_got now cd rrp rrp' i up up' \<and> pc' = rr_found (rr_list (rrp_next rrp') up ! i) pc))"
proof -
  from assms(1) obtain b where b: "ru_next up = Some b" by (auto simp: rr_get_backup_def split: option.splits)
  obtain r rrp2 b2 where a: "attempt now cd rrp b = (r, rrp2, b2)"
    by (cases "attempt now cd rrp b")
  have s: "rr_shape b" using assms(3) b by (simp add: rr_shaped_def)
  show ?thesis
  proof (cases r)
    case None
    from attempt_none [OF a [unfolded None] s] assms(1) a b None show ?thesis by (auto simp: rr_get_backup_def rr_list_def)
  next
    case (Some i)
    note t = attempt_some [OF a [unfolded Some] s]
    from assms(1) a b Some have e: "rc = NGX_OK" "pc' = rr_found (rs_peer b2 ! i) pc" "rrp' = rrp2" "up' = up\<lparr>ru_next := Some b2\<rparr>"
      by (auto simp: rr_get_backup_def)
    have "rr_got now cd rrp rrp' i up up'"
      using t b s assms(2,3) by (auto simp: e rr_got_def rr_list_def rr_shaped_def rr_shape_def)
    moreover have "pc' = rr_found (rr_list (rrp_next rrp') up ! i) pc"
      using t b assms(2) by (simp add: e rr_found_def rr_list_def rr_took_def rr_static_def)
    ultimately show ?thesis using e(1) by blast
  qed
qed

lemma get_cases:
  assumes "rr_get (attempt now cd) pc rrp up = Some (rc, pc', rrp', up')" "rr_shaped up"
  shows "(rc = NGX_BUSY \<and> up' = up
      \<and> (\<not> rrp_next rrp \<longrightarrow> (\<forall>k < length (rr_list False up). rr_tried (rrp_tried rrp) k \<or> \<not> rr_usable now cd (rr_list False up ! k))
          \<and> (\<forall>k < length (rr_list True up). \<not> rr_usable now cd (rr_list True up ! k))))
    \<or> (rc = NGX_OK \<and> (\<exists>i. rr_got now cd rrp rrp' i up up' \<and> pc' = rr_found (rr_list (rrp_next rrp') up ! i) pc))"
proof (cases "rrp_next rrp")
  case True
  with assms(1) backup_cases [OF _ True assms(2)] show ?thesis by (simp add: rr_get_def) blast
next
  case False
  obtain r rrp2 g where a: "attempt now cd rrp (ru_peers up) = (r, rrp2, g)"
    by (cases "attempt now cd rrp (ru_peers up)")
  have s: "rr_shape (ru_peers up)" using assms(2) by (simp add: rr_shaped_def)
  show ?thesis
  proof (cases r)
    case (Some i)
    note t = attempt_some [OF a [unfolded Some] s]
    from assms(1) a Some False have e: "rc = NGX_OK" "pc' = rr_found (rs_peer g ! i) pc" "rrp' = rrp2" "up' = up\<lparr>ru_peers := g\<rparr>"
      by (auto simp: rr_get_def)
    have "rr_got now cd rrp rrp' i up up'"
      using t s False assms(2) by (auto simp: e rr_got_def rr_list_def rr_shaped_def rr_shape_def)
    moreover have "pc' = rr_found (rr_list (rrp_next rrp') up ! i) pc"
      using t False by (simp add: e rr_found_def rr_list_def rr_took_def rr_static_def)
    ultimately show ?thesis using e(1) by blast
  next
    case None
    note t = attempt_none [OF a [unfolded None] s]
    show ?thesis
    proof (cases "ru_next up")
      case None
      with assms(1) a t \<open>r = None\<close> False show ?thesis by (auto simp: rr_get_def rr_list_def)
    next
      case (Some b)
      let ?n = "(rs_number b + 63) div 64"
      let ?rrp = "rrp\<lparr>rrp_next := True, rrp_tried := replicate ?n 0 @ drop ?n (rrp_tried rrp)\<rparr>"
      from assms(1) a t \<open>r = None\<close> False Some obtain rc2 pc2 where
        g: "rr_get_backup (attempt now cd) pc ?rrp up = Some (rc2, pc2, rrp', up')"
        and rc: "rc = rc2" "rc2 \<noteq> NGX_BUSY \<longrightarrow> pc' = pc2"
        by (auto simp: rr_get_def Let_def split: option.splits if_splits)
      have l: "length (rr_list True up) = rs_number b" using assms(2) Some by (simp add: rr_shaped_def rr_shape_def rr_list_def)
      have f: "\<not> rr_tried (rrp_tried ?rrp) k" if "k < length (rr_list True up)" for k
        using that unfolding l by (simp add: rr_tried_cleared)
      have got: "rr_got now cd ?rrp rrp' i up up' \<Longrightarrow> rr_got now cd rrp rrp' i up up'" for i
        using False by (auto simp: rr_got_def Let_def)
      have p: "\<forall>k < length (rr_list False up). rr_tried (rrp_tried rrp) k \<or> \<not> rr_usable now cd (rr_list False up ! k)"
        using t by (simp add: rr_list_def)
      have "rrp_next ?rrp" by simp
      from backup_cases [OF g this assms(2)] show ?thesis
        using f rc p got by (metis ngx_rc.distinct(5))
    qed
  qed
qed

lemma primary_attempt:
  assumes "rr_get (attempt now cd) pc rrp up = Some (NGX_OK, pc', rrp', up')" "\<not> rrp_next rrp" "rr_shaped up"
    and "rrp_current rrp' = Some (False, i)"
  shows "\<exists>rrp2 g. attempt now cd rrp (ru_peers up) = (Some i, rrp2, g)"
proof -
  obtain x rrp2 g where a: "attempt now cd rrp (ru_peers up) = (x, rrp2, g)" by (cases "attempt now cd rrp (ru_peers up)")
  have s: "rr_shape (ru_peers up)" using assms(3) by (simp add: rr_shaped_def)
  have "x = Some i"
  proof (cases x)
    case None
    note t = attempt_none [OF a [unfolded None] s]
    from assms(1,2) a None t obtain b where n: "ru_next up = Some b" by (auto simp: rr_get_def split: option.splits)
    let ?rrp = "rrp\<lparr>rrp_next := True,
        rrp_tried := replicate ((rs_number b + 63) div 64) 0 @ drop ((rs_number b + 63) div 64) (rrp_tried rrp)\<rparr>"
    have b: "rrp_next ?rrp" "rr_get_backup (attempt now cd) pc ?rrp up = Some (NGX_OK, pc', rrp', up')"
      using assms(1,2) a None t n by (simp_all add: rr_get_def Let_def split: option.splits prod.splits if_splits)
    from backup_cases [OF b(2,1) assms(3)] b(1) assms(4) show ?thesis by (auto simp: rr_got_def Let_def)
  next
    case (Some j)
    with assms(1,2) a have "rrp' = rrp2" by (simp add: rr_get_def)
    with attempt_some [OF a [unfolded Some] s] assms(4) Some show ?thesis by simp
  qed
  with a show ?thesis by blast
qed

end

text \<open>What the choice needs of a module's conditions.\<close>

locale rr_filter =
  fixes skip :: "int \<Rightarrow> (ngx_uint_t \<Rightarrow> bool) \<Rightarrow> 64 word list \<Rightarrow> nat \<Rightarrow> ngx_http_upstream_rr_peer_t \<Rightarrow> bool"
  assumes skip_iff: "skip now check_down tried i p \<longleftrightarrow> rr_tried tried i \<or> \<not> rr_usable now check_down p"
begin

lemma choose_usable:
  assumes "rr_choose (skip now cd) now rrp ps = (Some j, rrp', ps')"
  shows "j < length ps \<and> rr_usable now cd (ps ! j) \<and> \<not> rr_tried (rrp_tried rrp) j"
  using rr_choose_Some(1,2) [OF assms] by (simp add: skip_iff)

lemma choose_none:
  assumes "rr_choose (skip now cd) now rrp ps = (None, rrp', ps')" "k < length ps"
  shows "rr_tried (rrp_tried rrp) k \<or> \<not> rr_usable now cd (ps ! k)"
  using rr_choose_None [OF assms(1)] assms(2) by (simp add: skip_iff)

lemma rr_attempt_none:
  assumes "rr_attempt (rr_choose (skip now cd) now) cd rrp g = (None, rrp', g')" "rr_shape g"
  shows "rrp' = rrp \<and> g' = g \<and> (\<forall>k < length (rs_peer g). rr_tried (rrp_tried rrp) k \<or> \<not> rr_usable now cd (rs_peer g ! k))"
proof (cases "rs_single g")
  case True
  with assms show ?thesis
    by (auto simp: rr_attempt_def rr_shape_def rr_usable_def Let_def split: if_splits)
next
  case False
  obtain r rrp2 ps where c: "rr_choose (skip now cd) now rrp (rs_peer g) = (r, rrp2, ps)" by (cases "rr_choose (skip now cd) now rrp (rs_peer g)")
  with False assms(1) have r: "r = None" "rrp' = rrp2" "g' = g\<lparr>rs_peer := ps\<rparr>"
    by (auto simp: rr_attempt_def split: option.splits)
  from rr_choose_None [OF c [unfolded r(1)]] r choose_none [OF c [unfolded r(1)]] show ?thesis by auto
qed

lemma rr_attempt_some:
  assumes "rr_attempt (rr_choose (skip now cd) now) cd rrp g = (Some i, rrp', g')" "rr_shape g"
  shows "rr_took i (rs_peer g) (rs_peer g') \<and> rr_shape g'
    \<and> rrp_current rrp' = Some (rrp_next rrp, i) \<and> rrp_next rrp' = rrp_next rrp
    \<and> \<not> rp_down (rs_peer g ! i) \<and> \<not> cd (rp_check_index (rs_peer g ! i))
    \<and> (rp_max_conns (rs_peer g ! i) = 0 \<or> rp_conns (rs_peer g ! i) < rp_max_conns (rs_peer g ! i))
    \<and> (rs_single g \<or> rr_usable now cd (rs_peer g ! i) \<and> \<not> rr_tried (rrp_tried rrp) i)"
proof (cases "rs_single g")
  case True
  then have l: "length (rs_peer g) = 1" using assms(2) by (simp add: rr_shape_def)
  with True assms show ?thesis
    by (auto simp: rr_attempt_def rr_shape_def rr_took_def rr_weight_ok_def rr_static_def Let_def nth_list_update map_update sum_list_update_int split: if_splits)
next
  case False
  obtain r rrp2 ps where c: "rr_choose (skip now cd) now rrp (rs_peer g) = (r, rrp2, ps)" by (cases "rr_choose (skip now cd) now rrp (rs_peer g)")
  with False assms(1) have r: "r = Some i" "rrp' = rrp2" "g' = g\<lparr>rs_peer := ps[i := (ps ! i)\<lparr>rp_conns := rp_conns (ps ! i) + 1\<rparr>]\<rparr>"
    by (auto simp: rr_attempt_def split: option.splits)
  note ch = rr_choose_Some [OF c [unfolded r(1)]]
  have u: "rr_usable now cd (rs_peer g ! i)" "\<not> rr_tried (rrp_tried rrp) i" using choose_usable [OF c [unfolded r(1)]] by auto
  have "rr_took i (rs_peer g) (rs_peer g')"
    unfolding r(3) using rr_took_choose [OF c [unfolded r(1)]] by simp
  then show ?thesis using u False assms(2) ch(3) r by (auto simp: rr_usable_def rr_shape_def rr_took_def)
qed

lemma round_balanced:
  assumes sound: "\<forall>p \<in> set ps. rr_sound cd p" and bal: "rr_balanced t ps" "0 < t"
    and fresh: "\<And>k. k < length ps \<Longrightarrow> \<not> rr_tried (rrp_tried rrp) k"
  shows "\<exists>j rrp' ps'. rr_choose (skip now cd) now rrp ps = (Some j, rrp', ps') \<and> j < length ps
    \<and> (\<forall>p \<in> set ps'. rr_sound cd p) \<and> rr_balanced t ps' \<and> map rp_weight ps' = map rp_weight ps
    \<and> (\<forall>k < length ps. rp_current_weight (ps' ! k)
          = rp_current_weight (ps ! k) + rp_weight (ps ! k) - (if k = j then t else 0))"
proof -
  have ns: "\<not> skip now cd (rrp_tried rrp) k (ps ! k)" if "k < length ps" for k
    using sound that fresh [OF that] rr_sound_usable by (auto simp: skip_iff)
  then have gain: "rr_gain (skip now cd (rrp_tried rrp)) 0 ps = t"
    using rr_gain_sound [OF sound, of "skip now cd (rrp_tried rrp)" 0] bal(1) by (simp add: rr_balanced_def)
  obtain j rrp' ps' where c: "rr_choose (skip now cd) now rrp ps = (Some j, rrp', ps')"
  proof (cases "rr_choose (skip now cd) now rrp ps")
    case (fields r rrp' ps')
    have "ps \<noteq> []" using bal by (auto simp: rr_balanced_def)
    then have "r \<noteq> None" using rr_choose_None [of "skip now cd" now rrp ps rrp' ps'] fields ns [of 0] by auto
    with fields that show ?thesis by blast
  qed
  note r = rr_choose_Some [OF c]
  let ?qs = "rr_weighed (skip now cd (rrp_tried rrp)) 0 ps"
  have q: "?qs ! k = rr_weigh (ps ! k)" if "k < length ps" for k using that ns by (simp add: nth_rr_weighed)
  have eff: "rp_effective_weight (ps ! k) = rp_weight (ps ! k)" "0 \<le> rp_weight (ps ! k)" if "k < length ps" for k
    using sound that by (auto simp: rr_sound_def)
  have cur: "rp_current_weight (ps' ! k) = rp_current_weight (ps ! k) + rp_weight (ps ! k) - (if k = j then t else 0)"
    if "k < length ps" for k
    using that r(1) by (simp add: r(4) gain q eff nth_list_update)
  have len: "length ps' = length ps" by (simp add: r(4))
  have pos: "0 < rp_current_weight (?qs ! j)"
  proof (rule sum_list_bounded_pos)
    show "0 < sum_list (map rp_current_weight ?qs)" using bal gain by (simp add: rr_weighed_sum rr_balanced_def)
    show "\<forall>x \<in> set (map rp_current_weight ?qs). x \<le> rp_current_weight (?qs ! j)"
      using r(5) ns by (auto simp: in_set_conv_nth)
  qed
  have low: "- t < rp_current_weight (ps' ! k)" if "k < length ps" for k
  proof (cases "k = j")
    case True
    then show ?thesis using pos cur [OF r(1)] by (simp add: q [OF r(1)] eff [OF r(1)])
  next
    case False
    have "- t < rp_current_weight (ps ! k)" using bal(1) nth_mem [OF that] by (auto simp: rr_balanced_def)
    then show ?thesis using cur [OF that] False eff(2) [OF that] by simp
  qed
  have wt: "map rp_weight ps' = map rp_weight ps"
    by (rule nth_equalityI) (use r(1) q in \<open>auto simp: r(4) nth_list_update\<close>)
  have sd: "\<forall>p \<in> set ps'. rr_sound cd p"
    unfolding all_set_conv_all_nth using r(1) q nth_mem [THEN sound [rule_format]] eff
    by (simp add: r(4) nth_list_update)
  have "rr_balanced t ps'"
    using bal(1) rr_choose_sum [OF c] low wt by (auto simp: rr_balanced_def in_set_conv_nth len)
  then show ?thesis using c r(1) sd wt cur by blast
qed

lemma rounds_balanced:
  assumes "\<forall>p \<in> set ps. rr_sound cd p" "rr_balanced t ps" "0 < t"
    and "\<And>k. k < length ps \<Longrightarrow> \<not> rr_tried (rrp_tried rrp) k"
    and "rr_rounds (\<lambda>now. rr_choose (skip now cd) now) rrp nows ps = (picks, ps')"
  shows "length picks = length nows \<and> rr_balanced t ps' \<and> map rp_weight ps' = map rp_weight ps
    \<and> set picks \<subseteq> {..<length ps}
    \<and> (\<forall>k < length ps. rp_current_weight (ps' ! k)
          = rp_current_weight (ps ! k) + int (length nows) * rp_weight (ps ! k) - t * int (count_list picks k))"
  using assms
proof (induction nows arbitrary: ps picks)
  case (Cons now nows)
  from round_balanced [OF Cons.prems(1-4), where now = now]
  obtain j rrp' qs where c: "rr_choose (skip now cd) now rrp ps = (Some j, rrp', qs)" "j < length ps"
    and s: "\<forall>p \<in> set qs. rr_sound cd p" "rr_balanced t qs" and w: "map rp_weight qs = map rp_weight ps"
    and cur: "\<forall>k < length ps. rp_current_weight (qs ! k)
          = rp_current_weight (ps ! k) + rp_weight (ps ! k) - (if k = j then t else 0)" by blast
  from w have len: "length qs = length ps" by (metis length_map)
  obtain picks' where r: "rr_rounds (\<lambda>now. rr_choose (skip now cd) now) rrp nows qs = (picks', ps')" "picks = j # picks'"
    using Cons.prems(5) c(1) by (cases "rr_rounds (\<lambda>now. rr_choose (skip now cd) now) rrp nows qs") auto
  have wk: "rp_weight (qs ! k) = rp_weight (ps ! k)" if "k < length ps" for k
    using that len w by (metis nth_map)
  from Cons.IH [OF s Cons.prems(3) _ r(1)] Cons.prems(4) len
  have ih: "length picks' = length nows" "rr_balanced t ps'" "map rp_weight ps' = map rp_weight qs" "set picks' \<subseteq> {..<length ps}"
    "\<forall>k < length ps. rp_current_weight (ps' ! k)
          = rp_current_weight (qs ! k) + int (length nows) * rp_weight (qs ! k) - t * int (count_list picks' k)" by auto
  show ?case using ih w c(2) by (auto simp: r(2) cur wk algebra_simps)
qed simp

lemma rounds_fair:
  assumes "\<forall>p \<in> set ps. rr_sound cd p \<and> rp_current_weight p = 0"
    and "\<And>k. k < length ps \<Longrightarrow> \<not> rr_tried (rrp_tried rrp) k"
    and "int (length nows) = sum_list (map rp_weight ps)" "nows \<noteq> []"
    and "rr_rounds (\<lambda>now. rr_choose (skip now cd) now) rrp nows ps = (picks, ps')" "k < length ps"
  shows "int (count_list picks k) = rp_weight (ps ! k) \<and> rp_current_weight (ps' ! k) = 0"
proof -
  let ?t = "int (length nows)"
  have t: "0 < ?t" using assms(4) by simp
  have z: "sum_list (map rp_current_weight ps) = 0" using assms(1) by (simp add: sum_list_0 cong: map_cong)
  have "rr_balanced ?t ps"
    unfolding rr_balanced_def z using assms(1,3) t by auto
  from rounds_balanced [OF _ this t assms(2) assms(5)] assms(1)
  have r: "length picks = length nows" "rr_balanced ?t ps'" "map rp_weight ps' = map rp_weight ps" "set picks \<subseteq> {..<length ps}"
    and cur: "\<And>k. k < length ps \<Longrightarrow> rp_current_weight (ps' ! k) = ?t * (rp_weight (ps ! k) - int (count_list picks k))"
    by (auto simp: algebra_simps)
  have len: "length ps' = length ps" using r(3) by (metis length_map)
  have le: "int (count_list picks k) \<le> rp_weight (ps ! k)" if "k < length ps" for k
  proof -
    have "- ?t < ?t * (rp_weight (ps ! k) - int (count_list picks k))"
      using r(2) that cur [OF that] len nth_mem [of k ps'] unfolding rr_balanced_def by metis
    then have "?t * (int (count_list picks k) - rp_weight (ps ! k)) < ?t * 1" by (simp add: algebra_simps)
    then show ?thesis using t by (simp only: mult_less_cancel_left_pos)
  qed
  have "(\<Sum>k < length ps. rp_weight (ps ! k) - int (count_list picks k)) = 0"
  proof -
    have "(\<Sum>k < length ps. int (count_list picks k)) = ?t"
      using r(1,4) sum_count_set [of picks "{..<length ps}"] by (simp flip: of_nat_sum)
    moreover have "(\<Sum>k < length ps. rp_weight (ps ! k)) = ?t"
      using assms(3) by (simp add: sum_list_sum_nth atLeast0LessThan)
    ultimately show ?thesis by (simp add: sum_subtractf)
  qed
  then have "\<forall>k \<in> {..<length ps}. rp_weight (ps ! k) - int (count_list picks k) = 0"
    by (subst (asm) sum_nonneg_eq_0_iff) (use le in auto)
  with assms(6) cur show ?thesis by simp
qed

end

sublocale rr_filter \<subseteq> peer_attempt "\<lambda>now cd. rr_attempt (rr_choose (skip now cd) now) cd"
  by unfold_locales (blast intro: rr_attempt_none rr_attempt_some dest: rr_attempt_none rr_attempt_some)+

interpretation http_rr: rr_filter http_rr_skip
  by unfold_locales (auto simp: http_rr_skip_def rr_usable_def)

interpretation stream_rr: rr_filter stream_rr_skip
  by unfold_locales (auto simp: stream_rr_skip_def rr_usable_def)

lemma http_get_eq:
  "ngx_http_upstream_get_round_robin_peer now cd pc rrp up
     = rr_get (rr_attempt (rr_choose (http_rr_skip now cd) now) cd) (pc\<lparr>pc_cached := False\<rparr>) rrp up"
proof -
  have "ngx_http_upstream_get_peer now cd = rr_choose (http_rr_skip now cd) now"
    by (intro ext) (simp add: ngx_http_upstream_get_peer_def)
  then show ?thesis by (simp add: ngx_http_upstream_get_round_robin_peer_def)
qed

lemma stream_get_eq:
  "ngx_stream_upstream_get_round_robin_peer now cd pc rrp up
     = rr_get (rr_attempt (rr_choose (stream_rr_skip now cd) now) cd) pc rrp up"
proof -
  have "ngx_stream_upstream_get_peer now cd = rr_choose (stream_rr_skip now cd) now"
    by (intro ext) (simp add: ngx_stream_upstream_get_peer_def)
  then show ?thesis by (simp add: ngx_stream_upstream_get_round_robin_peer_def)
qed

lemma rr_get_total: "\<not> rrp_next rrp \<Longrightarrow> \<exists>rc pc' rrp' up'. rr_get attempt pc rrp up = Some (rc, pc', rrp', up')"
  by (auto simp: rr_get_def rr_get_backup_def Let_def split: prod.splits option.splits)

subsection \<open>Samples\<close>

definition sample_backup :: ngx_addr_t where
  "sample_backup = \<lparr>a_sockaddr = sockaddr_in 3306 [CHR 0x0A, NUL, NUL, CHR 0x02], a_name = ''10.0.0.2:3306''\<rparr>"

definition sample_sv :: "bool \<Rightarrow> ngx_addr_t \<Rightarrow> ngx_http_upstream_server_t" where
  "sample_sv backup addr =
     \<lparr>sv_name = ''db'', sv_addrs = [addr], sv_weight = 1, sv_max_conns = 0, sv_max_fails = 1, sv_fail_timeout = 10,
      sv_backup = backup, sv_down = False\<rparr>"

definition sample_rrp :: ngx_http_upstream_rr_peer_data_t where
  "sample_rrp = \<lparr>rrp_config = 0, rrp_next = False, rrp_current = None, rrp_tried = [0]\<rparr>"

definition sample_pc :: rr_pc where
  "sample_pc = \<lparr>pc_sockaddr = [], pc_name = [], pc_tries = 2, pc_cached = False\<rparr>"

end
