(* ===== verification/Rr_Requests.thy ===== *)
theory Rr_Requests
  imports Round_Robin
begin

text \<open>
  Requests on an upstream with weighted round robin: what stays true while they take and give back peers, from
  the configuration on, and what the health checks decide.
\<close>

subsection \<open>Requests coming and going\<close>

text \<open>The upstream of one process and the requests that hold a peer of it. A request asks with any state \<open>rrp\<close>
  that points to existing servers, at any time and for any outcome of the checks; one that holds a peer gives it
  back once, and the stream module may note that its connection is established.\<close>

inductive rr_reach :: "rr_upstream \<Rightarrow> rr_upstream \<Rightarrow> ngx_http_upstream_rr_peer_data_t list \<Rightarrow> bool"
  for up0 :: rr_upstream where
  start: "rr_reach up0 up0 []"
| get: "rr_reach up0 up reqs \<Longrightarrow> (rrp_next rrp \<longrightarrow> ru_next up \<noteq> None) \<Longrightarrow>
     ngx_http_upstream_get_round_robin_peer now cd pc rrp up = Some (NGX_OK, pc', rrp', up') \<Longrightarrow> rr_reach up0 up' (rrp' # reqs)"
| busy: "rr_reach up0 up reqs \<Longrightarrow>
     ngx_http_upstream_get_round_robin_peer now cd pc rrp up = Some (NGX_BUSY, pc', rrp', up') \<Longrightarrow> rr_reach up0 up' reqs"
| stream_get: "rr_reach up0 up reqs \<Longrightarrow> (rrp_next rrp \<longrightarrow> ru_next up \<noteq> None) \<Longrightarrow>
     ngx_stream_upstream_get_round_robin_peer now cd pc rrp up = Some (NGX_OK, pc', rrp', up') \<Longrightarrow> rr_reach up0 up' (rrp' # reqs)"
| stream_busy: "rr_reach up0 up reqs \<Longrightarrow>
     ngx_stream_upstream_get_round_robin_peer now cd pc rrp up = Some (NGX_BUSY, pc', rrp', up') \<Longrightarrow> rr_reach up0 up' reqs"
| free: "rr_reach up0 up (xs @ rrp # ys) \<Longrightarrow>
     ngx_http_upstream_free_round_robin_peer now failed pc rrp up = Some (pc', up') \<Longrightarrow> rr_reach up0 up' (xs @ ys)"
| stream_free: "rr_reach up0 up (xs @ rrp # ys) \<Longrightarrow>
     ngx_stream_upstream_free_round_robin_peer now failed pc rrp up = Some (pc', up') \<Longrightarrow> rr_reach up0 up' (xs @ ys)"
| notify: "rr_reach up0 up reqs \<Longrightarrow> rrp \<in> set reqs \<Longrightarrow>
     ngx_stream_upstream_notify_round_robin_peer connected ty rrp up = Some up' \<Longrightarrow> rr_reach up0 up' reqs"

text \<open>The bookkeeping: connections are the requests that hold the peer, weights add up to zero.\<close>

definition rr_held :: "ngx_http_upstream_rr_peer_data_t list \<Rightarrow> bool \<times> nat \<Rightarrow> nat" where
  "rr_held reqs x = length (filter (\<lambda>rrp. rrp_current rrp = Some x) reqs)"

definition rr_accounts :: "rr_upstream \<Rightarrow> rr_upstream \<Rightarrow> ngx_http_upstream_rr_peer_data_t list \<Rightarrow> bool" where
  "rr_accounts up0 up reqs \<longleftrightarrow> rr_shaped up
     \<and> (\<forall>rrp \<in> set reqs. \<exists>i. rrp_current rrp = Some (rrp_next rrp, i) \<and> i < length (rr_list (rrp_next rrp) up))
     \<and> (\<forall>b. map rr_static (rr_list b up) = map rr_static (rr_list b up0)
          \<and> sum_list (map rp_current_weight (rr_list b up)) = 0
          \<and> (\<forall>k < length (rr_list b up). rr_weight_ok (rr_list b up ! k)
               \<and> rp_conns (rr_list b up ! k) = of_nat (rr_held reqs (b, k))))"

lemma rr_held_simps [simp]:
  "rr_held [] x = 0" "rr_held (xs @ ys) x = rr_held xs x + rr_held ys x"
  "rr_held (rrp # ys) x = (if rrp_current rrp = Some x then 1 else 0) + rr_held ys x"
  by (simp_all add: rr_held_def)

lemma accounts_shaped: "rr_accounts up0 up reqs \<Longrightarrow> rr_shaped up"
  by (simp add: rr_accounts_def)

lemma accounts_got:
  assumes "rr_accounts up0 up reqs" "rr_got now cd rrp rrp' i up up'"
  shows "rr_accounts up0 up' (rrp' # reqs)"
proof -
  from assms(2) have c: "rrp_current rrp' = Some (rrp_next rrp', i)"
    and t: "rr_took i (rr_list (rrp_next rrp') up) (rr_list (rrp_next rrp') up')"
    and o: "rr_list (\<not> rrp_next rrp') up' = rr_list (\<not> rrp_next rrp') up" and s: "rr_shaped up'"
    by (auto simp: rr_got_def Let_def)
  have st: "map rr_static (rr_list b up') = map rr_static (rr_list b up)" for b
    using t o by (cases "b = rrp_next rrp'") (auto simp: rr_took_def intro!: nth_equalityI)
  then have len: "length (rr_list b up') = length (rr_list b up)" for b by (metis length_map)
  have "sum_list (map rp_current_weight (rr_list b up')) = 0
     \<and> (\<forall>k < length (rr_list b up'). rr_weight_ok (rr_list b up' ! k)
          \<and> rp_conns (rr_list b up' ! k) = of_nat (rr_held (rrp' # reqs) (b, k)))" for b
    using assms(1) t o c unfolding len
    by (cases "b = rrp_next rrp'") (auto simp: rr_took_def rr_accounts_def)
  then show ?thesis using assms(1) s c t unfolding rr_accounts_def len st by (auto simp: rr_took_def)
qed

text \<open>An operation on the peer of a request that keeps its weights.\<close>

lemma on_current:
  assumes "rr_on_current f rrp up = Some up'" "rr_shaped up"
  obtains b i where "rrp_current rrp = Some (b, i)" "i < length (rr_list b up)"
    "rr_list b up' = (rr_list b up)[i := f (rr_list b up ! i)]" "rr_list (\<not> b) up' = rr_list (\<not> b) up" "rr_shaped up'"
proof -
  from assms(1) obtain b i where c: "rrp_current rrp = Some (b, i)"
    by (auto simp: rr_on_current_def split: option.splits)
  show ?thesis
    by (rule that [OF c]; use assms c in \<open>cases b\<close>)
      (auto simp: rr_on_current_def rr_list_def rr_shaped_def rr_shape_def Let_def split: option.splits if_splits)
qed

definition rr_modest :: "(ngx_http_upstream_rr_peer_t \<Rightarrow> ngx_http_upstream_rr_peer_t) \<Rightarrow> bool" where
  "rr_modest f \<longleftrightarrow> (\<forall>p. rr_static (f p) = rr_static p \<and> rp_current_weight (f p) = rp_current_weight p
     \<and> (rr_weight_ok p \<longrightarrow> rr_weight_ok (f p)))"

lemma modest_alive: "rr_modest rr_alive"
  by (simp add: rr_modest_def rr_alive_def rr_static_def rr_weight_ok_def)

lemma modest_leave:
  assumes "rr_modest f"
  shows "rr_modest (\<lambda>p. (f p)\<lparr>rp_conns := rp_conns (f p) - 1\<rparr>)"
  unfolding rr_modest_def
proof
  fix p
  from assms have "rr_static (f p) = rr_static p \<and> rp_current_weight (f p) = rp_current_weight p
     \<and> (rr_weight_ok p \<longrightarrow> rr_weight_ok (f p))" unfolding rr_modest_def by blast
  then show "rr_static ((f p)\<lparr>rp_conns := rp_conns (f p) - 1\<rparr>) = rr_static p
      \<and> rp_current_weight ((f p)\<lparr>rp_conns := rp_conns (f p) - 1\<rparr>) = rp_current_weight p
      \<and> (rr_weight_ok p \<longrightarrow> rr_weight_ok ((f p)\<lparr>rp_conns := rp_conns (f p) - 1\<rparr>))"
    by (auto simp: rr_static_def rr_weight_ok_def)
qed

lemma modest_failed: "rr_modest (rr_failed now)"
proof -
  have "rr_weight_ok (rr_failed now p)" if "rr_weight_ok p" for p
  proof -
    have "0 \<le> rp_weight p div int (unat (rp_max_fails p))" if "rp_max_fails p \<noteq> 0"
      using \<open>rr_weight_ok p\<close> by (intro div_int_pos_iff [THEN iffD2]) (auto simp: rr_weight_ok_def)
    then show ?thesis using that unfolding rr_weight_ok_def rr_failed_def Let_def by auto
  qed
  then show ?thesis by (simp add: rr_modest_def rr_failed_def rr_static_def Let_def)
qed

lemma accounts_on_current:
  assumes acc: "rr_accounts up0 up reqs" and f: "rr_on_current f rrp up = Some up'" "rr_modest f"
    and d: "\<And>p. rp_conns (f p) = rp_conns p - d"
    and sub: "set reqs' \<subseteq> set reqs"
    and held: "\<And>x. of_nat (rr_held reqs' x) = of_nat (rr_held reqs x) - (if rrp_current rrp = Some x then d else 0)"
  shows "rr_accounts up0 up' reqs'"
proof -
  from on_current [OF f(1) accounts_shaped [OF acc]] obtain b i
    where c: "rrp_current rrp = Some (b, i)" "i < length (rr_list b up)"
    and l: "rr_list b up' = (rr_list b up)[i := f (rr_list b up ! i)]" "rr_list (\<not> b) up' = rr_list (\<not> b) up" "rr_shaped up'" .
  have st: "map rr_static (rr_list a up') = map rr_static (rr_list a up)" for a
    using l(1,2) c f(2) by (cases "a = b") (simp_all add: rr_modest_def map_update list_update_same_conv)
  then have len: "length (rr_list a up') = length (rr_list a up)" for a by (metis length_map)
  have sum: "sum_list (map rp_current_weight (rr_list a up')) = sum_list (map rp_current_weight (rr_list a up))" for a
    using l(1,2) c f(2) by (cases "a = b") (simp_all add: rr_modest_def map_update sum_list_update_int)
  have nth: "rr_list a up' ! k = (if (a, k) = (b, i) then f (rr_list a up ! k) else rr_list a up ! k)"
    if "k < length (rr_list a up)" for a k
    using l(1,2) c(2) that by (cases "a = b") (auto simp: nth_list_update)
  show ?thesis
    unfolding rr_accounts_def len st sum
  proof (intro conjI allI impI)
    show "\<forall>rrp\<in>set reqs'. \<exists>i. rrp_current rrp = Some (rrp_next rrp, i) \<and> i < length (rr_list (rrp_next rrp) up)"
      using acc sub by (auto simp: rr_accounts_def)
    fix a k assume k: "k < length (rr_list a up)"
    have o: "rr_weight_ok (rr_list a up ! k)" "rp_conns (rr_list a up ! k) = of_nat (rr_held reqs (a, k))"
      using acc k by (simp_all add: rr_accounts_def)
    show "rr_weight_ok (rr_list a up' ! k)" using o(1) f(2) nth [OF k] by (cases "(a, k) = (b, i)") (auto simp: rr_modest_def)
    show "rp_conns (rr_list a up' ! k) = of_nat (rr_held reqs' (a, k))"
    proof (cases "(a, k) = (b, i)")
      case True
      then have "rr_list a up' ! k = f (rr_list a up ! k)" using nth [OF k] by simp
      then show ?thesis using True d o(2) held c(1) by simp
    next
      case False
      then have "rr_list a up' ! k = rr_list a up ! k" "rrp_current rrp \<noteq> Some (a, k)" using nth [OF k] c(1) by auto
      then show ?thesis using o(2) held by simp
    qed
  qed (use l(3) acc in \<open>auto simp: rr_accounts_def\<close>)
qed

lemma accounts_free:
  assumes "rr_accounts up0 up (xs @ rrp # ys)" "rr_free now failed pc rrp up = Some (pc', up')"
  shows "rr_accounts up0 up' (xs @ ys)"
proof -
  from assms(2) obtain f where f: "rr_on_current (\<lambda>p. (f p)\<lparr>rp_conns := rp_conns (f p) - 1\<rparr>) rrp up = Some up'"
    "f = id \<or> f = rr_failed now \<or> f = rr_alive"
    unfolding rr_free_def Let_def id_def by (cases failed) (auto split: if_splits)
  then have "rr_modest f" "\<And>p. rp_conns (f p) = rp_conns p"
    using modest_failed modest_alive by (auto simp: rr_modest_def rr_failed_def rr_alive_def Let_def)
  then show ?thesis by (intro accounts_on_current [OF assms(1) f(1) modest_leave, of 1]) auto
qed

lemma reach_accounts:
  assumes "rr_reach up0 up reqs" "rr_accounts up0 up0 []"
  shows "rr_accounts up0 up reqs"
  using assms
proof induction
  case (get up reqs rrp now cd pc pc' rrp' up')
  from http_rr.get_cases [OF get.hyps(3) [unfolded http_get_eq] accounts_shaped [OF get.IH [OF get.prems]]] get.IH get.prems
  show ?case by (blast intro: accounts_got)
next
  case (busy up reqs now cd pc rrp pc' rrp' up')
  from http_rr.get_cases [OF busy.hyps(2) [unfolded http_get_eq] accounts_shaped [OF busy.IH [OF busy.prems]]] busy.IH busy.prems
  show ?case by auto
next
  case (stream_get up reqs rrp now cd pc pc' rrp' up')
  from stream_rr.get_cases [OF stream_get.hyps(3) [unfolded stream_get_eq] accounts_shaped [OF stream_get.IH [OF stream_get.prems]]] stream_get.IH stream_get.prems
  show ?case by (blast intro: accounts_got)
next
  case (stream_busy up reqs now cd pc rrp pc' rrp' up')
  from stream_rr.get_cases [OF stream_busy.hyps(2) [unfolded stream_get_eq] accounts_shaped [OF stream_busy.IH [OF stream_busy.prems]]] stream_busy.IH stream_busy.prems
  show ?case by auto
next
  case (free up xs rrp ys now failed pc pc' up')
  then show ?case by (auto simp: ngx_http_upstream_free_round_robin_peer_def intro: accounts_free)
next
  case (stream_free up xs rrp ys now failed pc pc' up')
  then show ?case by (auto simp: ngx_stream_upstream_free_round_robin_peer_def intro: accounts_free)
next
  case (notify up reqs rrp connected ty up')
  have al: "rp_conns (rr_alive p) = rp_conns p - 0" for p by (simp add: rr_alive_def)
  show ?case
  proof (cases "connected \<and> ty = SOCK_STREAM")
    case True
    with notify.hyps(3) have "rr_on_current rr_alive rrp up = Some up'"
      by (simp add: ngx_stream_upstream_notify_round_robin_peer_def)
    then show ?thesis by (rule accounts_on_current [OF notify.IH [OF notify.prems] _ modest_alive al]) simp_all
  next
    case False
    with notify.hyps(3) have "up' = up" by (auto simp: ngx_stream_upstream_notify_round_robin_peer_def)
    with notify.IH [OF notify.prems] show ?thesis by simp
  qed
qed

subsection \<open>The start\<close>

text \<open>A peer as it is configured, and the check that watches it.\<close>

definition rr_new :: "ngx_http_upstream_rr_peer_t \<Rightarrow> bool" where
  "rr_new p \<longleftrightarrow> rp_current_weight p = 0 \<and> rp_conns p = 0 \<and> rr_weight_ok p"

definition rr_watched :: "ngx_addr_t list \<Rightarrow> ngx_http_upstream_rr_peer_t \<Rightarrow> bool" where
  "rr_watched addrs p \<longleftrightarrow> rp_check_index p = - 1
     \<or> (\<exists>j < length addrs. rp_check_index p = of_nat j \<and> addrs ! j = rp_addr p)"

definition cp_addrs :: "ngx_upstream_check_peers_t \<Rightarrow> ngx_addr_t list" where
  "cp_addrs cps = map (\<lambda>(u, p). p_peer_addr p) (cp_peers cps)"

lemma rr_watched_append: "rr_watched xs p \<Longrightarrow> rr_watched (xs @ ys) p"
  unfolding rr_watched_def by (metis length_append nth_append trans_less_add1)

lemma rr_watched_static: "rr_static p = rr_static q \<Longrightarrow> rr_watched addrs p = rr_watched addrs q"
  by (simp add: rr_watched_def rr_static_def)

text \<open>What the balancer needs of a module's \<open>add_peer\<close>.\<close>

locale check_registry =
  fixes add :: "add_allocs \<Rightarrow> nat \<Rightarrow> check_upstream \<Rightarrow> ngx_addr_t \<Rightarrow> ngx_upstream_check_peers_t
      \<Rightarrow> ngx_uint_t \<times> ngx_upstream_check_peers_t"
  assumes add_law: "add al u us addr cps = (ix, cps') \<Longrightarrow> \<exists>more. cp_addrs cps' = cp_addrs cps @ more
      \<and> (ix = - 1 \<or> more = [addr] \<and> ix = of_nat (length (cp_addrs cps)))"
begin

lemma addrs_start:
  "rr_addrs (\<lambda>k. add (al k) u us) sv addrs k cps = (ps, k', cps') \<Longrightarrow> 0 \<le> sint (sv_weight sv) \<Longrightarrow>
     length ps = length addrs \<and> (\<exists>more. cp_addrs cps' = cp_addrs cps @ more)
     \<and> (\<forall>p \<in> set ps. rr_new p \<and> rr_watched (cp_addrs cps') p)"
proof (induction addrs arbitrary: k cps ps)
  case (Cons addr addrs)
  obtain ix k1 cps1 where a: "(if \<not> sv_down sv then (case add (al k) u us addr cps of (index, cps) \<Rightarrow> (index, Suc k, cps)) else (- 1, k, cps))
      = (ix, k1, cps1)" by (metis prod_cases3)
  obtain qs where r: "rr_addrs (\<lambda>k. add (al k) u us) sv addrs k1 cps1 = (qs, k', cps')" "ps = rr_server_peer sv addr ix # qs"
    using Cons.prems(1) a by (auto simp: Let_def split: prod.splits)
  from a have "\<exists>more. cp_addrs cps1 = cp_addrs cps @ more \<and> (ix = - 1 \<or> more = [addr] \<and> ix = of_nat (length (cp_addrs cps)))"
    using add_law [of "al k" u us addr cps] by (auto split: if_splits prod.splits)
  then have "rr_watched (cp_addrs cps1) (rr_server_peer sv addr ix)" "\<exists>more. cp_addrs cps1 = cp_addrs cps @ more"
    by (auto simp: rr_watched_def rr_server_peer_def nth_append)
  moreover have "rr_new (rr_server_peer sv addr ix)"
    using Cons.prems(2) by (simp add: rr_new_def rr_server_peer_def rr_weight_ok_def)
  ultimately show ?case using Cons.IH [OF r(1) Cons.prems(2)] r(2) rr_watched_append by fastforce
qed simp

lemma servers_start:
  "rr_servers (\<lambda>k. add (al k) u us) backup svs k cps = (ps, k', cps') \<Longrightarrow> \<forall>sv \<in> set svs. 0 \<le> sint (sv_weight sv) \<Longrightarrow>
     length ps = rr_count backup svs \<and> (\<exists>more. cp_addrs cps' = cp_addrs cps @ more)
     \<and> (\<forall>p \<in> set ps. rr_new p \<and> rr_watched (cp_addrs cps') p)"
proof (induction svs arbitrary: k cps ps)
  case (Cons sv svs)
  show ?case
  proof (cases "sv_backup sv = backup")
    case True
    obtain ps1 k1 cps1 where a: "rr_addrs (\<lambda>k. add (al k) u us) sv (sv_addrs sv) k cps = (ps1, k1, cps1)" by (metis prod_cases3)
    obtain qs where r: "rr_servers (\<lambda>k. add (al k) u us) backup svs k1 cps1 = (qs, k', cps')" "ps = ps1 @ qs"
      using Cons.prems(1) a True by (auto simp: Let_def split: prod.splits)
    from addrs_start [OF a] Cons.IH [OF r(1)] Cons.prems(2) r(2) True rr_watched_append show ?thesis
      by (fastforce simp: rr_count_def)
  next
    case False
    with Cons show ?thesis by (simp add: rr_count_def)
  qed
qed (simp add: rr_count_def)

lemma init_start:
  assumes "rr_init pcalloc (\<lambda>k. add (al k) u us) resolve host port servers cps = (NGX_OK, Some up, cps')"
    and "\<forall>svs. servers = Some svs \<longrightarrow> (\<forall>sv \<in> set svs. 0 \<le> sint (sv_weight sv))"
  shows "rr_accounts up up [] \<and> (\<forall>b. \<forall>p \<in> set (rr_list b up). rr_watched (cp_addrs cps') p)"
proof -
  have "rr_shaped up \<and> (\<forall>b. \<forall>p \<in> set (rr_list b up). rr_new p \<and> rr_watched (cp_addrs cps') p)"
  proof (cases servers)
    case None
    with assms(1) show ?thesis
      by (auto simp: rr_init_def rr_shaped_def rr_shape_def rr_list_def rr_plain_peer_def rr_new_def rr_watched_def
          rr_weight_ok_def Let_def split: option.splits if_splits)
  next
    case (Some svs)
    obtain ps k cps1 where p: "rr_servers (\<lambda>k. add (al k) u us) False svs 0 cps = (ps, k, cps1)" by (metis prod_cases3)
    obtain qs k2 cps2 where q: "rr_servers (\<lambda>k. add (al k) u us) True svs k cps1 = (qs, k2, cps2)" by (metis prod_cases3)
    have P: "length ps = rr_count False svs" "\<forall>p \<in> set ps. rr_new p \<and> rr_watched (cp_addrs cps1) p"
      using servers_start [OF p] assms(2) Some by auto
    have Q: "length qs = rr_count True svs" "\<forall>p \<in> set qs. rr_new p \<and> rr_watched (cp_addrs cps2) p"
      "\<exists>more. cp_addrs cps2 = cp_addrs cps1 @ more"
      using servers_start [OF q] assms(2) Some by auto
    then have P2: "\<forall>p \<in> set ps. rr_new p \<and> rr_watched (cp_addrs cps2) p" using P(2) rr_watched_append by metis
    from assms(1) Some p q have
      "up = \<lparr>ru_peers = rr_group False host (rr_count False svs = 1) svs ps, ru_next = None\<rparr> \<and> cps' = cps1
       \<or> up = \<lparr>ru_peers = (rr_group False host (rr_count False svs = 1) svs ps)\<lparr>rs_single := False\<rparr>,
               ru_next = Some (rr_group True host False svs qs)\<rparr> \<and> cps' = cps2"
      by (auto simp: rr_init_def Let_def split: if_splits)
    then show ?thesis
      using P Q(1,2) P2 by (elim disjE) (simp_all add: rr_shaped_def rr_shape_def rr_group_def rr_list_def)
  qed
  moreover have "sum_list (map rp_current_weight ps) = 0" if "\<forall>p \<in> set ps. rr_new p" for ps
    using that by (induction ps) (auto simp: rr_new_def)
  moreover have "rr_new p \<Longrightarrow> rr_weight_ok p \<and> rp_conns p = 0" for p by (simp add: rr_new_def)
  ultimately show ?thesis unfolding rr_accounts_def by (simp, meson nth_mem)
qed

end

interpretation http_registry: check_registry ngx_http_upstream_check_add_peer
  by unfold_locales
    (auto simp: ngx_http_upstream_check_add_peer_def cp_addrs_def push_peer_def count_peer_def new_peer_def Let_def
      split: option.splits if_splits prod.splits)

interpretation stream_registry: check_registry ngx_stream_upstream_check_add_peer
  by unfold_locales
    (auto simp: ngx_stream_upstream_check_add_peer_def cp_addrs_def push_peer_def count_peer_def new_peer_def Let_def
      split: option.splits if_splits prod.splits)

subsection \<open>Properties\<close>

text \<open>A worker whose checks are those of the configuration: the peers of the balancer's upstream come first
  at the positions \<open>add_peer\<close> gave them, other upstreams may follow.\<close>

definition rr_worker :: "ngx_upstream_check_peers_t \<Rightarrow> check_proc \<Rightarrow> bool" where
  "rr_worker cps pr \<longleftrightarrow> (\<exists>ps more. pr_peers pr = Some ps \<and> map p_peer_addr ps = cp_addrs cps @ more \<and> length ps < 2 ^ 64)"

lemma watched_up:
  assumes "rr_watched (cp_addrs cps) p" "rr_worker cps pr" "ngx_http_upstream_check_peer_down pr (rp_check_index p) = Some 0"
  shows "rp_check_index p = - 1
    \<or> (\<exists>j q s. rp_check_index p = of_nat j \<and> peer_slot_at pr j = Some (q, s) \<and> p_peer_addr q = rp_addr p \<and> sh_down s = 0)"
proof (cases "rp_check_index p = - 1")
  case False
  with assms(1) obtain j where j: "j < length (cp_addrs cps)" "rp_check_index p = of_nat j" "cp_addrs cps ! j = rp_addr p"
    by (auto simp: rr_watched_def)
  from assms(2) obtain ps more where w: "pr_peers pr = Some ps" "map p_peer_addr ps = cp_addrs cps @ more" "length ps < 2 ^ 64"
    by (auto simp: rr_worker_def)
  from w(2) j(1) have l: "j < length ps" by (metis length_append length_map trans_less_add1)
  with w(2) j have a: "p_peer_addr (ps ! j) = rp_addr p" by (metis nth_append nth_map)
  have "unat (of_nat j :: 64 word) = j" using l w(3) by (simp add: unat_of_nat take_bit_nat_eq_self)
  with assms(3) w(1) l j(2) obtain x where x: "peer_slot_at pr j = Some x" "sh_down (snd x) = 0"
    by (auto simp: ngx_http_upstream_check_peer_down_def)
  moreover from x(1) w(1) have "fst x = ps ! j" by (auto simp: peer_slot_at_def split: option.splits if_splits)
  ultimately show ?thesis using a j(2) by (cases x) auto
qed simp

text \<open>A peer handed out, in a list that was configured with checks.\<close>

lemma got_served:
  assumes "rr_got now cd rrp rrp' i up up'" "rr_accounts up0 up reqs"
    and "\<forall>b. \<forall>p \<in> set (rr_list b up0). rr_watched addrs p"
  shows "i < length (rr_list (rrp_next rrp') up) \<and> rr_watched addrs (rr_list (rrp_next rrp') up ! i)
    \<and> rrp_current rrp' = Some (rrp_next rrp', i)"
proof -
  let ?b = "rrp_next rrp'"
  from assms(1) have i: "i < length (rr_list ?b up)" "rrp_current rrp' = Some (?b, i)" by (auto simp: rr_got_def rr_took_def Let_def)
  from assms(2) have m: "map rr_static (rr_list ?b up) = map rr_static (rr_list ?b up0)" by (simp add: rr_accounts_def)
  then have "i < length (rr_list ?b up0)" "rr_static (rr_list ?b up ! i) = rr_static (rr_list ?b up0 ! i)"
    using i(1) by (metis length_map, metis length_map nth_map)
  with assms(3) i rr_watched_static show ?thesis by (metis nth_mem)
qed

text \<open>C4: No request goes to a server its checks found down. An upstream is configured, its servers are added to the
  checks, and requests have come and gone in any order; when \<open>get_round_robin_peer\<close> hands out a peer in a
  worker, then this is the address the connection gets, the peer is not marked down and has room for a connection, and
  either no check was registered for it or the check at its index is for its address and says it is up.\<close>

theorem served_peer_is_up:
  assumes "ngx_http_upstream_init_round_robin pcalloc al resolve u us port servers cps = (NGX_OK, Some up0, cps')"
    and "\<forall>svs. servers = Some svs \<longrightarrow> (\<forall>sv \<in> set svs. 0 \<le> sint (sv_weight sv))"
    and "rr_worker cps' pr" "rr_reach up0 up reqs"
    and "ngx_http_upstream_get_round_robin_peer now (\<lambda>ix. ngx_http_upstream_check_peer_down pr ix \<noteq> Some 0) pc rrp up
      = Some (NGX_OK, pc', rrp', up')"
  shows "\<exists>b i p. rrp_current rrp' = Some (b, i) \<and> i < length (rr_list b up) \<and> p = rr_list b up ! i
    \<and> pc_sockaddr pc' = a_sockaddr (rp_addr p) \<and> pc_name pc' = a_name (rp_addr p)
    \<and> \<not> rp_down p \<and> (rp_max_conns p = 0 \<or> rp_conns p < rp_max_conns p)
    \<and> (rp_check_index p = - 1
        \<or> (\<exists>j q s. rp_check_index p = of_nat j \<and> peer_slot_at pr j = Some (q, s)
             \<and> p_peer_addr q = rp_addr p \<and> sh_down s = 0))"
proof -
  note st = http_registry.init_start [OF assms(1) [unfolded ngx_http_upstream_init_round_robin_def] assms(2)]
  have acc: "rr_accounts up0 up reqs" using reach_accounts [OF assms(4)] st by blast
  from http_rr.get_cases [OF assms(5) [unfolded http_get_eq] accounts_shaped [OF acc]] obtain i
    where g: "rr_got now (\<lambda>ix. ngx_http_upstream_check_peer_down pr ix \<noteq> Some 0) rrp rrp' i up up'"
      "pc' = rr_found (rr_list (rrp_next rrp') up ! i) (pc\<lparr>pc_cached := False\<rparr>)" by blast
  note s = got_served [OF g(1) acc, of "cp_addrs cps'"]
  from g(1) have "ngx_http_upstream_check_peer_down pr (rp_check_index (rr_list (rrp_next rrp') up ! i)) = Some 0"
    by (simp add: rr_got_def Let_def)
  from watched_up [OF _ assms(3) this] s st g show ?thesis by (simp add: rr_got_def Let_def rr_found_def)
qed

text \<open>An upstream with a server that is found down and a backup server, in a worker.\<close>

definition sample_svs :: "ngx_http_upstream_server_t list" where
  "sample_svs = [sample_sv False sample_server, sample_sv True sample_backup]"

definition sample_us :: check_upstream where
  "sample_us = \<lparr>us_host = ''db'', us_srv_conf = Some sample_uc\<rparr>"

definition sample_cps :: ngx_upstream_check_peers_t where
  "sample_cps = \<lparr>cp_check_shm_name = [], cp_checksum = 0, cp_peers = []\<rparr>"

definition sample_up :: rr_upstream where
  "sample_up =
     \<lparr>ru_peers = \<lparr>rs_number = 1, rs_total_weight = 1, rs_single = False, rs_weighted = False, rs_name = ''db'',
                   rs_peer = [rr_server_peer (sample_sv False sample_server) sample_server 0]\<rparr>,
      ru_next = Some \<lparr>rs_number = 1, rs_total_weight = 1, rs_single = False, rs_weighted = False, rs_name = ''db'',
                      rs_peer = [rr_server_peer (sample_sv True sample_backup) sample_backup 1]\<rparr>\<rparr>"

definition sample_pr :: check_proc where
  "sample_pr =
     \<lparr>pr_peers = Some [new_peer 0 ''db'' sample_uc sample_server, new_peer 1 ''db'' sample_uc sample_backup],
      pr_shm = Some \<lparr>ps_generation = 1, ps_checksum = 0, ps_number = 2,
                     ps_peers = [(new_slot sample_server)\<lparr>sh_down := 1\<rparr>, (new_slot sample_backup)\<lparr>sh_down := 0\<rparr>]\<rparr>,
      pr_has_cleared = False, pr_generation = 1\<rparr>"

lemma sample_init:
  "\<exists>cps. ngx_http_upstream_init_round_robin (\<lambda>_. True) (\<lambda>_. sample_allocs) None 0 sample_us 0 (Some sample_svs) sample_cps
     = (NGX_OK, Some sample_up, cps) \<and> cp_addrs cps = [sample_server, sample_backup]"
  using sample_uc_interval(1)
  by (simp add: ngx_http_upstream_init_round_robin_def rr_init_def sample_svs_def sample_sv_def rr_count_def rr_total_def
      ngx_http_upstream_check_add_peer_def sample_us_def sample_uc_block(2) sample_allocs_def sample_cps_def Let_def
      count_peer_def push_peer_def new_peer_def cp_addrs_def rr_group_def sample_up_def)

lemma sample_worker: "cp_addrs cps = [sample_server, sample_backup] \<Longrightarrow> rr_worker cps sample_pr"
  by (simp add: rr_worker_def sample_pr_def new_peer_def)

lemma sample_down:
  "ngx_http_upstream_check_peer_down sample_pr 0 = Some 1" "ngx_http_upstream_check_peer_down sample_pr 1 = Some 0"
  by (simp_all add: ngx_http_upstream_check_peer_down_def sample_pr_def peer_slot_at_def)

lemma sample_get:
  "\<exists>pc rrp up. ngx_http_upstream_get_round_robin_peer 100 (\<lambda>ix. ngx_http_upstream_check_peer_down sample_pr ix \<noteq> Some 0)
     sample_pc sample_rrp sample_up = Some (NGX_OK, pc, rrp, up) \<and> rrp_current rrp = Some (True, 0)"
  by (simp add: ngx_http_upstream_get_round_robin_peer_def rr_get_def rr_get_backup_def rr_attempt_def sample_up_def sample_rrp_def
      ngx_http_upstream_get_peer_def rr_choose_def http_rr_skip_def sample_down rr_server_peer_def sample_sv_def rr_tried_def Let_def)

lemma served_peer_is_up_witness:
  "\<exists>pc rrp up. ngx_http_upstream_get_round_robin_peer 100 (\<lambda>ix. ngx_http_upstream_check_peer_down sample_pr ix \<noteq> Some 0)
     sample_pc sample_rrp sample_up = Some (NGX_OK, pc, rrp, up) \<and> pc_sockaddr pc = a_sockaddr sample_backup"
proof -
  obtain cps where i: "ngx_http_upstream_init_round_robin (\<lambda>_. True) (\<lambda>_. sample_allocs) None 0 sample_us 0 (Some sample_svs) sample_cps
     = (NGX_OK, Some sample_up, cps)" and a: "cp_addrs cps = [sample_server, sample_backup]" using sample_init by blast
  obtain pc rrp up where g: "ngx_http_upstream_get_round_robin_peer 100 (\<lambda>ix. ngx_http_upstream_check_peer_down sample_pr ix \<noteq> Some 0)
     sample_pc sample_rrp sample_up = Some (NGX_OK, pc, rrp, up)" "rrp_current rrp = Some (True, 0)" using sample_get by blast
  have w: "\<forall>svs. Some sample_svs = Some svs \<longrightarrow> (\<forall>sv \<in> set svs. 0 \<le> sint (sv_weight sv))"
    by (simp add: sample_svs_def sample_sv_def)
  have "pc_sockaddr pc = a_sockaddr sample_backup"
    using served_peer_is_up [OF i w sample_worker [OF a] rr_reach.start g(1)] g(2)
    by (auto simp: rr_list_def sample_up_def rr_server_peer_def)
  with g(1) show ?thesis by blast
qed

text \<open>The same for the stream balancer.\<close>

theorem stream_served_peer_is_up:
  assumes "ngx_stream_upstream_init_round_robin pcalloc al resolve u us port servers cps = (NGX_OK, Some up0, cps')"
    and "\<forall>svs. servers = Some svs \<longrightarrow> (\<forall>sv \<in> set svs. 0 \<le> sint (sv_weight sv))"
    and "rr_worker cps' pr" "rr_reach up0 up reqs"
    and "ngx_stream_upstream_get_round_robin_peer now (\<lambda>ix. ngx_stream_upstream_check_peer_down pr ix \<noteq> Some 0) pc rrp up
      = Some (NGX_OK, pc', rrp', up')"
  shows "\<exists>b i p. rrp_current rrp' = Some (b, i) \<and> i < length (rr_list b up) \<and> p = rr_list b up ! i
    \<and> pc_sockaddr pc' = a_sockaddr (rp_addr p) \<and> pc_name pc' = a_name (rp_addr p)
    \<and> \<not> rp_down p \<and> (rp_max_conns p = 0 \<or> rp_conns p < rp_max_conns p)
    \<and> (rp_check_index p = - 1
        \<or> (\<exists>j q s. rp_check_index p = of_nat j \<and> peer_slot_at pr j = Some (q, s)
             \<and> p_peer_addr q = rp_addr p \<and> sh_down s = 0))"
proof -
  note st = stream_registry.init_start [OF assms(1) [unfolded ngx_stream_upstream_init_round_robin_def] assms(2)]
  have acc: "rr_accounts up0 up reqs" using reach_accounts [OF assms(4)] st by blast
  from stream_rr.get_cases [OF assms(5) [unfolded stream_get_eq] accounts_shaped [OF acc]] obtain i
    where g: "rr_got now (\<lambda>ix. ngx_stream_upstream_check_peer_down pr ix \<noteq> Some 0) rrp rrp' i up up'"
      "pc' = rr_found (rr_list (rrp_next rrp') up ! i) pc" by blast
  note s = got_served [OF g(1) acc, of "cp_addrs cps'"]
  from g(1) have "ngx_http_upstream_check_peer_down pr (rp_check_index (rr_list (rrp_next rrp') up ! i)) = Some 0"
    by (simp add: rr_got_def Let_def)
  from watched_up [OF _ assms(3) this] s st g show ?thesis by (simp add: rr_got_def Let_def rr_found_def)
qed

lemma sample_stream_init:
  "\<exists>cps. ngx_stream_upstream_init_round_robin (\<lambda>_. True) (\<lambda>_. sample_allocs) None 0 sample_us 0 (Some sample_svs) sample_cps
     = (NGX_OK, Some sample_up, cps) \<and> cp_addrs cps = [sample_server, sample_backup]"
  using sample_uc_interval(1)
  by (simp add: ngx_stream_upstream_init_round_robin_def rr_init_def sample_svs_def sample_sv_def rr_count_def rr_total_def
      ngx_stream_upstream_check_add_peer_def sample_us_def sample_uc_block(2) sample_allocs_def sample_cps_def Let_def
      count_peer_def push_peer_def new_peer_def cp_addrs_def rr_group_def sample_up_def)

lemma sample_stream_get:
  "\<exists>pc rrp up. ngx_stream_upstream_get_round_robin_peer 100 (\<lambda>ix. ngx_stream_upstream_check_peer_down sample_pr ix \<noteq> Some 0)
     sample_pc sample_rrp sample_up = Some (NGX_OK, pc, rrp, up) \<and> rrp_current rrp = Some (True, 0)"
  by (simp add: ngx_stream_upstream_get_round_robin_peer_def rr_get_def rr_get_backup_def rr_attempt_def sample_up_def sample_rrp_def
      ngx_stream_upstream_get_peer_def rr_choose_def stream_rr_skip_def sample_down rr_server_peer_def sample_sv_def rr_tried_def Let_def)

lemma stream_served_peer_is_up_witness:
  "\<exists>pc rrp up. ngx_stream_upstream_get_round_robin_peer 100 (\<lambda>ix. ngx_stream_upstream_check_peer_down sample_pr ix \<noteq> Some 0)
     sample_pc sample_rrp sample_up = Some (NGX_OK, pc, rrp, up) \<and> pc_sockaddr pc = a_sockaddr sample_backup"
proof -
  obtain cps where i: "ngx_stream_upstream_init_round_robin (\<lambda>_. True) (\<lambda>_. sample_allocs) None 0 sample_us 0 (Some sample_svs) sample_cps
     = (NGX_OK, Some sample_up, cps)" and a: "cp_addrs cps = [sample_server, sample_backup]" using sample_stream_init by blast
  obtain pc rrp up where g: "ngx_stream_upstream_get_round_robin_peer 100 (\<lambda>ix. ngx_stream_upstream_check_peer_down sample_pr ix \<noteq> Some 0)
     sample_pc sample_rrp sample_up = Some (NGX_OK, pc, rrp, up)" "rrp_current rrp = Some (True, 0)" using sample_stream_get by blast
  have w: "\<forall>svs. Some sample_svs = Some svs \<longrightarrow> (\<forall>sv \<in> set svs. 0 \<le> sint (sv_weight sv))"
    by (simp add: sample_svs_def sample_sv_def)
  have "pc_sockaddr pc = a_sockaddr sample_backup"
    using stream_served_peer_is_up [OF i w sample_worker [OF a] rr_reach.start g(1)] g(2)
    by (auto simp: rr_list_def sample_up_def rr_server_peer_def)
  with g(1) show ?thesis by blast
qed

text \<open>C38: A request does not fail while a server can take it. If an untried primary peer is up and has room, or
  a backup peer, then both balancers hand out a peer.\<close>

theorem usable_peer_is_found:
  assumes "rr_shaped up" "\<not> rrp_next rrp"
    and "(\<exists>k < length (rr_list False up). \<not> rr_tried (rrp_tried rrp) k \<and> rr_usable now cd (rr_list False up ! k))
      \<or> (\<exists>p \<in> set (rr_list True up). rr_usable now cd p)"
  shows "(\<exists>pc' rrp' up'. ngx_http_upstream_get_round_robin_peer now cd pc rrp up = Some (NGX_OK, pc', rrp', up'))
    \<and> (\<exists>pc' rrp' up'. ngx_stream_upstream_get_round_robin_peer now cd pc rrp up = Some (NGX_OK, pc', rrp', up'))"
proof -
  from assms(3) have n: "\<not> ((\<forall>k < length (rr_list False up). rr_tried (rrp_tried rrp) k \<or> \<not> rr_usable now cd (rr_list False up ! k))
      \<and> (\<forall>k < length (rr_list True up). \<not> rr_usable now cd (rr_list True up ! k)))"
    by (metis in_set_conv_nth)
  show ?thesis
    unfolding http_get_eq stream_get_eq
    using http_rr.get_cases [OF _ assms(1)] stream_rr.get_cases [OF _ assms(1)] n assms(2) rr_get_total [OF assms(2)]
    by metis
qed

lemma usable_peer_is_found_witness:
  "\<exists>pc' rrp' up'. ngx_http_upstream_get_round_robin_peer 100 (\<lambda>ix. ix = 0) sample_pc sample_rrp sample_up = Some (NGX_OK, pc', rrp', up')"
proof -
  have "rr_shaped sample_up" by (simp add: sample_up_def rr_shaped_def rr_shape_def)
  moreover have "\<exists>p \<in> set (rr_list True sample_up). rr_usable 100 (\<lambda>ix. ix = 0) p"
    by (simp add: sample_up_def rr_list_def rr_usable_def rr_server_peer_def sample_sv_def)
  ultimately show ?thesis
    using usable_peer_is_found [of sample_up sample_rrp 100 "\<lambda>ix. ix = 0" sample_pc] by (simp add: sample_rrp_def)
qed

text \<open>C7: Weighted round robin is fair. Peers without failures, below their connection limit and with full weights
  are given to as many requests, each with a fresh state, as their weights add up to: \<open>get_peer\<close> chooses each peer as
  often as its weight says, whatever the order of equal weights, and leaves the weights where they were.\<close>

theorem round_robin_fair:
  assumes "\<forall>p \<in> set ps. rr_sound cd p \<and> rp_current_weight p = 0"
    and "rrp_tried rrp = replicate ((length ps + 63) div 64) 0"
    and "int (length nows) = sum_list (map rp_weight ps)" "nows \<noteq> []"
    and "rr_rounds (\<lambda>now. ngx_http_upstream_get_peer now cd) rrp nows ps = (picks, ps')"
  shows "\<forall>k < length ps. int (count_list picks k) = rp_weight (ps ! k) \<and> rp_current_weight (ps' ! k) = 0"
proof (intro allI impI)
  fix k assume k: "k < length ps"
  have e: "(\<lambda>now. ngx_http_upstream_get_peer now cd) = (\<lambda>now. rr_choose (http_rr_skip now cd) now)"
    by (intro ext) (simp add: ngx_http_upstream_get_peer_def)
  show "int (count_list picks k) = rp_weight (ps ! k) \<and> rp_current_weight (ps' ! k) = 0"
    by (rule http_rr.rounds_fair [OF assms(1) _ assms(3,4) assms(5) [unfolded e] k])
      (use rr_tried_cleared [of _ "length ps" "[]"] assms(2) in simp)
qed

lemma round_robin_fair_witness:
  "fst (rr_rounds (\<lambda>now. ngx_http_upstream_get_peer now (\<lambda>_. False)) sample_rrp [1, 2, 3, 4]
     [rr_server_peer ((sample_sv False sample_server)\<lparr>sv_weight := 3\<rparr>) sample_server 0,
      rr_server_peer (sample_sv False sample_backup) sample_backup 1]) = [0, 0, 1, 0]"
proof -
  let ?ps = "[rr_server_peer ((sample_sv False sample_server)\<lparr>sv_weight := 3\<rparr>) sample_server 0,
      rr_server_peer (sample_sv False sample_backup) sample_backup 1]"
  obtain picks ps' where r: "rr_rounds (\<lambda>now. ngx_http_upstream_get_peer now (\<lambda>_. False)) sample_rrp [1, 2, 3, 4] ?ps = (picks, ps')"
    by fastforce
  have "fst (rr_rounds (\<lambda>now. ngx_http_upstream_get_peer now (\<lambda>_. False)) sample_rrp [1, 2, 3, 4] ?ps) = [0, 0, 1, 0]"
    by code_simp
  moreover have "\<forall>k < length ?ps. int (count_list picks k) = rp_weight (?ps ! k) \<and> rp_current_weight (ps' ! k) = 0"
    using round_robin_fair [OF _ _ _ _ r]
    by (simp add: rr_sound_def rr_server_peer_def sample_sv_def sample_rrp_def)
  ultimately show ?thesis by simp
qed

lemma rr_on_current_Some:
  assumes "\<exists>i. rrp_current rrp = Some (rrp_next rrp, i) \<and> i < length (rr_list (rrp_next rrp) up)"
  shows "\<exists>up'. rr_on_current f rrp up = Some up'"
  using assms by (cases "rrp_next rrp") (auto simp: rr_on_current_def rr_list_def Let_def split: option.splits)

text \<open>C6: The bookkeeping of the balancers. From the configuration on, whatever requests come and go: the connections
  counted for a peer are the requests that hold it, the current weights of a list add up to 0, an effective weight
  stays between 0 and the configured weight, what was configured is kept, and giving back a peer never
  goes through a missing pointer.\<close>

theorem round_robin_accounts:
  assumes "ngx_http_upstream_init_round_robin pcalloc al resolve u us port servers cps = (NGX_OK, Some up0, cps')
      \<or> ngx_stream_upstream_init_round_robin pcalloc al resolve u us port servers cps = (NGX_OK, Some up0, cps')"
    and "\<forall>svs. servers = Some svs \<longrightarrow> (\<forall>sv \<in> set svs. 0 \<le> sint (sv_weight sv))"
    and "rr_reach up0 up reqs"
  shows "(\<forall>b. sum_list (map rp_current_weight (rr_list b up)) = 0
      \<and> map rr_static (rr_list b up) = map rr_static (rr_list b up0)
      \<and> (\<forall>k < length (rr_list b up). rp_conns (rr_list b up ! k) = of_nat (rr_held reqs (b, k))
          \<and> 0 \<le> rp_effective_weight (rr_list b up ! k) \<and> rp_effective_weight (rr_list b up ! k) \<le> rp_weight (rr_list b up ! k)))
    \<and> (\<forall>rrp \<in> set reqs. ngx_http_upstream_free_round_robin_peer now failed pc rrp up \<noteq> None)"
proof -
  have "rr_accounts up0 up0 []"
    using assms(1) unfolding ngx_http_upstream_init_round_robin_def ngx_stream_upstream_init_round_robin_def
    by (elim disjE) (use http_registry.init_start [OF _ assms(2)] stream_registry.init_start [OF _ assms(2)] in blast)+
  from reach_accounts [OF assms(3) this] have acc: "rr_accounts up0 up reqs" .
  then have "\<forall>rrp \<in> set reqs. ngx_http_upstream_free_round_robin_peer now failed pc rrp up \<noteq> None"
    using rr_on_current_Some by (simp add: rr_accounts_def ngx_http_upstream_free_round_robin_peer_def rr_free_def Let_def)
  with acc show ?thesis unfolding rr_accounts_def rr_weight_ok_def by blast
qed

lemma round_robin_accounts_witness:
  "\<exists>pc rrp up. ngx_http_upstream_get_round_robin_peer 100 (\<lambda>ix. ngx_http_upstream_check_peer_down sample_pr ix \<noteq> Some 0)
       sample_pc sample_rrp sample_up = Some (NGX_OK, pc, rrp, up)
     \<and> map rp_conns (rr_list True up) = [1] \<and> sum_list (map rp_current_weight (rr_list True up)) = 0"
proof -
  obtain cps where i: "ngx_http_upstream_init_round_robin (\<lambda>_. True) (\<lambda>_. sample_allocs) None 0 sample_us 0 (Some sample_svs) sample_cps
     = (NGX_OK, Some sample_up, cps)" using sample_init by blast
  obtain pc rrp up where g: "ngx_http_upstream_get_round_robin_peer 100 (\<lambda>ix. ngx_http_upstream_check_peer_down sample_pr ix \<noteq> Some 0)
     sample_pc sample_rrp sample_up = Some (NGX_OK, pc, rrp, up)" "rrp_current rrp = Some (True, 0)" using sample_get by blast
  have w: "\<forall>svs. Some sample_svs = Some svs \<longrightarrow> (\<forall>sv \<in> set svs. 0 \<le> sint (sv_weight sv))"
    by (simp add: sample_svs_def sample_sv_def)
  have r: "rr_reach sample_up up [rrp]" by (rule rr_reach.get [OF rr_reach.start _ g(1)]) (simp add: sample_rrp_def)
  from round_robin_accounts [OF disjI1 [OF i] w r]
  have a: "sum_list (map rp_current_weight (rr_list True up)) = 0"
    "map rr_static (rr_list True up) = map rr_static (rr_list True sample_up)"
    "\<forall>k < length (rr_list True up). rp_conns (rr_list True up ! k) = of_nat (rr_held [rrp] (True, k))"
    by blast+
  from arg_cong [OF a(2), of length] have "length (rr_list True up) = 1" by (simp add: sample_up_def rr_list_def)
  with a(3) have "map rp_conns (rr_list True up) = [1]" using g(2) by (auto simp: length_Suc_conv)
  with a(1) g(1) show ?thesis by (intro exI conjI)
qed

end
