(* ===== verification/Ngx_Crc32.thy ===== *)
theory Ngx_Crc32
  imports Ngx_String
begin

text \<open>
  \<open>src/core/ngx_crc32.c\<close> and \<open>ngx_crc32.h\<close>: the checksum the hash balancers choose peers with, by tables of 16 and of
  256 entries, and that both are the CRC-32 a bit at a time.
\<close>

unbundle bit_operations_syntax

definition ngx_crc32_table16 :: "32 word list" where
  "ngx_crc32_table16 =
     [0x00000000, 0x1db71064, 0x3b6e20c8, 0x26d930ac, 0x76dc4190, 0x6b6b51f4,
      0x4db26158, 0x5005713c, 0xedb88320, 0xf00f9344, 0xd6d6a3e8, 0xcb61b38c,
      0x9b64c2b0, 0x86d3d2d4, 0xa00ae278, 0xbdbdf21c]"

definition ngx_crc32_table256 :: "32 word list" where
  "ngx_crc32_table256 =
     [0x00000000, 0x77073096, 0xee0e612c, 0x990951ba, 0x076dc419, 0x706af48f,
      0xe963a535, 0x9e6495a3, 0x0edb8832, 0x79dcb8a4, 0xe0d5e91e, 0x97d2d988,
      0x09b64c2b, 0x7eb17cbd, 0xe7b82d07, 0x90bf1d91, 0x1db71064, 0x6ab020f2,
      0xf3b97148, 0x84be41de, 0x1adad47d, 0x6ddde4eb, 0xf4d4b551, 0x83d385c7,
      0x136c9856, 0x646ba8c0, 0xfd62f97a, 0x8a65c9ec, 0x14015c4f, 0x63066cd9,
      0xfa0f3d63, 0x8d080df5, 0x3b6e20c8, 0x4c69105e, 0xd56041e4, 0xa2677172,
      0x3c03e4d1, 0x4b04d447, 0xd20d85fd, 0xa50ab56b, 0x35b5a8fa, 0x42b2986c,
      0xdbbbc9d6, 0xacbcf940, 0x32d86ce3, 0x45df5c75, 0xdcd60dcf, 0xabd13d59,
      0x26d930ac, 0x51de003a, 0xc8d75180, 0xbfd06116, 0x21b4f4b5, 0x56b3c423,
      0xcfba9599, 0xb8bda50f, 0x2802b89e, 0x5f058808, 0xc60cd9b2, 0xb10be924,
      0x2f6f7c87, 0x58684c11, 0xc1611dab, 0xb6662d3d, 0x76dc4190, 0x01db7106,
      0x98d220bc, 0xefd5102a, 0x71b18589, 0x06b6b51f, 0x9fbfe4a5, 0xe8b8d433,
      0x7807c9a2, 0x0f00f934, 0x9609a88e, 0xe10e9818, 0x7f6a0dbb, 0x086d3d2d,
      0x91646c97, 0xe6635c01, 0x6b6b51f4, 0x1c6c6162, 0x856530d8, 0xf262004e,
      0x6c0695ed, 0x1b01a57b, 0x8208f4c1, 0xf50fc457, 0x65b0d9c6, 0x12b7e950,
      0x8bbeb8ea, 0xfcb9887c, 0x62dd1ddf, 0x15da2d49, 0x8cd37cf3, 0xfbd44c65,
      0x4db26158, 0x3ab551ce, 0xa3bc0074, 0xd4bb30e2, 0x4adfa541, 0x3dd895d7,
      0xa4d1c46d, 0xd3d6f4fb, 0x4369e96a, 0x346ed9fc, 0xad678846, 0xda60b8d0,
      0x44042d73, 0x33031de5, 0xaa0a4c5f, 0xdd0d7cc9, 0x5005713c, 0x270241aa,
      0xbe0b1010, 0xc90c2086, 0x5768b525, 0x206f85b3, 0xb966d409, 0xce61e49f,
      0x5edef90e, 0x29d9c998, 0xb0d09822, 0xc7d7a8b4, 0x59b33d17, 0x2eb40d81,
      0xb7bd5c3b, 0xc0ba6cad, 0xedb88320, 0x9abfb3b6, 0x03b6e20c, 0x74b1d29a,
      0xead54739, 0x9dd277af, 0x04db2615, 0x73dc1683, 0xe3630b12, 0x94643b84,
      0x0d6d6a3e, 0x7a6a5aa8, 0xe40ecf0b, 0x9309ff9d, 0x0a00ae27, 0x7d079eb1,
      0xf00f9344, 0x8708a3d2, 0x1e01f268, 0x6906c2fe, 0xf762575d, 0x806567cb,
      0x196c3671, 0x6e6b06e7, 0xfed41b76, 0x89d32be0, 0x10da7a5a, 0x67dd4acc,
      0xf9b9df6f, 0x8ebeeff9, 0x17b7be43, 0x60b08ed5, 0xd6d6a3e8, 0xa1d1937e,
      0x38d8c2c4, 0x4fdff252, 0xd1bb67f1, 0xa6bc5767, 0x3fb506dd, 0x48b2364b,
      0xd80d2bda, 0xaf0a1b4c, 0x36034af6, 0x41047a60, 0xdf60efc3, 0xa867df55,
      0x316e8eef, 0x4669be79, 0xcb61b38c, 0xbc66831a, 0x256fd2a0, 0x5268e236,
      0xcc0c7795, 0xbb0b4703, 0x220216b9, 0x5505262f, 0xc5ba3bbe, 0xb2bd0b28,
      0x2bb45a92, 0x5cb36a04, 0xc2d7ffa7, 0xb5d0cf31, 0x2cd99e8b, 0x5bdeae1d,
      0x9b64c2b0, 0xec63f226, 0x756aa39c, 0x026d930a, 0x9c0906a9, 0xeb0e363f,
      0x72076785, 0x05005713, 0x95bf4a82, 0xe2b87a14, 0x7bb12bae, 0x0cb61b38,
      0x92d28e9b, 0xe5d5be0d, 0x7cdcefb7, 0x0bdbdf21, 0x86d3d2d4, 0xf1d4e242,
      0x68ddb3f8, 0x1fda836e, 0x81be16cd, 0xf6b9265b, 0x6fb077e1, 0x18b74777,
      0x88085ae6, 0xff0f6a70, 0x66063bca, 0x11010b5c, 0x8f659eff, 0xf862ae69,
      0x616bffd3, 0x166ccf45, 0xa00ae278, 0xd70dd2ee, 0x4e048354, 0x3903b3c2,
      0xa7672661, 0xd06016f7, 0x4969474d, 0x3e6e77db, 0xaed16a4a, 0xd9d65adc,
      0x40df0b66, 0x37d83bf0, 0xa9bcae53, 0xdebb9ec5, 0x47b2cf7f, 0x30b5ffe9,
      0xbdbdf21c, 0xcabac28a, 0x53b39330, 0x24b4a3a6, 0xbad03605, 0xcdd70693,
      0x54de5729, 0x23d967bf, 0xb3667a2e, 0xc4614ab8, 0x5d681b02, 0x2a6f2b94,
      0xb40bbe37, 0xc30c8ea1, 0x5a05df1b, 0x2d02ef8d]"

text \<open>The loops; \<open>crc\<close> is what \<open>ngx_crc32_init\<close> sets and \<open>ngx_crc32_final\<close> inverts.\<close>

fun ngx_crc32_update :: "32 word \<Rightarrow> string \<Rightarrow> 32 word" where
  "ngx_crc32_update crc [] = crc"
| "ngx_crc32_update crc (p # ps) =
     ngx_crc32_update (ngx_crc32_table256 ! unat ((crc XOR of_char p) AND 0xff) XOR drop_bit 8 crc) ps"

definition ngx_crc32_long :: "string \<Rightarrow> 32 word" where
  "ngx_crc32_long p = ngx_crc32_update 0xffffffff p XOR 0xffffffff"

fun crc32_short_loop :: "32 word \<Rightarrow> string \<Rightarrow> 32 word" where
  "crc32_short_loop crc [] = crc"
| "crc32_short_loop crc (c # ps) =
     (let crc = ngx_crc32_table16 ! unat ((crc XOR (of_char c AND 0xf)) AND 0xf) XOR drop_bit 4 crc;
          crc = ngx_crc32_table16 ! unat ((crc XOR drop_bit 4 (of_char c)) AND 0xf) XOR drop_bit 4 crc
      in crc32_short_loop crc ps)"

definition ngx_crc32_short :: "string \<Rightarrow> 32 word" where
  "ngx_crc32_short p = crc32_short_loop 0xffffffff p XOR 0xffffffff"

subsection \<open>One bit at a time\<close>

definition crc_bit :: "32 word \<Rightarrow> 32 word" where
  "crc_bit c = (if bit c 0 then 0xedb88320 XOR drop_bit 1 c else drop_bit 1 c)"

definition crc32_reference :: "string \<Rightarrow> 32 word" where
  "crc32_reference p = fold (\<lambda>c crc. (crc_bit ^^ 8) (crc XOR of_char c)) p 0xffffffff XOR 0xffffffff"

lemma funpow_numeral_8: "(f ^^ 8) x = f (f (f (f (f (f (f (f x)))))))"
  by (simp add: eval_nat_numeral)

lemma funpow_numeral_4: "(f ^^ 4) x = f (f (f (f x)))"
  by (simp add: eval_nat_numeral)

lemma upt_16: "[0..<16] = [0, 1, 2, 3, 4, 5, 6, 7, 8, 9, 10, 11, 12, 13, 14, 15]"
  by code_simp

lemma table16_bits: "ngx_crc32_table16 = map (\<lambda>i. (crc_bit ^^ 4) (of_nat i)) [0..<16]"
  unfolding upt_16 list.map funpow_numeral_4 ngx_crc32_table16_def
  by (simp add: crc_bit_def)

lemma upt_256: "[0..<256] = [0, 1, 2, 3, 4, 5, 6, 7, 8, 9, 10, 11, 12, 13, 14, 15, 16, 17, 18, 19, 20, 21, 22, 23,
    24, 25, 26, 27, 28, 29, 30, 31, 32, 33, 34, 35, 36, 37, 38, 39, 40, 41, 42, 43, 44, 45, 46, 47,
    48, 49, 50, 51, 52, 53, 54, 55, 56, 57, 58, 59, 60, 61, 62, 63, 64, 65, 66, 67, 68, 69, 70, 71,
    72, 73, 74, 75, 76, 77, 78, 79, 80, 81, 82, 83, 84, 85, 86, 87, 88, 89, 90, 91, 92, 93, 94, 95,
    96, 97, 98, 99, 100, 101, 102, 103, 104, 105, 106, 107, 108, 109, 110, 111, 112, 113, 114, 115, 116, 117, 118, 119,
    120, 121, 122, 123, 124, 125, 126, 127, 128, 129, 130, 131, 132, 133, 134, 135, 136, 137, 138, 139, 140, 141, 142, 143,
    144, 145, 146, 147, 148, 149, 150, 151, 152, 153, 154, 155, 156, 157, 158, 159, 160, 161, 162, 163, 164, 165, 166, 167,
    168, 169, 170, 171, 172, 173, 174, 175, 176, 177, 178, 179, 180, 181, 182, 183, 184, 185, 186, 187, 188, 189, 190, 191,
    192, 193, 194, 195, 196, 197, 198, 199, 200, 201, 202, 203, 204, 205, 206, 207, 208, 209, 210, 211, 212, 213, 214, 215,
    216, 217, 218, 219, 220, 221, 222, 223, 224, 225, 226, 227, 228, 229, 230, 231, 232, 233, 234, 235, 236, 237, 238, 239,
    240, 241, 242, 243, 244, 245, 246, 247, 248, 249, 250, 251, 252, 253, 254, 255]"
  by code_simp

lemma table256_bits: "ngx_crc32_table256 = map (\<lambda>i. (crc_bit ^^ 8) (of_nat i)) [0..<256]"
  unfolding upt_256 list.map funpow_numeral_8 ngx_crc32_table256_def
  by (simp add: crc_bit_def)

text \<open>The step is linear, and shifts what has only zeros below.\<close>

lemma crc_bit_xor: "crc_bit (a XOR b) = crc_bit a XOR crc_bit b"
  by (rule bit_eqI) (auto simp: crc_bit_def bit_xor_iff bit_drop_bit_eq)

lemma crc_bits_xor: "(crc_bit ^^ n) (a XOR b) = (crc_bit ^^ n) a XOR (crc_bit ^^ n) b"
  by (induction n) (simp_all add: crc_bit_xor)

lemma crc_bits_shift: "(\<And>k. k < n \<Longrightarrow> \<not> bit z k) \<Longrightarrow> (crc_bit ^^ n) z = drop_bit n z"
proof (induction n)
  case (Suc n)
  then have "\<not> bit (drop_bit n z) 0" by (simp add: bit_drop_bit_eq)
  with Suc show ?case by (simp add: crc_bit_def drop_bit_drop_bit)
qed simp

lemma crc_bits_split: "(crc_bit ^^ n) x = (crc_bit ^^ n) (x AND mask n) XOR drop_bit n x"
proof -
  have x: "x = (x AND mask n) XOR (x AND NOT (mask n))" by (rule bit_eqI) (auto simp: bit_simps)
  have "(crc_bit ^^ n) (x AND NOT (mask n)) = drop_bit n (x AND NOT (mask n))"
    by (rule crc_bits_shift) (simp add: bit_simps)
  also have "\<dots> = drop_bit n x" by (rule bit_eqI) (auto simp: bit_simps dest: bit_imp_le_length)
  finally show ?thesis using crc_bits_xor [of n "x AND mask n" "x AND NOT (mask n)"] x by simp
qed

lemma unat_and_mask: "unat ((x :: 32 word) AND mask n) < 2 ^ n"
  by (simp add: unsigned_take_bit_eq flip: take_bit_eq_mask)

lemma table256_nth: "ngx_crc32_table256 ! unat ((x :: 32 word) AND 0xff) = (crc_bit ^^ 8) (x AND 0xff)"
  using unat_and_mask [of x 8] by (simp add: table256_bits mask_eq_exp_minus_1)

lemma table16_nth: "ngx_crc32_table16 ! unat ((x :: 32 word) AND 0xf) = (crc_bit ^^ 4) (x AND 0xf)"
  using unat_and_mask [of x 4] by (simp add: table16_bits mask_eq_exp_minus_1)

lemma bit_char: "bit (of_char c :: 32 word) k \<Longrightarrow> k < 8"
  unfolding of_char_def bit_horner_sum_bit_iff by simp

lemma drop_char [simp]: "drop_bit 8 (of_char c :: 32 word) = 0"
  by (rule bit_eqI) (auto simp: bit_drop_bit_eq dest: bit_char)

lemma crc32_update_step:
  "ngx_crc32_table256 ! unat ((crc XOR of_char c) AND 0xff) XOR drop_bit 8 crc = (crc_bit ^^ 8) (crc XOR of_char c)"
  using crc_bits_split [of 8 "crc XOR of_char c"]
  by (simp add: table256_nth mask_eq_exp_minus_1)

lemma crc32_short_step:
  defines "t \<equiv> \<lambda>x :: 32 word. ngx_crc32_table16 ! unat (x AND 0xf)"
  assumes "y = t (crc XOR (of_char c AND 0xf)) XOR drop_bit 4 crc"
  shows "t (y XOR drop_bit 4 (of_char c)) XOR drop_bit 4 y = (crc_bit ^^ 8) (crc XOR of_char c)"
proof -
  have s: "t x XOR drop_bit 4 x = (crc_bit ^^ 4) x" for x
    using crc_bits_split [of 4 x] by (simp add: t_def table16_nth mask_eq_exp_minus_1)
  have f: "(0xf :: 32 word) = mask 4" by (simp add: mask_eq_exp_minus_1)
  have d: "drop_bit 4 (x AND 0xf) = (0 :: 32 word)" for x :: "32 word"
    unfolding f by (rule bit_eqI) (simp add: bit_simps)
  have z: "(crc_bit ^^ 4) (of_char c AND NOT (mask 4)) = drop_bit 4 (of_char c)"
  proof -
    have "(crc_bit ^^ 4) (of_char c AND NOT (mask 4)) = drop_bit 4 (of_char c AND NOT (mask 4))"
      by (rule crc_bits_shift) (simp add: bit_simps)
    also have "\<dots> = drop_bit 4 (of_char c)" by (rule bit_eqI) (auto simp: bit_simps dest: bit_imp_le_length)
    finally show ?thesis .
  qed
  have y: "y = (crc_bit ^^ 4) (crc XOR (of_char c AND mask 4))"
  proof -
    have "drop_bit 4 (crc XOR (of_char c AND 0xf)) = drop_bit 4 crc" unfolding drop_bit_xor d by simp
    then show ?thesis using s [of "crc XOR (of_char c AND 0xf)"] assms(2) unfolding f by simp
  qed
  have "(of_char c :: 32 word) = (of_char c AND mask 4) XOR (of_char c AND NOT (mask 4))"
    by (rule bit_eqI) (auto simp: bit_simps)
  then have "crc XOR of_char c = (crc XOR (of_char c AND mask 4)) XOR (of_char c AND NOT (mask 4))"
    by (metis xor.assoc)
  then have w: "y XOR drop_bit 4 (of_char c) = (crc_bit ^^ 4) (crc XOR of_char c)"
    using crc_bits_xor [of 4 "crc XOR (of_char c AND mask 4)" "of_char c AND NOT (mask 4)"] z y by simp
  have "drop_bit 4 (y XOR drop_bit 4 (of_char c)) = drop_bit 4 y" by (simp add: drop_bit_drop_bit)
  with s [of "y XOR drop_bit 4 (of_char c)"] have "t (y XOR drop_bit 4 (of_char c)) XOR drop_bit 4 y
      = (crc_bit ^^ 4) ((crc_bit ^^ 4) (crc XOR of_char c))" by (simp add: w)
  moreover have "crc_bit ^^ 8 = (crc_bit ^^ 4) \<circ> (crc_bit ^^ 4)" by (rule funpow_add [of 4 4, simplified])
  ultimately show ?thesis by (simp only: comp_apply)
qed

text \<open>C17: The two routines of nginx compute the same checksum, the CRC-32 with the polynomial of zip and PNG,
  defined a bit at a time.\<close>

theorem crc32_is_reference:
  "ngx_crc32_long p = crc32_reference p \<and> ngx_crc32_short p = crc32_reference p"
proof -
  have "ngx_crc32_update crc p = fold (\<lambda>c crc. (crc_bit ^^ 8) (crc XOR of_char c)) p crc" for crc
    by (induction p arbitrary: crc) (simp_all add: crc32_update_step)
  moreover have "crc32_short_loop crc p = fold (\<lambda>c crc. (crc_bit ^^ 8) (crc XOR of_char c)) p crc" for crc
    by (induction p arbitrary: crc)
      (simp_all only: crc32_short_loop.simps Let_def crc32_short_step [OF refl] fold.simps id_apply comp_apply)
  ultimately show ?thesis by (simp add: ngx_crc32_long_def ngx_crc32_short_def crc32_reference_def)
qed

end
