(* ===== verification/Hash_Balance.thy ===== *)
theory Hash_Balance
  imports Round_Robin Ngx_Crc32
begin

text \<open>
  The balancers that hash the client's address (\<open>ngx_http_upstream_ip_hash_module.c\<close>) or a key
  (\<open>ngx_http_upstream_hash_module.c\<close>, \<open>ngx_stream_upstream_hash_module.c\<close>) to a peer. They try up to twenty
  hashes and then leave the choice to the round robin.
\<close>

subsection \<open>Trying a hash\<close>

text \<open>The list \<open>rrp->peers\<close> points to; \<open>None\<close> if it points to backup servers that do not exist.\<close>

definition rr_peers :: "ngx_http_upstream_rr_peer_data_t \<Rightarrow> rr_upstream \<Rightarrow> ngx_http_upstream_rr_peers_t option" where
  "rr_peers rrp up = (if rrp_next rrp then ru_next up else Some (ru_peers up))"

definition rr_put :: "ngx_http_upstream_rr_peer_data_t \<Rightarrow> ngx_http_upstream_rr_peers_t \<Rightarrow> rr_upstream \<Rightarrow> rr_upstream" where
  "rr_put rrp g up = (if rrp_next rrp then up\<lparr>ru_next := Some g\<rparr> else up\<lparr>ru_peers := g\<rparr>)"

text \<open>From a number below the total weight to a position; \<open>None\<close> is the end of the list.\<close>

fun hash_walk :: "int \<Rightarrow> ngx_http_upstream_rr_peer_t list \<Rightarrow> nat option" where
  "hash_walk w [] = None"
| "hash_walk w (p # ps) = (if w \<ge> rp_weight p then map_option Suc (hash_walk (w - rp_weight p) ps) else Some 0)"

text \<open>One peer. With a \<open>zone\<close> the peer is locked; \<open>locks\<close> are the positions whose locks were taken and not given
  back, and waiting for one of them never ends, which is \<open>None\<close>. The result is whether the peer will do, and
  the locks that stay behind: the peer's own when the checks hold it for down.\<close>

definition hash_try ::
  "bool \<Rightarrow> int \<Rightarrow> (ngx_uint_t \<Rightarrow> bool) \<Rightarrow> 64 word list \<Rightarrow> ngx_http_upstream_rr_peer_t list \<Rightarrow> nat list \<Rightarrow> nat
     \<Rightarrow> (bool \<times> nat list) option" where
  "hash_try zone now check_down tried ps locks p =
     (if rr_tried tried p then Some (False, locks)
      else if zone \<and> p \<in> set locks then None
      else
        let peer = ps ! p
        in if rp_down peer then Some (False, locks)
           else if check_down (rp_check_index peer) then Some (False, if zone then p # locks else locks)
           else if rp_max_fails peer \<noteq> 0 \<and> rp_fails peer \<ge> rp_max_fails peer \<and> now - rp_checked peer \<le> rp_fail_timeout peer
           then Some (False, locks)
           else if rp_max_conns peer \<noteq> 0 \<and> rp_conns peer \<ge> rp_max_conns peer then Some (False, locks)
           else Some (True, locks))"

datatype hash_end = Hash_Found nat | Hash_Spent

text \<open>The loop. \<open>step\<close> computes the next hash and \<open>num\<close> the number taken modulo the total weight.\<close>

function hash_loop ::
  "('h \<Rightarrow> 'h) \<Rightarrow> ('h \<Rightarrow> ngx_uint_t) \<Rightarrow> bool \<Rightarrow> int \<Rightarrow> (ngx_uint_t \<Rightarrow> bool) \<Rightarrow> 64 word list \<Rightarrow> ngx_http_upstream_rr_peers_t
     \<Rightarrow> 'h \<Rightarrow> nat \<Rightarrow> nat list \<Rightarrow> (hash_end \<times> 'h \<times> nat \<times> nat list) option" where
  "hash_loop step num zone now check_down tried peers h tries locks =
     (let h = step h
      in if rs_total_weight peers = 0 then None
         else
           (case hash_walk (sint (num h mod rs_total_weight peers)) (rs_peer peers) of
              None \<Rightarrow> None
            | Some p \<Rightarrow>
                (case hash_try zone now check_down tried (rs_peer peers) locks p of
                   None \<Rightarrow> None
                 | Some (True, locks) \<Rightarrow> Some (Hash_Found p, h, tries, locks)
                 | Some (False, locks) \<Rightarrow>
                     if Suc tries > 20 then Some (Hash_Spent, h, Suc tries, locks)
                     else hash_loop step num zone now check_down tried peers h (Suc tries) locks)))"
  by pat_completeness auto

termination
  by (relation "measure (\<lambda>(step, num, zone, now, check_down, tried, peers, h, tries, locks). 21 - tries)") auto

declare hash_loop.simps [simp del]

text \<open>The peer found: its connection, and the state of the request.\<close>

definition hash_take :: "int \<Rightarrow> ngx_http_upstream_rr_peer_t \<Rightarrow> ngx_http_upstream_rr_peer_t" where
  "hash_take now p =
     p\<lparr>rp_conns := rp_conns p + 1, rp_checked := (if now - rp_checked p > rp_fail_timeout p then now else rp_checked p)\<rparr>"

definition hash_found ::
  "int \<Rightarrow> ngx_http_upstream_rr_peers_t \<Rightarrow> nat \<Rightarrow> rr_pc \<Rightarrow> ngx_http_upstream_rr_peer_data_t \<Rightarrow> rr_upstream
     \<Rightarrow> rr_pc \<times> ngx_http_upstream_rr_peer_data_t \<times> rr_upstream" where
  "hash_found now g p pc rrp up =
     (rr_found (rs_peer g ! p) pc,
      rrp\<lparr>rrp_current := Some (rrp_next rrp, p), rrp_tried := rr_mark (rrp_tried rrp) p\<rparr>,
      rr_put rrp (g\<lparr>rs_peer := (rs_peer g)[p := hash_take now (rs_peer g ! p)]\<rparr>) up)"

subsection \<open>The client's address\<close>

text \<open>\<open>addr\<close> are the \<open>addrlen\<close> bytes at \<open>addr\<close>; \<open>tries\<close> stops at 21, so its one byte does not wrap.\<close>

record ngx_http_upstream_ip_hash_peer_data_t =
  ih_rrp :: ngx_http_upstream_rr_peer_data_t
  ih_hash :: ngx_uint_t
  ih_addr :: string
  ih_tries :: nat

text \<open>The state of a request of the client at \<open>sa\<close>; the second result is \<open>peer.tries\<close>.\<close>

definition ngx_http_upstream_init_ip_hash_peer ::
  "bool \<Rightarrow> bool \<Rightarrow> ngx_http_upstream_rr_peer_data_t \<Rightarrow> string \<Rightarrow> rr_upstream
     \<Rightarrow> (ngx_http_upstream_ip_hash_peer_data_t \<times> nat) option" where
  "ngx_http_upstream_init_ip_hash_peer palloc pcalloc junk sa up =
     (if \<not> palloc then None
      else
        map_option
          (\<lambda>(rrp, tries).
             (\<lparr>ih_rrp = rrp, ih_hash = 89,
               ih_addr = (if sa_family sa = AF_INET then take 3 (sin_addr sa)
                          else if sa_family sa = AF_INET6 then sin6_addr sa
                          else [NUL, NUL, NUL]),
               ih_tries = 0\<rparr>, tries))
          (ngx_http_upstream_init_round_robin_peer True pcalloc (Some junk) up))"

definition ip_hash_step :: "string \<Rightarrow> ngx_uint_t \<Rightarrow> ngx_uint_t" where
  "ip_hash_step addr hash = fold (\<lambda>c h. (h * 113 + of_char c) mod 6271) addr hash"

definition ngx_http_upstream_get_ip_hash_peer ::
  "bool \<Rightarrow> int \<Rightarrow> (ngx_uint_t \<Rightarrow> bool) \<Rightarrow> rr_pc \<Rightarrow> ngx_http_upstream_ip_hash_peer_data_t \<Rightarrow> nat list \<Rightarrow> rr_upstream
     \<Rightarrow> (ngx_rc \<times> rr_pc \<times> ngx_http_upstream_ip_hash_peer_data_t \<times> nat list \<times> rr_upstream) option" where
  "ngx_http_upstream_get_ip_hash_peer zone now check_down pc ih locks up =
     (let rrp = ih_rrp ih;
          get_rr_peer = (\<lambda>pc ih locks.
            map_option (\<lambda>(rc, pc, rrp, up). (rc, pc, ih\<lparr>ih_rrp := rrp\<rparr>, locks, up))
              (ngx_http_upstream_get_round_robin_peer now check_down pc rrp up))
      in case rr_peers rrp up of
           None \<Rightarrow> None
         | Some g \<Rightarrow>
             if ih_tries ih > 20 \<or> rs_single g then get_rr_peer pc ih locks
             else
               let pc = pc\<lparr>pc_cached := False\<rparr>
               in (case hash_loop (ip_hash_step (ih_addr ih)) (\<lambda>h. h) zone now check_down (rrp_tried rrp) g
                         (ih_hash ih) (ih_tries ih) locks of
                     None \<Rightarrow> None
                   | Some (Hash_Spent, _, tries, locks) \<Rightarrow> get_rr_peer pc (ih\<lparr>ih_tries := tries\<rparr>) locks
                   | Some (Hash_Found p, hash, tries, locks) \<Rightarrow>
                       (case hash_found now g p pc rrp up of
                          (pc, rrp, up) \<Rightarrow>
                            Some (NGX_OK, pc, ih\<lparr>ih_rrp := rrp, ih_hash := hash, ih_tries := tries\<rparr>, locks, up))))"

subsection \<open>A key\<close>

record ngx_http_upstream_hash_peer_data_t =
  hp_rrp :: ngx_http_upstream_rr_peer_data_t
  hp_key :: string
  hp_tries :: nat
  hp_rehash :: ngx_uint_t
  hp_hash :: "32 word"

text \<open>\<open>key\<close> is what the expression of the directive gives, \<open>None\<close> when its evaluation fails; \<open>init\<close> is the
  module's \<open>init_round_robin_peer\<close>.\<close>

definition hash_init_peer ::
  "(bool \<Rightarrow> bool \<Rightarrow> ngx_http_upstream_rr_peer_data_t option \<Rightarrow> rr_upstream \<Rightarrow> (ngx_http_upstream_rr_peer_data_t \<times> nat) option)
     \<Rightarrow> bool \<Rightarrow> bool \<Rightarrow> ngx_http_upstream_rr_peer_data_t \<Rightarrow> string option \<Rightarrow> rr_upstream
     \<Rightarrow> (ngx_http_upstream_hash_peer_data_t \<times> nat) option" where
  "hash_init_peer init palloc pcalloc junk key up =
     (if \<not> palloc then None
      else
        (case init True pcalloc (Some junk) up of
           None \<Rightarrow> None
         | Some (rrp, tries) \<Rightarrow>
             map_option (\<lambda>key. (\<lparr>hp_rrp = rrp, hp_key = key, hp_tries = 0, hp_rehash = 0, hp_hash = 0\<rparr>, tries)) key))"

definition ngx_http_upstream_init_hash_peer ::
  "bool \<Rightarrow> bool \<Rightarrow> ngx_http_upstream_rr_peer_data_t \<Rightarrow> string option \<Rightarrow> rr_upstream
     \<Rightarrow> (ngx_http_upstream_hash_peer_data_t \<times> nat) option" where
  "ngx_http_upstream_init_hash_peer palloc pcalloc junk key up =
     hash_init_peer ngx_http_upstream_init_round_robin_peer palloc pcalloc junk key up"

definition ngx_stream_upstream_init_hash_peer ::
  "bool \<Rightarrow> bool \<Rightarrow> ngx_http_upstream_rr_peer_data_t \<Rightarrow> string option \<Rightarrow> rr_upstream
     \<Rightarrow> (ngx_http_upstream_hash_peer_data_t \<times> nat) option" where
  "ngx_stream_upstream_init_hash_peer palloc pcalloc junk key up =
     hash_init_peer ngx_stream_upstream_init_round_robin_peer palloc pcalloc junk key up"

text \<open>\<open>((crc32([REHASH] KEY) >> 16) & 0x7fff) + PREV_HASH\<close>; the state is \<open>rehash\<close> and \<open>hash\<close>.\<close>

definition hash_step :: "string \<Rightarrow> ngx_uint_t \<times> 32 word \<Rightarrow> ngx_uint_t \<times> 32 word" where
  "hash_step key rh =
     (case rh of
        (rehash, prev) \<Rightarrow>
          let hash = 0xffffffff;
              hash = (if rehash > 0 then ngx_crc32_update hash (ngx_sprintf_num (unat rehash)) else hash);
              hash = ngx_crc32_update hash key XOR 0xffffffff;
              hash = drop_bit 16 hash AND 0x7fff
          in (rehash + 1, prev + hash))"

text \<open>\<open>rr\<close> is the module's \<open>get_rr_peer\<close>; \<open>uncached\<close> is what it does to \<open>pc->cached\<close> before the loop.\<close>

definition hash_get ::
  "(rr_pc \<Rightarrow> ngx_http_upstream_rr_peer_data_t \<Rightarrow> rr_upstream
      \<Rightarrow> (ngx_rc \<times> rr_pc \<times> ngx_http_upstream_rr_peer_data_t \<times> rr_upstream) option)
     \<Rightarrow> (rr_pc \<Rightarrow> rr_pc) \<Rightarrow> bool \<Rightarrow> int \<Rightarrow> (ngx_uint_t \<Rightarrow> bool) \<Rightarrow> rr_pc \<Rightarrow> ngx_http_upstream_hash_peer_data_t \<Rightarrow> nat list \<Rightarrow> rr_upstream
     \<Rightarrow> (ngx_rc \<times> rr_pc \<times> ngx_http_upstream_hash_peer_data_t \<times> nat list \<times> rr_upstream) option" where
  "hash_get rr uncached zone now check_down pc hp locks up =
     (let rrp = hp_rrp hp;
          get_rr_peer = (\<lambda>pc hp locks.
            map_option (\<lambda>(rc, pc, rrp, up). (rc, pc, hp\<lparr>hp_rrp := rrp\<rparr>, locks, up)) (rr pc rrp up))
      in case rr_peers rrp up of
           None \<Rightarrow> None
         | Some g \<Rightarrow>
             if hp_tries hp > 20 \<or> rs_single g then get_rr_peer pc hp locks
             else
               let pc = uncached pc
               in (case hash_loop (hash_step (hp_key hp)) (\<lambda>(rehash, hash). ucast hash) zone now check_down (rrp_tried rrp) g
                          (hp_rehash hp, hp_hash hp) (hp_tries hp) locks of
                     None \<Rightarrow> None
                   | Some (r, (rehash, hash), tries, locks) \<Rightarrow>
                       let hp = hp\<lparr>hp_tries := tries, hp_rehash := rehash, hp_hash := hash\<rparr>
                       in (case r of
                             Hash_Spent \<Rightarrow> get_rr_peer pc hp locks
                           | Hash_Found p \<Rightarrow>
                               (case hash_found now g p pc rrp up of
                                  (pc, rrp, up) \<Rightarrow> Some (NGX_OK, pc, hp\<lparr>hp_rrp := rrp\<rparr>, locks, up)))))"

definition ngx_http_upstream_get_hash_peer ::
  "bool \<Rightarrow> int \<Rightarrow> (ngx_uint_t \<Rightarrow> bool) \<Rightarrow> rr_pc \<Rightarrow> ngx_http_upstream_hash_peer_data_t \<Rightarrow> nat list \<Rightarrow> rr_upstream
     \<Rightarrow> (ngx_rc \<times> rr_pc \<times> ngx_http_upstream_hash_peer_data_t \<times> nat list \<times> rr_upstream) option" where
  "ngx_http_upstream_get_hash_peer zone now check_down pc hp locks up =
     hash_get (ngx_http_upstream_get_round_robin_peer now check_down) (\<lambda>pc. pc\<lparr>pc_cached := False\<rparr>)
       zone now check_down pc hp locks up"

definition ngx_stream_upstream_get_hash_peer ::
  "bool \<Rightarrow> int \<Rightarrow> (ngx_uint_t \<Rightarrow> bool) \<Rightarrow> rr_pc \<Rightarrow> ngx_http_upstream_hash_peer_data_t \<Rightarrow> nat list \<Rightarrow> rr_upstream
     \<Rightarrow> (ngx_rc \<times> rr_pc \<times> ngx_http_upstream_hash_peer_data_t \<times> nat list \<times> rr_upstream) option" where
  "ngx_stream_upstream_get_hash_peer zone now check_down pc hp locks up =
     hash_get (ngx_stream_upstream_get_round_robin_peer now check_down) (\<lambda>pc. pc) zone now check_down pc hp locks up"

subsection \<open>What the loop does\<close>

text \<open>A list the loop can walk: the total is the sum of the weights, which are not negative, and fits the type.\<close>

definition hash_ready :: "ngx_http_upstream_rr_peers_t \<Rightarrow> bool" where
  "hash_ready g \<longleftrightarrow>
     (let t = sum_list (map rp_weight (rs_peer g))
      in 0 < t \<and> t < 2 ^ 63 \<and> rs_total_weight g = of_int t \<and> (\<forall>p \<in> set (rs_peer g). 0 \<le> rp_weight p))"

lemma hash_walk_Some:
  assumes "0 \<le> w" "\<forall>p \<in> set ps. 0 \<le> rp_weight p"
  shows "hash_walk w ps = Some i \<longleftrightarrow>
    i < length ps \<and> sum_list (map rp_weight (take i ps)) \<le> w \<and> w < sum_list (map rp_weight (take (Suc i) ps))"
  using assms
proof (induction ps arbitrary: w i)
  case (Cons p ps)
  have n: "0 \<le> sum_list (map rp_weight (take k ps))" for k
    using Cons.prems(2) by (intro sum_list_nonneg) (auto dest: in_set_takeD)
  show ?case
  proof (cases i)
    case 0
    with Cons.prems(1) show ?thesis by simp
  next
    case (Suc k)
    show ?thesis
    proof (cases "w \<ge> rp_weight p")
      case True
      then have "0 \<le> w - rp_weight p" by simp
      from Cons.IH [OF this, of k] Cons.prems(2) True Suc show ?thesis by simp linarith
    next
      case False
      with n [of k] Suc show ?thesis by simp
    qed
  qed
qed simp

lemma hash_walk_total:
  assumes "0 \<le> w" "w < sum_list (map rp_weight ps)"
  shows "\<exists>i < length ps. hash_walk w ps = Some i"
  using assms
proof (induction ps arbitrary: w)
  case (Cons p ps)
  show ?case
  proof (cases "w \<ge> rp_weight p")
    case True
    then obtain i where "i < length ps" "hash_walk (w - rp_weight p) ps = Some i"
      using Cons.IH [of "w - rp_weight p"] Cons.prems by auto
    with True show ?thesis by (intro exI [of _ "Suc i"]) simp
  qed simp
qed simp

lemma hash_walk_weights:
  "map rp_weight ps = map rp_weight qs \<Longrightarrow> hash_walk w ps = hash_walk w qs"
proof (induction ps arbitrary: w qs)
  case (Cons p ps)
  then obtain q rs where "qs = q # rs" "rp_weight p = rp_weight q" "map rp_weight ps = map rp_weight rs"
    by (cases qs) auto
  with Cons.IH [of rs] show ?case by simp
qed simp

lemma hash_ready_walk:
  assumes "hash_ready g"
  shows "rs_total_weight g \<noteq> 0 \<and> (\<exists>p < length (rs_peer g). hash_walk (sint (x mod rs_total_weight g)) (rs_peer g) = Some p)"
proof -
  let ?t = "sum_list (map rp_weight (rs_peer g))"
  from assms have t: "0 < ?t" "?t < 2 ^ 63" "rs_total_weight g = of_int ?t" by (simp_all add: hash_ready_def Let_def)
  have u: "uint (rs_total_weight g) = ?t" using t by (simp add: uint_word_of_int_eq take_bit_int_eq_self)
  have m: "uint (x mod rs_total_weight g) = uint x mod ?t" by (simp add: uint_mod u)
  have b: "0 \<le> uint x mod ?t" "uint x mod ?t < ?t" using t(1) by simp_all
  have "sint (x mod rs_total_weight g) = uint x mod ?t"
    using b t(2) m by (simp add: sint_uint signed_take_bit_int_eq_self)
  with hash_walk_total [of "uint x mod ?t" "rs_peer g"] b u t(1) show ?thesis by auto
qed

lemma hash_try_True:
  "hash_try zone now cd tried ps locks p = Some (True, locks') \<Longrightarrow>
     \<not> rr_tried tried p \<and> rr_usable now cd (ps ! p) \<and> locks' = locks"
  by (auto simp: hash_try_def rr_usable_def Let_def split: if_splits)

lemma hash_try_free:
  assumes "\<not> zone \<or> locks = [] \<and> \<not> cd (rp_check_index (ps ! p))"
  shows "\<exists>b. hash_try zone now cd tried ps locks p = Some (b, locks)"
  using assms by (auto simp: hash_try_def Let_def)

text \<open>One round of the loop.\<close>

lemma hash_loop_round:
  assumes "rs_total_weight g \<noteq> 0" "hash_walk (sint (num (step h) mod rs_total_weight g)) (rs_peer g) = Some p"
  shows "hash_try zone now cd tried (rs_peer g) locks p = None \<Longrightarrow>
      hash_loop step num zone now cd tried g h tries locks = None"
    and "hash_try zone now cd tried (rs_peer g) locks p = Some (True, l) \<Longrightarrow>
      hash_loop step num zone now cd tried g h tries locks = Some (Hash_Found p, step h, tries, l)"
    and "hash_try zone now cd tried (rs_peer g) locks p = Some (False, l) \<Longrightarrow>
      hash_loop step num zone now cd tried g h tries locks =
        (if Suc tries > 20 then Some (Hash_Spent, step h, Suc tries, l)
         else hash_loop step num zone now cd tried g (step h) (Suc tries) l)"
  using assms by (simp_all add: hash_loop.simps [of step num zone now cd tried g h tries locks] Let_def)

text \<open>A peer the loop ends with can take the request; the loop has had at most twenty tries.\<close>

lemma hash_loop_found:
  "hash_loop step num zone now cd tried g h tries locks = Some (Hash_Found p, h', tries', locks') \<Longrightarrow>
     hash_ready g \<Longrightarrow> p < length (rs_peer g) \<and> \<not> rr_tried tried p \<and> rr_usable now cd (rs_peer g ! p)"
proof (induction step num zone now cd tried g h tries locks rule: hash_loop.induct)
  case (1 step num zone now cd tried g h tries locks)
  from hash_ready_walk [OF 1(3), of "num (step h)"] obtain q where q: "rs_total_weight g \<noteq> 0" "q < length (rs_peer g)"
    "hash_walk (sint (num (step h) mod rs_total_weight g)) (rs_peer g) = Some q" by blast
  note round = hash_loop_round [of g num step h q, OF q(1,3)]
  with 1(2) obtain b l where t: "hash_try zone now cd tried (rs_peer g) locks q = Some (b, l)"
    by (cases "hash_try zone now cd tried (rs_peer g) locks q") auto
  show ?case
  proof (cases b)
    case True
    with 1(2) round(2) t have "p = q" by simp
    with True t q(2) hash_try_True [of zone now cd tried "rs_peer g" locks q l] show ?thesis by simp
  next
    case False
    with 1(2) round(3) t have "hash_loop step num zone now cd tried g (step h) (Suc tries) l = Some (Hash_Found p, h', tries', locks')"
      "\<not> Suc tries > 20"
      by (simp_all split: if_splits)
    with 1(1) [OF refl q(1,3) t] False 1(3) show ?thesis by blast
  qed
qed

text \<open>Without a zone, or with no peer the checks hold for down, it ends, and no lock stays behind.\<close>

lemma hash_loop_returns:
  "hash_ready g \<Longrightarrow> \<not> zone \<or> locks = [] \<and> (\<forall>p \<in> set (rs_peer g). \<not> cd (rp_check_index p)) \<Longrightarrow>
     \<exists>r h' tries'. hash_loop step num zone now cd tried g h tries locks = Some (r, h', tries', locks)"
proof (induction step num zone now cd tried g h tries locks rule: hash_loop.induct)
  case (1 step num zone now cd tried g h tries locks)
  from hash_ready_walk [OF 1(2), of "num (step h)"] obtain q where q: "rs_total_weight g \<noteq> 0" "q < length (rs_peer g)"
    "hash_walk (sint (num (step h) mod rs_total_weight g)) (rs_peer g) = Some q" by blast
  then obtain b where t: "hash_try zone now cd tried (rs_peer g) locks q = Some (b, locks)"
    using hash_try_free [of zone locks cd "rs_peer g" q] 1(3) nth_mem by blast
  show ?case
  proof (cases "b \<or> Suc tries > 20")
    case True
    with t hash_loop_round(2,3) [of g num step h q, OF q(1,3)] show ?thesis by (cases b) simp_all
  next
    case False
    with 1(1) [OF refl q(1,3) t] 1(2,3) obtain r h' t'
      where "hash_loop step num zone now cd tried g (step h) (Suc tries) locks = Some (r, h', t', locks)" by blast
    with False t hash_loop_round(3) [of g num step h q, OF q(1,3)] show ?thesis by simp
  qed
qed

subsection \<open>What a request gets\<close>

lemma hash_take_sel [simp]:
  "rr_static (hash_take now p) = rr_static p" "rp_current_weight (hash_take now p) = rp_current_weight p"
  "rr_weight_ok (hash_take now p) = rr_weight_ok p" "rp_conns (hash_take now p) = rp_conns p + 1"
  by (simp_all add: hash_take_def rr_static_def rr_weight_ok_def)

lemma hash_take_took:
  assumes "p < length ps"
  shows "rr_took p ps (ps[p := hash_take now (ps ! p)])"
  using assms by (auto simp: rr_took_def nth_list_update map_update sum_list_update_int)

lemma rr_peers_list: "rr_peers rrp up = Some g \<Longrightarrow> rr_list (rrp_next rrp) up = rs_peer g"
  by (auto simp: rr_peers_def rr_list_def split: if_splits)

lemma rr_peers_shape: "rr_peers rrp up = Some g \<Longrightarrow> rr_shaped up \<Longrightarrow> rr_shape g"
  by (auto simp: rr_peers_def rr_shaped_def split: if_splits)

lemma rr_put_facts:
  assumes "rr_peers rrp up = Some g" "rr_shaped up" "length ps = length (rs_peer g)"
  shows "rr_list (rrp_next rrp) (rr_put rrp (g\<lparr>rs_peer := ps\<rparr>) up) = ps"
    and "rr_list (\<not> rrp_next rrp) (rr_put rrp (g\<lparr>rs_peer := ps\<rparr>) up) = rr_list (\<not> rrp_next rrp) up"
    and "rr_shaped (rr_put rrp (g\<lparr>rs_peer := ps\<rparr>) up)"
    and "ru_next (rr_put rrp (g\<lparr>rs_peer := ps\<rparr>) up) = None \<longleftrightarrow> ru_next up = None"
  using assms by (auto simp: rr_put_def rr_list_def rr_peers_def rr_shaped_def rr_shape_def split: if_splits)

lemma hash_found_got:
  assumes "rr_peers rrp up = Some g" "rr_shaped up" "p < length (rs_peer g)" "rr_usable now cd (rs_peer g ! p)"
    and "\<not> rr_tried (rrp_tried rrp) p" "hash_found now g p pc rrp up = (pc', rrp', up')"
  shows "rr_got now cd rrp rrp' p up up'" "pc' = rr_found (rr_list (rrp_next rrp') up ! p) pc"
proof -
  let ?ps = "(rs_peer g)[p := hash_take now (rs_peer g ! p)]"
  have e: "pc' = rr_found (rs_peer g ! p) pc" "rrp' = rrp\<lparr>rrp_current := Some (rrp_next rrp, p), rrp_tried := rr_mark (rrp_tried rrp) p\<rparr>"
    "up' = rr_put rrp (g\<lparr>rs_peer := ?ps\<rparr>) up"
    using assms(6) by (simp_all add: hash_found_def)
  have l: "length ?ps = length (rs_peer g)" by simp
  note l = rr_put_facts [OF assms(1,2) l] rr_peers_list [OF assms(1)]
  show "rr_got now cd rrp rrp' p up up'"
    unfolding e rr_got_def using l hash_take_took [OF assms(3)] assms(4,5) by (auto simp: Let_def rr_usable_def not_le)
  show "pc' = rr_found (rr_list (rrp_next rrp') up ! p) pc"
    unfolding e using l by simp
qed

text \<open>The outcome of a request that starts with the primary peers: it has one that may be used, or there is none.\<close>

definition hash_outcome ::
  "int \<Rightarrow> (ngx_uint_t \<Rightarrow> bool) \<Rightarrow> ngx_http_upstream_rr_peer_data_t \<Rightarrow> rr_upstream
     \<Rightarrow> ngx_rc \<Rightarrow> rr_pc \<Rightarrow> ngx_http_upstream_rr_peer_data_t \<Rightarrow> rr_upstream \<Rightarrow> bool" where
  "hash_outcome now cd rrp up rc pc' rrp' up' \<longleftrightarrow>
     rc = NGX_OK \<and> (\<exists>i. rr_got now cd rrp rrp' i up up'
       \<and> pc_sockaddr pc' = a_sockaddr (rp_addr (rr_list (rrp_next rrp') up ! i))
       \<and> pc_name pc' = a_name (rp_addr (rr_list (rrp_next rrp') up ! i)))
     \<or> rc = NGX_BUSY \<and> up' = up
       \<and> (\<forall>k < length (rr_list False up). rr_tried (rrp_tried rrp) k \<or> \<not> rr_usable now cd (rr_list False up ! k))
       \<and> (\<forall>p \<in> set (rr_list True up). \<not> rr_usable now cd p)"

lemma rr_outcome:
  assumes "\<not> rrp_next rrp" "rr_shaped up"
  shows "\<exists>rc pc' rrp' up'. ngx_http_upstream_get_round_robin_peer now cd pc rrp up = Some (rc, pc', rrp', up')
      \<and> hash_outcome now cd rrp up rc pc' rrp' up'"
    and "\<exists>rc pc' rrp' up'. ngx_stream_upstream_get_round_robin_peer now cd pc rrp up = Some (rc, pc', rrp', up')
      \<and> hash_outcome now cd rrp up rc pc' rrp' up'"
proof -
  obtain rc pc' rrp' up' where h: "ngx_http_upstream_get_round_robin_peer now cd pc rrp up = Some (rc, pc', rrp', up')"
    unfolding http_get_eq using rr_get_total [OF assms(1)] by metis
  from http_rr.get_cases [OF h [unfolded http_get_eq] assms(2)] assms(1) have "hash_outcome now cd rrp up rc pc' rrp' up'"
    by (auto simp: hash_outcome_def rr_found_def in_set_conv_nth)
  with h show "\<exists>rc pc' rrp' up'. ngx_http_upstream_get_round_robin_peer now cd pc rrp up = Some (rc, pc', rrp', up')
      \<and> hash_outcome now cd rrp up rc pc' rrp' up'" by blast
  obtain rc pc' rrp' up' where s: "ngx_stream_upstream_get_round_robin_peer now cd pc rrp up = Some (rc, pc', rrp', up')"
    unfolding stream_get_eq using rr_get_total [OF assms(1)] by metis
  from stream_rr.get_cases [OF s [unfolded stream_get_eq] assms(2)] assms(1) have "hash_outcome now cd rrp up rc pc' rrp' up'"
    by (auto simp: hash_outcome_def rr_found_def in_set_conv_nth)
  with s show "\<exists>rc pc' rrp' up'. ngx_stream_upstream_get_round_robin_peer now cd pc rrp up = Some (rc, pc', rrp', up')
      \<and> hash_outcome now cd rrp up rc pc' rrp' up'" by blast
qed

lemma found_outcome:
  assumes "\<not> rrp_next rrp" "rr_shaped up" "hash_ready (ru_peers up)"
    and "hash_loop step num zone now cd (rrp_tried rrp) (ru_peers up) h tries locks = Some (Hash_Found p, h', tries', locks')"
    and "hash_found now (ru_peers up) p pc rrp up = (pc', rrp', up')"
  shows "hash_outcome now cd rrp up NGX_OK pc' rrp' up'"
proof -
  have g: "rr_peers rrp up = Some (ru_peers up)" using assms(1) by (simp add: rr_peers_def)
  note f = hash_loop_found [OF assms(4,3)]
  from hash_found_got [OF g assms(2) _ _ _ assms(5), of cd] f show ?thesis
    by (auto simp: hash_outcome_def rr_found_def)
qed

lemma ip_hash_outcome:
  assumes "\<not> rrp_next (ih_rrp ih)" "rr_shaped up" "hash_ready (ru_peers up)"
    and "\<not> zone \<or> locks = [] \<and> (\<forall>p \<in> set (rr_list False up). \<not> cd (rp_check_index p))"
  shows "\<exists>rc pc' ih' up'. ngx_http_upstream_get_ip_hash_peer zone now cd pc ih locks up = Some (rc, pc', ih', locks, up')
    \<and> hash_outcome now cd (ih_rrp ih) up rc pc' (ih_rrp ih') up'"
proof -
  let ?G = "ngx_http_upstream_get_ip_hash_peer zone now cd pc ih locks up"
  have g: "rr_peers (ih_rrp ih) up = Some (ru_peers up)" using assms(1) by (simp add: rr_peers_def)
  note rr = rr_outcome(1) [OF assms(1,2), of now cd]
  show ?thesis
  proof (cases "ih_tries ih > 20 \<or> rs_single (ru_peers up)")
    case True
    with g have "?G = map_option (\<lambda>(rc, pc, rrp, up). (rc, pc, ih\<lparr>ih_rrp := rrp\<rparr>, locks, up))
        (ngx_http_upstream_get_round_robin_peer now cd pc (ih_rrp ih) up)"
      by (simp add: ngx_http_upstream_get_ip_hash_peer_def Let_def)
    with rr [of pc] show ?thesis by auto
  next
    case False
    from assms(4) have z: "\<not> zone \<or> locks = [] \<and> (\<forall>p \<in> set (rs_peer (ru_peers up)). \<not> cd (rp_check_index p))"
      by (simp add: rr_list_def)
    from hash_loop_returns [OF assms(3) z, of "ip_hash_step (ih_addr ih)" "\<lambda>h. h" now "rrp_tried (ih_rrp ih)" "ih_hash ih" "ih_tries ih"]
    obtain r h' t' where
      l: "hash_loop (ip_hash_step (ih_addr ih)) (\<lambda>h. h) zone now cd (rrp_tried (ih_rrp ih)) (ru_peers up) (ih_hash ih) (ih_tries ih) locks
        = Some (r, h', t', locks)" by blast
    show ?thesis
    proof (cases r)
      case (Hash_Found p)
      obtain pc' rrp' up' where f: "hash_found now (ru_peers up) p (pc\<lparr>pc_cached := False\<rparr>) (ih_rrp ih) up = (pc', rrp', up')"
        by (rule prod_cases3)
      with l g False Hash_Found found_outcome [OF assms(1-3) l [unfolded Hash_Found] f] show ?thesis
        by (simp add: ngx_http_upstream_get_ip_hash_peer_def Let_def)
    next
      case Hash_Spent
      with l g False have "?G = map_option (\<lambda>(rc, pc, rrp, up). (rc, pc, ih\<lparr>ih_tries := t', ih_rrp := rrp\<rparr>, locks, up))
          (ngx_http_upstream_get_round_robin_peer now cd (pc\<lparr>pc_cached := False\<rparr>) (ih_rrp ih) up)"
        by (simp add: ngx_http_upstream_get_ip_hash_peer_def Let_def)
      with rr [of "pc\<lparr>pc_cached := False\<rparr>"] show ?thesis by auto
    qed
  qed
qed

lemma hash_get_outcome:
  assumes "\<not> rrp_next (hp_rrp hp)" "rr_shaped up" "hash_ready (ru_peers up)"
    and "\<not> zone \<or> locks = [] \<and> (\<forall>p \<in> set (rr_list False up). \<not> cd (rp_check_index p))"
    and rr: "\<And>pc. \<exists>rc pc' rrp' up'. rr pc (hp_rrp hp) up = Some (rc, pc', rrp', up') \<and> hash_outcome now cd (hp_rrp hp) up rc pc' rrp' up'"
  shows "\<exists>rc pc' hp' up'. hash_get rr uncached zone now cd pc hp locks up = Some (rc, pc', hp', locks, up')
    \<and> hash_outcome now cd (hp_rrp hp) up rc pc' (hp_rrp hp') up'"
proof -
  have g: "rr_peers (hp_rrp hp) up = Some (ru_peers up)" using assms(1) by (simp add: rr_peers_def)
  show ?thesis
  proof (cases "hp_tries hp > 20 \<or> rs_single (ru_peers up)")
    case True
    with g have "hash_get rr uncached zone now cd pc hp locks up =
        map_option (\<lambda>(rc, pc, rrp, up). (rc, pc, hp\<lparr>hp_rrp := rrp\<rparr>, locks, up)) (rr pc (hp_rrp hp) up)"
      by (simp add: hash_get_def Let_def)
    with rr [of pc] show ?thesis by auto
  next
    case False
    from assms(4) have z: "\<not> zone \<or> locks = [] \<and> (\<forall>p \<in> set (rs_peer (ru_peers up)). \<not> cd (rp_check_index p))"
      by (simp add: rr_list_def)
    from hash_loop_returns [OF assms(3) z, of "hash_step (hp_key hp)" "\<lambda>(rehash, hash). ucast hash" now "rrp_tried (hp_rrp hp)"
        "(hp_rehash hp, hp_hash hp)" "hp_tries hp"]
    obtain r h' t' where
      l: "hash_loop (hash_step (hp_key hp)) (\<lambda>(rehash, hash). ucast hash) zone now cd (rrp_tried (hp_rrp hp)) (ru_peers up)
          (hp_rehash hp, hp_hash hp) (hp_tries hp) locks = Some (r, h', t', locks)" by blast
    let ?hp = "hp\<lparr>hp_tries := t', hp_rehash := fst h', hp_hash := snd h'\<rparr>"
    show ?thesis
    proof (cases r)
      case (Hash_Found p)
      obtain pc' rrp' up' where f: "hash_found now (ru_peers up) p (uncached pc) (hp_rrp hp) up = (pc', rrp', up')"
        by (rule prod_cases3)
      with l g False Hash_Found found_outcome [OF assms(1-3) l [unfolded Hash_Found] f] show ?thesis
        by (simp add: hash_get_def Let_def case_prod_unfold)
    next
      case Hash_Spent
      with l g False have "hash_get rr uncached zone now cd pc hp locks up =
          map_option (\<lambda>(rc, pc, rrp, up). (rc, pc, ?hp\<lparr>hp_rrp := rrp\<rparr>, locks, up)) (rr (uncached pc) (hp_rrp hp) up)"
        by (simp add: hash_get_def Let_def case_prod_unfold)
      with rr [of "uncached pc"] show ?thesis by auto
    qed
  qed
qed

subsection \<open>From the configuration\<close>

lemma rr_servers_weights:
  "map rp_weight (fst (rr_servers add b svs k cps)) =
     concat (map (\<lambda>sv. replicate (length (sv_addrs sv)) (sint (sv_weight sv))) (filter (\<lambda>sv. sv_backup sv = b) svs))"
proof -
  have a: "map rp_weight (fst (rr_addrs add sv addrs k cps)) = replicate (length addrs) (sint (sv_weight sv))" for sv addrs k cps
  proof (induction addrs arbitrary: k cps)
    case (Cons x xs)
    obtain index k1 cps1 where i: "(if \<not> sv_down sv then (case add k x cps of (index, cps) \<Rightarrow> (index, Suc k, cps)) else (- 1, k, cps)) = (index, k1, cps1)"
      by (rule prod_cases3)
    obtain ps k2 cps2 where r: "rr_addrs add sv xs k1 cps1 = (ps, k2, cps2)" by (rule prod_cases3)
    show ?case
      unfolding rr_addrs.simps i Let_def using Cons.IH [of k1 cps1] r by (simp add: rr_server_peer_def)
  qed simp
  show ?thesis
  proof (induction svs arbitrary: k cps)
    case (Cons sv svs)
    obtain ps k1 cps1 where r: "rr_addrs add sv (sv_addrs sv) k cps = (ps, k1, cps1)" by (rule prod_cases3)
    obtain qs k2 cps2 where s: "rr_servers add b svs k1 cps1 = (qs, k2, cps2)" by (rule prod_cases3)
    from Cons.IH [of k1 cps1] Cons.IH [of k cps] a [of sv "sv_addrs sv" k cps] r s show ?case by simp
  qed simp
qed

lemma sum_list_replicate_int: "sum_list (replicate n (x :: int)) = int n * x"
  by (induction n) (simp_all add: algebra_simps)

text \<open>The lists of an upstream are ready for the hash balancers, if the weights are not negative, some weight is positive
  and the total fits.\<close>

lemma rr_group_total:
  assumes "t = (\<Sum>sv \<leftarrow> filter (\<lambda>sv. sv_backup sv = b) svs. int (length (sv_addrs sv)) * sint (sv_weight sv))"
  shows "sum_list (map rp_weight (fst (rr_servers add b svs k cps))) = t" "rr_total b svs = of_int t"
  unfolding rr_servers_weights rr_total_def assms by (induction svs) (simp_all add: sum_list_replicate_int)

lemma rr_group_ready:
  assumes "\<forall>sv \<in> set svs. 0 \<le> sint (sv_weight sv)"
    and "t = (\<Sum>sv \<leftarrow> filter (\<lambda>sv. sv_backup sv = b) svs. int (length (sv_addrs sv)) * sint (sv_weight sv))" "0 < t" "t < 2 ^ 63"
  shows "hash_ready (rr_group b host single svs (fst (rr_servers add b svs k cps)))"
proof -
  have "0 \<le> rp_weight p" if "p \<in> set (fst (rr_servers add b svs k cps))" for p
  proof -
    from that have "rp_weight p \<in> set (map rp_weight (fst (rr_servers add b svs k cps)))" by simp
    then show ?thesis unfolding rr_servers_weights using assms(1) by auto
  qed
  with rr_group_total(1) [OF assms(2), of add k cps] rr_group_total(2) [OF assms(2)] assms(3,4) show ?thesis by (simp add: hash_ready_def rr_group_def Let_def)
qed

lemma init_peers:
  assumes "rr_init pcalloc add resolve host port (Some svs) cps = (NGX_OK, Some up, cps')"
  obtains single where "ru_peers up = rr_group False host single svs (fst (rr_servers add False svs 0 cps))"
proof -
  from assms have "ru_peers up = rr_group False host (rr_count False svs = 1) svs (fst (rr_servers add False svs 0 cps))
      \<or> ru_peers up = rr_group False host False svs (fst (rr_servers add False svs 0 cps))"
    by (auto simp: rr_init_def rr_group_def Let_def split: if_splits prod.splits)
  with that show ?thesis by blast
qed

lemma init_hash_ready:
  assumes "rr_init pcalloc add resolve host port (Some svs) cps = (NGX_OK, Some up, cps')"
    and "\<forall>sv \<in> set svs. 0 \<le> sint (sv_weight sv)"
    and "t = (\<Sum>sv \<leftarrow> filter (\<lambda>sv. sv_backup sv = False) svs. int (length (sv_addrs sv)) * sint (sv_weight sv))" "0 < t" "t < 2 ^ 63"
  shows "hash_ready (ru_peers up)" "sum_list (map rp_weight (rs_peer (ru_peers up))) = t"
proof -
  obtain single where g: "ru_peers up = rr_group False host single svs (fst (rr_servers add False svs 0 cps))"
    by (rule init_peers [OF assms(1)])
  show "hash_ready (ru_peers up)" unfolding g by (rule rr_group_ready [OF assms(2-5)])
  show "sum_list (map rp_weight (rs_peer (ru_peers up))) = t"
    using rr_group_total(1) [OF assms(3), of add 0 cps] by (simp add: g rr_group_def)
qed

subsection \<open>Locks that stay behind\<close>

lemma hash_try_locks: "hash_try zone now cd tried ps locks p = Some (b, l) \<Longrightarrow> set locks \<subseteq> set l"
  by (auto simp: hash_try_def Let_def split: if_splits)

lemma hash_loop_locks:
  "hash_loop step num zone now cd tried g h tries locks = Some (r, h', tries', l) \<Longrightarrow> set locks \<subseteq> set l"
proof (induction step num zone now cd tried g h tries locks rule: hash_loop.induct)
  case (1 step num zone now cd tried g h tries locks)
  note e = hash_loop.simps [of step num zone now cd tried g h tries locks]
  from 1(2) obtain p where p: "rs_total_weight g \<noteq> 0" "hash_walk (sint (num (step h) mod rs_total_weight g)) (rs_peer g) = Some p"
    by (auto simp: e Let_def split: if_splits option.splits)
  note round = hash_loop_round [of g num step h p, OF p]
  with 1(2) obtain b k where t: "hash_try zone now cd tried (rs_peer g) locks p = Some (b, k)"
    by (cases "hash_try zone now cd tried (rs_peer g) locks p") auto
  note s = hash_try_locks [OF t]
  show ?case
  proof (cases "b \<or> Suc tries > 20")
    case True
    with 1(2) round(2,3) t s show ?thesis by (cases b) auto
  next
    case False
    with 1(2) round(3) t have "hash_loop step num zone now cd tried g (step h) (Suc tries) k = Some (r, h', tries', l)" by simp
    with 1(1) [OF refl p t] False s show ?thesis by blast
  qed
qed

lemma hash_loop_leak:
  assumes "hash_loop step num True now cd tried g h tries locks = Some (r, h', tries', l)"
    and "hash_walk (sint (num (step h) mod rs_total_weight g)) (rs_peer g) = Some p" "rs_total_weight g \<noteq> 0"
    and "\<not> rr_tried tried p" "\<not> rp_down (rs_peer g ! p)" "cd (rp_check_index (rs_peer g ! p))"
  shows "p \<in> set l"
proof (rule ccontr)
  assume n: "p \<notin> set l"
  note round = hash_loop_round [of g num step h p, OF assms(3,2)]
  have "p \<notin> set locks" using n hash_loop_locks [OF assms(1)] by blast
  with assms(4-6) have t: "hash_try True now cd tried (rs_peer g) locks p = Some (False, p # locks)"
    by (simp add: hash_try_def Let_def)
  with assms(1) round(3) [OF t, of tries] n hash_loop_locks [of step num True now cd tried g "step h" "Suc tries" "p # locks" r h' tries' l]
  show False by (auto split: if_splits)
qed

lemma hash_loop_stuck:
  assumes "hash_walk (sint (num (step h) mod rs_total_weight g)) (rs_peer g) = Some p" "rs_total_weight g \<noteq> 0"
    and "\<not> rr_tried tried p" "p \<in> set locks"
  shows "hash_loop step num True now cd tried g h tries locks = None"
proof -
  from assms(3,4) have "hash_try True now cd tried (rs_peer g) locks p = None" by (simp add: hash_try_def)
  from hash_loop_round(1) [of g num step h p, OF assms(2,1) this] show ?thesis .
qed

text \<open>The request's next hash leads to position \<open>p\<close> of the list \<open>g\<close>, which it has not tried.\<close>

definition ip_hash_next :: "ngx_http_upstream_ip_hash_peer_data_t \<Rightarrow> rr_upstream \<Rightarrow> ngx_http_upstream_rr_peers_t \<Rightarrow> nat \<Rightarrow> bool" where
  "ip_hash_next ih up g p \<longleftrightarrow>
     rr_peers (ih_rrp ih) up = Some g \<and> \<not> ih_tries ih > 20 \<and> \<not> rs_single g \<and> rs_total_weight g \<noteq> 0
     \<and> hash_walk (sint (ip_hash_step (ih_addr ih) (ih_hash ih) mod rs_total_weight g)) (rs_peer g) = Some p
     \<and> \<not> rr_tried (rrp_tried (ih_rrp ih)) p"

definition hash_next :: "ngx_http_upstream_hash_peer_data_t \<Rightarrow> rr_upstream \<Rightarrow> ngx_http_upstream_rr_peers_t \<Rightarrow> nat \<Rightarrow> bool" where
  "hash_next hp up g p \<longleftrightarrow>
     rr_peers (hp_rrp hp) up = Some g \<and> \<not> hp_tries hp > 20 \<and> \<not> rs_single g \<and> rs_total_weight g \<noteq> 0
     \<and> hash_walk (sint (ucast (snd (hash_step (hp_key hp) (hp_rehash hp, hp_hash hp))) mod rs_total_weight g)) (rs_peer g) = Some p
     \<and> \<not> rr_tried (rrp_tried (hp_rrp hp)) p"

lemma hash_get_stuck:
  assumes "hash_next hp up g p" "p \<in> set locks"
  shows "hash_get rr uncached True now cd pc hp locks up = None"
proof -
  note f = assms(1) [unfolded hash_next_def]
  have "hash_loop (hash_step (hp_key hp)) (\<lambda>(rehash, hash). ucast hash) True now cd (rrp_tried (hp_rrp hp)) g
      (hp_rehash hp, hp_hash hp) (hp_tries hp) locks = None"
    by (rule hash_loop_stuck [of _ _ _ _ p]) (use f assms(2) in \<open>auto simp: case_prod_unfold\<close>)
  with f show ?thesis by (simp add: hash_get_def Let_def)
qed

lemma hash_get_leak:
  assumes "hash_next hp up g p" "\<not> rp_down (rs_peer g ! p)" "cd (rp_check_index (rs_peer g ! p))"
    and "hash_get rr uncached True now cd pc hp locks up = Some (rc, pc', hp', locks', up')"
  shows "p \<in> set locks'"
proof -
  note f = assms(1) [unfolded hash_next_def]
  let ?l = "hash_loop (hash_step (hp_key hp)) (\<lambda>(rehash, hash). ucast hash) True now cd (rrp_tried (hp_rrp hp)) g
      (hp_rehash hp, hp_hash hp) (hp_tries hp) locks"
  from assms(4) f obtain r h t where l: "?l = Some (r, h, t, locks')"
    by (cases ?l) (auto simp: hash_get_def Let_def split: hash_end.splits prod.splits)
  show ?thesis
    by (rule hash_loop_leak [OF l]) (use f assms(2,3) in \<open>auto simp: case_prod_unfold\<close>)
qed

text \<open>C9: The hash balancers return. Without a zone, or as long as the checks hold no peer for down, the balancer by client
  address and the balancers by key of both modules hand out a peer that is not down, that no check holds for down and that
  has a connection left, or there is no peer left that could take the request; no lock stays behind.\<close>

theorem hash_balancers_return:
  assumes "\<not> rrp_next (ih_rrp ih)" "\<not> rrp_next (hp_rrp hp)" "rr_shaped up" "hash_ready (ru_peers up)"
    and "\<not> zone \<or> (\<forall>p \<in> set (rr_list False up). \<not> cd (rp_check_index p))"
  shows "(\<exists>rc pc' ih' up'. ngx_http_upstream_get_ip_hash_peer zone now cd pc ih [] up = Some (rc, pc', ih', [], up')
      \<and> hash_outcome now cd (ih_rrp ih) up rc pc' (ih_rrp ih') up')
    \<and> (\<exists>rc pc' hp' up'. ngx_http_upstream_get_hash_peer zone now cd pc hp [] up = Some (rc, pc', hp', [], up')
      \<and> hash_outcome now cd (hp_rrp hp) up rc pc' (hp_rrp hp') up')
    \<and> (\<exists>rc pc' hp' up'. ngx_stream_upstream_get_hash_peer zone now cd pc hp [] up = Some (rc, pc', hp', [], up')
      \<and> hash_outcome now cd (hp_rrp hp) up rc pc' (hp_rrp hp') up')"
proof -
  from assms(5) have z: "\<not> zone \<or> [] = [] \<and> (\<forall>p \<in> set (rr_list False up). \<not> cd (rp_check_index p))" by simp
  show ?thesis
    unfolding ngx_http_upstream_get_hash_peer_def ngx_stream_upstream_get_hash_peer_def
    by (intro conjI ip_hash_outcome [OF assms(1,3,4) z] hash_get_outcome [OF assms(2-4) z] rr_outcome [OF assms(2,3)])
qed

lemma hash_key_leaks_lock:
  assumes "hash_next hp up g p" "\<not> rp_down (rs_peer g ! p)" "cd (rp_check_index (rs_peer g ! p))" "hash_next hp2 up2 g2 p"
    and "ngx_http_upstream_get_hash_peer True now cd pc hp locks up = Some (rc, pc', hp', locks', up')
      \<or> ngx_stream_upstream_get_hash_peer True now cd pc hp locks up = Some (rc, pc', hp', locks', up')"
  shows "ngx_http_upstream_get_hash_peer True now2 cd2 pc2 hp2 locks' up2 = None"
    and "ngx_stream_upstream_get_hash_peer True now2 cd2 pc2 hp2 locks' up2 = None"
proof -
  from assms(5) have "p \<in> set locks'"
    unfolding ngx_http_upstream_get_hash_peer_def ngx_stream_upstream_get_hash_peer_def
    using hash_get_leak [of hp up g p cd, OF assms(1-3)] by blast
  from hash_get_stuck [OF assms(4) this] show "ngx_http_upstream_get_hash_peer True now2 cd2 pc2 hp2 locks' up2 = None"
    and "ngx_stream_upstream_get_hash_peer True now2 cd2 pc2 hp2 locks' up2 = None"
    by (simp_all add: ngx_http_upstream_get_hash_peer_def ngx_stream_upstream_get_hash_peer_def)
qed

text \<open>C10: In an upstream with a zone the balancer by client address leaves the lock of a peer that the checks hold for
  down locked when a request has come to the peer: a later request whose next hash leads there never returns, whatever
  the checks say by then.\<close>

theorem ip_hash_leaks_lock:
  assumes "ip_hash_next ih up g p" "\<not> rp_down (rs_peer g ! p)" "cd (rp_check_index (rs_peer g ! p))"
    and "ngx_http_upstream_get_ip_hash_peer True now cd pc ih locks up = Some (rc, pc', ih', locks', up')"
    and "ip_hash_next ih2 up2 g2 p"
  shows "ngx_http_upstream_get_ip_hash_peer True now2 cd2 pc2 ih2 locks' up2 = None"
proof -
  note f = assms(1) [unfolded ip_hash_next_def] and f2 = assms(5) [unfolded ip_hash_next_def]
  let ?l = "hash_loop (ip_hash_step (ih_addr ih)) (\<lambda>h. h) True now cd (rrp_tried (ih_rrp ih)) g (ih_hash ih) (ih_tries ih) locks"
  from assms(4) f obtain r h t where l: "?l = Some (r, h, t, locks')"
    by (cases ?l) (auto simp: ngx_http_upstream_get_ip_hash_peer_def Let_def split: hash_end.splits prod.splits)
  have p: "p \<in> set locks'" by (rule hash_loop_leak [OF l]) (use f assms(2,3) in auto)
  have "hash_loop (ip_hash_step (ih_addr ih2)) (\<lambda>h. h) True now2 cd2 (rrp_tried (ih_rrp ih2)) g2 (ih_hash ih2) (ih_tries ih2) locks' = None"
    by (rule hash_loop_stuck [of _ _ _ _ p]) (use f2 p in auto)
  with f2 show ?thesis by (simp add: ngx_http_upstream_get_ip_hash_peer_def Let_def)
qed

subsection \<open>Clients stay with their peer\<close>

lemma rr_init_peer_fresh:
  assumes "rr_init_peer palloc pcalloc junk up = Some (rrp, tries)" "rr_shaped up"
  shows "\<not> rrp_next rrp" "k < length (rr_list False up) \<Longrightarrow> \<not> rr_tried (rrp_tried rrp) k"
proof -
  let ?n = "case ru_next up of Some b \<Rightarrow> if rs_number b > rs_number (ru_peers up) then rs_number b else rs_number (ru_peers up)
      | None \<Rightarrow> rs_number (ru_peers up)"
  let ?w = "if ?n \<le> 64 then 1 else (?n + 63) div 64"
  from assms(1) have r: "\<not> rrp_next rrp" "rrp_tried rrp = replicate ?w 0"
    by (auto simp: rr_init_peer_def Let_def split: if_splits)
  have l: "length (rr_list False up) \<le> ?n" using assms(2) by (simp add: rr_shaped_def rr_shape_def rr_list_def split: option.splits)
  show "\<not> rrp_next rrp" by (rule r(1))
  assume "k < length (rr_list False up)"
  with l have k: "k < ?n" by linarith
  show "\<not> rr_tried (rrp_tried rrp) k"
  proof (cases "?n \<le> 64")
    case True
    with k have "k < 64" by linarith
    from rr_tried_cleared [OF this, of "[]"] True r(2) show ?thesis by simp
  next
    case False
    with rr_tried_cleared [OF k, of "[]"] r(2) show ?thesis by simp
  qed
qed

lemma ip_hash_usable:
  assumes "ip_hash_next ih up g p" "rr_usable now cd (rs_peer g ! p)"
  shows "\<exists>pc' ih' up'. ngx_http_upstream_get_ip_hash_peer zone now cd pc ih [] up = Some (NGX_OK, pc', ih', [], up')
    \<and> rrp_current (ih_rrp ih') = Some (rrp_next (ih_rrp ih), p)"
proof -
  note f = assms(1) [unfolded ip_hash_next_def]
  have t: "hash_try zone now cd (rrp_tried (ih_rrp ih)) (rs_peer g) [] p = Some (True, [])"
    using f assms(2) by (auto simp: hash_try_def rr_usable_def Let_def)
  have "hash_loop (ip_hash_step (ih_addr ih)) (\<lambda>h. h) zone now cd (rrp_tried (ih_rrp ih)) g (ih_hash ih) (ih_tries ih) []
      = Some (Hash_Found p, ip_hash_step (ih_addr ih) (ih_hash ih), ih_tries ih, [])"
    using hash_loop_round(2) [of g "\<lambda>h. h" "ip_hash_step (ih_addr ih)" "ih_hash ih" p, OF _ _ t] f by blast
  with f show ?thesis by (simp add: ngx_http_upstream_get_ip_hash_peer_def hash_found_def Let_def)
qed

text \<open>C13: Clients stay with their peer. For given weights every IPv4 network of 24 bits has one position in the list,
  and a new request of any of its clients, at any time and whatever other requests have done, gets the peer at that
  position if the peer can take it.\<close>

theorem ip_hash_sticky:
  assumes "hash_ready g"
  shows "\<exists>p < length (rs_peer g). \<forall>sa zone now cd pc palloc pcalloc junk up ih tries.
    sa_family sa = AF_INET \<and> take 3 (sin_addr sa) = net \<and> ngx_http_upstream_init_ip_hash_peer palloc pcalloc junk sa up = Some (ih, tries)
    \<and> rr_shaped up \<and> map rp_weight (rr_list False up) = map rp_weight (rs_peer g) \<and> rs_total_weight (ru_peers up) = rs_total_weight g
    \<and> \<not> rs_single (ru_peers up) \<and> rr_usable now cd (rr_list False up ! p)
    \<longrightarrow> (\<exists>pc' ih' up'. ngx_http_upstream_get_ip_hash_peer zone now cd pc ih [] up = Some (NGX_OK, pc', ih', [], up')
          \<and> rrp_current (ih_rrp ih') = Some (False, p))"
proof -
  from hash_ready_walk [OF assms, of "ip_hash_step net 89"] obtain p where p: "rs_total_weight g \<noteq> 0" "p < length (rs_peer g)"
    "hash_walk (sint (ip_hash_step net 89 mod rs_total_weight g)) (rs_peer g) = Some p" by blast
  have "\<exists>pc' ih' up'. ngx_http_upstream_get_ip_hash_peer zone now cd pc ih [] up = Some (NGX_OK, pc', ih', [], up')
      \<and> rrp_current (ih_rrp ih') = Some (False, p)"
    if a: "sa_family sa = AF_INET" "take 3 (sin_addr sa) = net" and i: "ngx_http_upstream_init_ip_hash_peer palloc pcalloc junk sa up = Some (ih, tries)"
      and s: "rr_shaped up" and w: "map rp_weight (rr_list False up) = map rp_weight (rs_peer g)" "rs_total_weight (ru_peers up) = rs_total_weight g"
      and u: "\<not> rs_single (ru_peers up)" "rr_usable now cd (rr_list False up ! p)"
    for sa zone now cd pc palloc pcalloc junk up ih tries
  proof -
    from i a have e: "rr_init_peer True pcalloc (Some junk) up = Some (ih_rrp ih, tries)" "ih_hash ih = 89" "ih_addr ih = net" "ih_tries ih = 0"
      by (auto simp: ngx_http_upstream_init_ip_hash_peer_def ngx_http_upstream_init_round_robin_peer_def split: if_splits)
    have l: "length (rr_list False up) = length (rs_peer g)" using w(1) by (metis length_map)
    note f = rr_init_peer_fresh [OF e(1) s]
    have "ip_hash_next ih up (ru_peers up) p"
      unfolding ip_hash_next_def using e f l p u(1) w hash_walk_weights [OF w(1)]
      by (simp add: rr_peers_def rr_list_def)
    from ip_hash_usable [OF this, of now cd zone pc] u(2) f(1) show ?thesis by (simp add: rr_list_def)
  qed
  with p(2) show ?thesis by blast
qed

subsection \<open>Samples\<close>

text \<open>Two checked peers, and a request of the client 10.0.1.7, whose hashes lead to the first peer and then to the second.\<close>

definition sample_hashed :: rr_upstream where
  "sample_hashed =
     \<lparr>ru_peers = \<lparr>rs_number = 2, rs_total_weight = 2, rs_single = False, rs_weighted = False, rs_name = ''db'',
                   rs_peer = [rr_server_peer (sample_sv False sample_server) sample_server 0,
                              rr_server_peer (sample_sv False sample_backup) sample_backup 1]\<rparr>,
      ru_next = None\<rparr>"

definition sample_client :: string where
  "sample_client = sockaddr_in 4711 [CHR 0x0A, NUL, CHR 0x01, CHR 0x07]"

definition sample_ih :: ngx_http_upstream_ip_hash_peer_data_t where
  "sample_ih = \<lparr>ih_rrp = sample_rrp, ih_hash = 89, ih_addr = [CHR 0x0A, NUL, CHR 0x01], ih_tries = 0\<rparr>"

definition sample_hp :: ngx_http_upstream_hash_peer_data_t where
  "sample_hp = \<lparr>hp_rrp = sample_rrp, hp_key = ''/index.html'', hp_tries = 0, hp_rehash = 0, hp_hash = 0\<rparr>"

lemma sample_hashed_facts:
  "rr_shaped sample_hashed" "hash_ready (ru_peers sample_hashed)" "\<not> rrp_next sample_rrp" "rs_total_weight (ru_peers sample_hashed) = 2"
  by (simp_all add: sample_hashed_def rr_shaped_def rr_shape_def hash_ready_def rr_server_peer_def sample_sv_def sample_rrp_def)

lemma sample_steps:
  "ip_hash_step [CHR 0x0A, NUL, CHR 0x01] 89 = 2566" "ip_hash_step [CHR 0x0A, NUL, CHR 0x01] 2566 = 2321"
  by (simp_all add: ip_hash_step_def of_char_def)

lemma sample_walk:
  "hash_walk (sint ((2566 :: 64 word) mod 2)) (rs_peer (ru_peers sample_hashed)) = Some 0"
  "hash_walk (sint ((2321 :: 64 word) mod 2)) (rs_peer (ru_peers sample_hashed)) = Some 1"
  by (simp_all add: sample_hashed_def rr_server_peer_def sample_sv_def)

lemma sample_ih_init: "ngx_http_upstream_init_ip_hash_peer True True sample_rrp sample_client sample_hashed = Some (sample_ih, 2)"
  by (simp add: ngx_http_upstream_init_ip_hash_peer_def ngx_http_upstream_init_round_robin_peer_def rr_init_peer_def sample_client_def
      sockaddr_in_def sa_family_def AF_INET_def sin_addr_def be16_def sample_ih_def sample_rrp_def sample_hashed_def)

lemma sample_ih_next: "ip_hash_next sample_ih sample_hashed (ru_peers sample_hashed) 0"
  using sample_steps(1) sample_walk(1) sample_hashed_facts(4)
  by (simp add: ip_hash_next_def rr_peers_def sample_ih_def sample_rrp_def rr_tried_def) (simp add: sample_hashed_def)

lemma hash_balancers_return_witness:
  "\<exists>rc pc' hp' up'. ngx_stream_upstream_get_hash_peer False 100 (\<lambda>ix. ix = 0) sample_pc sample_hp [] sample_hashed = Some (rc, pc', hp', [], up')
     \<and> hash_outcome 100 (\<lambda>ix. ix = 0) sample_rrp sample_hashed rc pc' (hp_rrp hp') up'"
proof -
  have "\<not> rrp_next (ih_rrp sample_ih)" "\<not> rrp_next (hp_rrp sample_hp)" "hp_rrp sample_hp = sample_rrp"
    by (simp_all add: sample_ih_def sample_hp_def sample_rrp_def)
  with hash_balancers_return [of sample_ih sample_hp sample_hashed False "\<lambda>ix. ix = 0" 100 sample_pc] sample_hashed_facts(1,2)
  show ?thesis by simp
qed

lemma ip_hash_leaks_lock_witness:
  "\<exists>pc' ih' up'. ngx_http_upstream_get_ip_hash_peer True 100 (\<lambda>ix. ix = 0) sample_pc sample_ih [] sample_hashed = Some (NGX_OK, pc', ih', [0], up')
     \<and> ngx_http_upstream_get_ip_hash_peer True 200 (\<lambda>_. False) sample_pc sample_ih [0] sample_hashed = None"
proof -
  let ?g = "ru_peers sample_hashed" and ?cd = "\<lambda>ix :: ngx_uint_t. ix = 0" and ?s = "ip_hash_step [CHR 0x0A, NUL, CHR 0x01]"
  have t: "hash_try True 100 ?cd [0] (rs_peer ?g) [] 0 = Some (False, [0])" "hash_try True 100 ?cd [0] (rs_peer ?g) [0] 1 = Some (True, [0])"
    and d: "\<not> rp_down (rs_peer ?g ! 0)" "?cd (rp_check_index (rs_peer ?g ! 0))"
    by (simp_all add: hash_try_def rr_tried_def sample_hashed_def rr_server_peer_def sample_sv_def)
  have w: "rs_total_weight ?g \<noteq> 0" "hash_walk (sint (?s 89 mod rs_total_weight ?g)) (rs_peer ?g) = Some 0"
    "hash_walk (sint (?s 2566 mod rs_total_weight ?g)) (rs_peer ?g) = Some 1"
    using sample_walk by (simp_all add: sample_steps sample_hashed_facts(4))
  have "hash_loop ?s (\<lambda>h. h) True 100 ?cd [0] ?g 89 0 [] = Some (Hash_Found 1, 2321, 1, [0])"
    using hash_loop_round(3) [of ?g "\<lambda>h. h" ?s 89 0, OF w(1,2) t(1), of 0] hash_loop_round(2) [of ?g "\<lambda>h. h" ?s 2566 1, OF w(1,3) t(2), of 1]
    by (simp add: sample_steps)
  moreover have "\<not> rs_single ?g" by (simp add: sample_hashed_def)
  ultimately obtain pc' ih' up' where
    g: "ngx_http_upstream_get_ip_hash_peer True 100 ?cd sample_pc sample_ih [] sample_hashed = Some (NGX_OK, pc', ih', [0], up')"
    by (simp add: ngx_http_upstream_get_ip_hash_peer_def sample_ih_def sample_rrp_def rr_peers_def hash_found_def Let_def)
  from ip_hash_leaks_lock [where cd = ?cd, OF sample_ih_next d g sample_ih_next] g show ?thesis by blast
qed

lemma ip_hash_sticky_witness:
  "\<exists>p. \<exists>pc' ih' up'. ngx_http_upstream_get_ip_hash_peer False 100 (\<lambda>_. False) sample_pc sample_ih [] sample_hashed = Some (NGX_OK, pc', ih', [], up')
     \<and> rrp_current (ih_rrp ih') = Some (False, p)"
proof -
  have c: "sa_family sample_client = AF_INET" "take 3 (sin_addr sample_client) = [CHR 0x0A, NUL, CHR 0x01]"
    by (simp_all add: sample_client_def sockaddr_in_def sa_family_def AF_INET_def sin_addr_def be16_def)
  have u: "rr_usable 100 (\<lambda>_. False) (rr_list False sample_hashed ! p)" if "p < length (rs_peer (ru_peers sample_hashed))" for p
    using that by (auto simp: sample_hashed_def rr_list_def rr_usable_def rr_server_peer_def sample_sv_def less_2_cases_iff nth_Cons')
  have m: "\<not> rs_single (ru_peers sample_hashed)" "map rp_weight (rr_list False sample_hashed) = map rp_weight (rs_peer (ru_peers sample_hashed))"
    by (simp_all add: sample_hashed_def rr_list_def)
  from ip_hash_sticky [OF sample_hashed_facts(2), of "[CHR 0x0A, NUL, CHR 0x01]"] c u m sample_ih_init sample_hashed_facts(1)
  show ?thesis by metis
qed

end
