(* ===== verification/Consistent_Hash.thy ===== *)
theory Consistent_Hash
  imports Hash_Balance "HOL-Library.Multiset"
begin

text \<open>
  The consistent hash of \<open>ngx_http_upstream_hash_module.c\<close> and \<open>ngx_stream_upstream_hash_module.c\<close>: the servers have points on a
  ring of 32-bit numbers, and a key belongs to the server of the first point at or after its checksum.
\<close>

subsection \<open>The points\<close>

record ngx_http_upstream_chash_point_t =
  cp_hash :: "32 word"
  cp_server :: string

definition ngx_http_upstream_chash_cmp_points ::
  "ngx_http_upstream_chash_point_t \<Rightarrow> ngx_http_upstream_chash_point_t \<Rightarrow> int" where
  "ngx_http_upstream_chash_cmp_points first second =
     (if cp_hash first < cp_hash second then - 1 else if cp_hash first > cp_hash second then 1 else 0)"

text \<open>The name of a server from its end: the number of digits behind a colon.\<close>

fun chash_colon :: "string \<Rightarrow> nat \<Rightarrow> nat option" where
  "chash_colon [] j = None"
| "chash_colon (c # cs) j =
     (if c = CHR '':'' then Some j
      else if \<not> is_digit c then None
      else chash_colon cs (Suc j))"

definition chash_host_port :: "string \<Rightarrow> string \<times> string" where
  "chash_host_port server =
     (if length server \<ge> 5 \<and> ngx_strncasecmp server ''unix:'' 5 = 0 then (drop 5 server, [])
      else
        (case chash_colon (rev server) 0 of
           Some j \<Rightarrow> (take (length server - j - 1) server, drop (length server - j) server)
         | None \<Rightarrow> (server, [])))"

definition chash_base :: "string \<Rightarrow> 32 word" where
  "chash_base server =
     (case chash_host_port server of
        (host, port) \<Rightarrow> ngx_crc32_update (ngx_crc32_update (ngx_crc32_update 0xffffffff host) [NUL]) port)"

text \<open>\<open>prev_hash.byte\<close>, and the loop over the points of one server.\<close>

definition prev_bytes :: "32 word \<Rightarrow> string" where
  "prev_bytes h = [u8 (unat h), u8 (unat (drop_bit 8 h)), u8 (unat (drop_bit 16 h)), u8 (unat (drop_bit 24 h))]"

fun chash_hashes :: "nat \<Rightarrow> 32 word \<Rightarrow> 32 word \<Rightarrow> 32 word list" where
  "chash_hashes 0 base prev = []"
| "chash_hashes (Suc n) base prev =
     (let hash = ngx_crc32_update base (prev_bytes prev) XOR 0xffffffff
      in hash # chash_hashes n base hash)"

definition chash_peer_points :: "ngx_http_upstream_rr_peer_t \<Rightarrow> ngx_http_upstream_chash_point_t list" where
  "chash_peer_points peer =
     map (\<lambda>h. \<lparr>cp_hash = h, cp_server = rp_server peer\<rparr>)
       (chash_hashes (unat (of_int (rp_weight peer) * 160 :: ngx_uint_t)) (chash_base (rp_server peer)) 0)"

definition chash_points :: "ngx_http_upstream_rr_peer_t list \<Rightarrow> ngx_http_upstream_chash_point_t list" where
  "chash_points ps = concat (map chash_peer_points ps)"

text \<open>The loop that leaves one point of each hash; the first argument is \<open>points->point[i]\<close>.\<close>

fun chash_uniq ::
  "ngx_http_upstream_chash_point_t \<Rightarrow> ngx_http_upstream_chash_point_t list \<Rightarrow> ngx_http_upstream_chash_point_t list" where
  "chash_uniq p [] = [p]"
| "chash_uniq p (q # qs) = (if cp_hash p \<noteq> cp_hash q then p # chash_uniq q qs else chash_uniq p qs)"

text \<open>The ring of a list of peers with room for \<open>room\<close> points. \<open>None\<close> is undefined: a write behind the array, or a
  point that was never set, if there is none. \<open>qsort\<close> is the function of the C library.\<close>

definition chash_ring ::
  "(ngx_http_upstream_chash_point_t list \<Rightarrow> ngx_http_upstream_chash_point_t list) \<Rightarrow> nat
     \<Rightarrow> ngx_http_upstream_rr_peer_t list \<Rightarrow> ngx_http_upstream_chash_point_t list option" where
  "chash_ring qsort room ps =
     (if length (chash_points ps) > room then None
      else (case qsort (chash_points ps) of [] \<Rightarrow> None | p # qs \<Rightarrow> Some (chash_uniq p qs)))"

definition chash_init ::
  "(ngx_http_upstream_chash_point_t list \<Rightarrow> ngx_http_upstream_chash_point_t list) \<Rightarrow> bool
     \<Rightarrow> ngx_rc \<times> rr_upstream option \<times> ngx_upstream_check_peers_t
     \<Rightarrow> (ngx_rc \<times> rr_upstream option \<times> ngx_http_upstream_chash_point_t list option \<times> ngx_upstream_check_peers_t) option" where
  "chash_init qsort palloc init =
     (case init of
        (rc, data, cps) \<Rightarrow>
          if rc \<noteq> NGX_OK then Some (NGX_ERROR, data, None, cps)
          else
            (case data of
               None \<Rightarrow> None
             | Some up \<Rightarrow>
                 if \<not> palloc then Some (NGX_ERROR, data, None, cps)
                 else
                   map_option (\<lambda>points. (NGX_OK, data, Some points, cps))
                     (chash_ring qsort (unat (rs_total_weight (ru_peers up) * 160)) (rs_peer (ru_peers up)))))"

definition ngx_http_upstream_init_chash ::
  "(ngx_http_upstream_chash_point_t list \<Rightarrow> ngx_http_upstream_chash_point_t list) \<Rightarrow> bool
     \<Rightarrow> (nat \<Rightarrow> bool) \<Rightarrow> (nat \<Rightarrow> add_allocs) \<Rightarrow> ngx_addr_t list option \<Rightarrow> nat \<Rightarrow> check_upstream \<Rightarrow> 16 word
     \<Rightarrow> ngx_http_upstream_server_t list option \<Rightarrow> ngx_upstream_check_peers_t
     \<Rightarrow> (ngx_rc \<times> rr_upstream option \<times> ngx_http_upstream_chash_point_t list option \<times> ngx_upstream_check_peers_t) option" where
  "ngx_http_upstream_init_chash qsort palloc pcalloc al resolve u us port servers cps =
     chash_init qsort palloc (ngx_http_upstream_init_round_robin pcalloc al resolve u us port servers cps)"

definition ngx_stream_upstream_init_chash ::
  "(ngx_http_upstream_chash_point_t list \<Rightarrow> ngx_http_upstream_chash_point_t list) \<Rightarrow> bool
     \<Rightarrow> (nat \<Rightarrow> bool) \<Rightarrow> (nat \<Rightarrow> add_allocs) \<Rightarrow> ngx_addr_t list option \<Rightarrow> nat \<Rightarrow> check_upstream \<Rightarrow> 16 word
     \<Rightarrow> ngx_http_upstream_server_t list option \<Rightarrow> ngx_upstream_check_peers_t
     \<Rightarrow> (ngx_rc \<times> rr_upstream option \<times> ngx_http_upstream_chash_point_t list option \<times> ngx_upstream_check_peers_t) option" where
  "ngx_stream_upstream_init_chash qsort palloc pcalloc al resolve u us port servers cps =
     chash_init qsort palloc (ngx_stream_upstream_init_round_robin pcalloc al resolve u us port servers cps)"

subsection \<open>The point of a key\<close>

text \<open>The binary search; \<open>i\<close> and \<open>j\<close> are at most the number of points, so their sum does not wrap.\<close>

function chash_search :: "ngx_http_upstream_chash_point_t list \<Rightarrow> 32 word \<Rightarrow> nat \<Rightarrow> nat \<Rightarrow> nat" where
  "chash_search point hash i j =
     (if i < j then
        let k = (i + j) div 2
        in if hash > cp_hash (point ! k) then chash_search point hash (k + 1) j
           else if hash < cp_hash (point ! k) then chash_search point hash i k
           else k
      else i)"
  by pat_completeness auto

termination
  by (relation "measure (\<lambda>(point, hash, i, j). j - i)") auto

declare chash_search.simps [simp del]

definition ngx_http_upstream_find_chash_point :: "ngx_http_upstream_chash_point_t list \<Rightarrow> 32 word \<Rightarrow> nat" where
  "ngx_http_upstream_find_chash_point points hash = chash_search points hash 0 (length points)"

definition chash_init_peer ::
  "(ngx_http_upstream_hash_peer_data_t \<times> nat) option \<Rightarrow> ngx_http_upstream_chash_point_t list
     \<Rightarrow> (ngx_http_upstream_hash_peer_data_t \<times> nat) option" where
  "chash_init_peer init points =
     map_option
       (\<lambda>(hp, tries). (hp\<lparr>hp_hash := of_nat (ngx_http_upstream_find_chash_point points (ngx_crc32_long (hp_key hp)))\<rparr>, tries))
       init"

definition ngx_http_upstream_init_chash_peer ::
  "bool \<Rightarrow> bool \<Rightarrow> ngx_http_upstream_rr_peer_data_t \<Rightarrow> string option \<Rightarrow> ngx_http_upstream_chash_point_t list \<Rightarrow> rr_upstream
     \<Rightarrow> (ngx_http_upstream_hash_peer_data_t \<times> nat) option" where
  "ngx_http_upstream_init_chash_peer palloc pcalloc junk key points up =
     chash_init_peer (ngx_http_upstream_init_hash_peer palloc pcalloc junk key up) points"

definition ngx_stream_upstream_init_chash_peer ::
  "bool \<Rightarrow> bool \<Rightarrow> ngx_http_upstream_rr_peer_data_t \<Rightarrow> string option \<Rightarrow> ngx_http_upstream_chash_point_t list \<Rightarrow> rr_upstream
     \<Rightarrow> (ngx_http_upstream_hash_peer_data_t \<times> nat) option" where
  "ngx_stream_upstream_init_chash_peer palloc pcalloc junk key points up =
     chash_init_peer (ngx_stream_upstream_init_hash_peer palloc pcalloc junk key up) points"

subsection \<open>The choice\<close>

definition chash_server :: "ngx_http_upstream_chash_point_t list \<Rightarrow> 32 word \<Rightarrow> string" where
  "chash_server points hash = cp_server (points ! (unat hash mod length points))"

text \<open>The conditions of the round robin, and that the peer belongs to the server.\<close>

definition chash_skip ::
  "(64 word list \<Rightarrow> nat \<Rightarrow> ngx_http_upstream_rr_peer_t \<Rightarrow> bool) \<Rightarrow> string \<Rightarrow> 64 word list \<Rightarrow> nat \<Rightarrow> ngx_http_upstream_rr_peer_t
     \<Rightarrow> bool" where
  "chash_skip skip server tried i p \<longleftrightarrow>
     skip tried i p \<or> length (rp_server p) \<noteq> length server \<or> ngx_strncmp (rp_server p) server (length server) \<noteq> 0"

text \<open>The loop over the points: the position chosen, or \<open>None\<close> after twenty servers without a peer.\<close>

function chash_loop ::
  "(64 word list \<Rightarrow> nat \<Rightarrow> ngx_http_upstream_rr_peer_t \<Rightarrow> bool) \<Rightarrow> int \<Rightarrow> ngx_http_upstream_chash_point_t list
     \<Rightarrow> ngx_http_upstream_rr_peer_data_t \<Rightarrow> ngx_http_upstream_rr_peer_t list \<Rightarrow> 32 word \<Rightarrow> nat
     \<Rightarrow> nat option \<times> ngx_http_upstream_rr_peer_data_t \<times> ngx_http_upstream_rr_peer_t list \<times> 32 word \<times> nat" where
  "chash_loop skip now points rrp ps hash tries =
     (case rr_choose (chash_skip skip (chash_server points hash)) now rrp ps of
        (Some i, rrp, ps) \<Rightarrow> (Some i, rrp, ps[i := (ps ! i)\<lparr>rp_conns := rp_conns (ps ! i) + 1\<rparr>], hash, tries)
      | (None, rrp, ps) \<Rightarrow>
          let hash = hash + 1; tries = tries + 1
          in if tries > 20 then (None, rrp, ps, hash, tries)
             else chash_loop skip now points rrp ps hash tries)"
  by pat_completeness auto

termination
  by (relation "measure (\<lambda>(skip, now, points, rrp, ps, hash, tries). 21 - tries)") auto

declare chash_loop.simps [simp del]

text \<open>\<open>points\<close> is \<open>hp->conf->points\<close>; \<open>None\<close> as a result is a remainder by zero.\<close>

definition chash_get ::
  "(rr_pc \<Rightarrow> ngx_http_upstream_rr_peer_data_t \<Rightarrow> rr_upstream
      \<Rightarrow> (ngx_rc \<times> rr_pc \<times> ngx_http_upstream_rr_peer_data_t \<times> rr_upstream) option)
     \<Rightarrow> (rr_pc \<Rightarrow> rr_pc) \<Rightarrow> (64 word list \<Rightarrow> nat \<Rightarrow> ngx_http_upstream_rr_peer_t \<Rightarrow> bool) \<Rightarrow> int
     \<Rightarrow> ngx_http_upstream_chash_point_t list \<Rightarrow> rr_pc \<Rightarrow> ngx_http_upstream_hash_peer_data_t \<Rightarrow> rr_upstream
     \<Rightarrow> (ngx_rc \<times> rr_pc \<times> ngx_http_upstream_hash_peer_data_t \<times> rr_upstream) option" where
  "chash_get rr uncached skip now points pc hp up =
     (let rrp = hp_rrp hp;
          get_rr_peer = (\<lambda>pc hp rrp up. map_option (\<lambda>(rc, pc, rrp, up). (rc, pc, hp\<lparr>hp_rrp := rrp\<rparr>, up)) (rr pc rrp up))
      in case rr_peers rrp up of
           None \<Rightarrow> None
         | Some g \<Rightarrow>
             if hp_tries hp > 20 \<or> rs_single g then get_rr_peer pc hp rrp up
             else if length points = 0 then None
             else
               let pc = uncached pc
               in (case chash_loop skip now points rrp (rs_peer g) (hp_hash hp) (hp_tries hp) of
                     (r, rrp', ps, hash, tries) \<Rightarrow>
                       let hp = hp\<lparr>hp_hash := hash, hp_tries := tries\<rparr>;
                           up = rr_put rrp (g\<lparr>rs_peer := ps\<rparr>) up
                       in (case r of
                             None \<Rightarrow> get_rr_peer pc hp rrp' up
                           | Some i \<Rightarrow> Some (NGX_OK, rr_found (ps ! i) pc, hp\<lparr>hp_rrp := rrp'\<rparr>, up))))"

definition ngx_http_upstream_get_chash_peer ::
  "int \<Rightarrow> (ngx_uint_t \<Rightarrow> bool) \<Rightarrow> ngx_http_upstream_chash_point_t list \<Rightarrow> rr_pc \<Rightarrow> ngx_http_upstream_hash_peer_data_t \<Rightarrow> rr_upstream
     \<Rightarrow> (ngx_rc \<times> rr_pc \<times> ngx_http_upstream_hash_peer_data_t \<times> rr_upstream) option" where
  "ngx_http_upstream_get_chash_peer now check_down points pc hp up =
     chash_get (ngx_http_upstream_get_round_robin_peer now check_down) (\<lambda>pc. pc\<lparr>pc_cached := False\<rparr>)
       (stream_rr_skip now check_down) now points pc hp up"

definition ngx_stream_upstream_get_chash_peer ::
  "int \<Rightarrow> (ngx_uint_t \<Rightarrow> bool) \<Rightarrow> ngx_http_upstream_chash_point_t list \<Rightarrow> rr_pc \<Rightarrow> ngx_http_upstream_hash_peer_data_t \<Rightarrow> rr_upstream
     \<Rightarrow> (ngx_rc \<times> rr_pc \<times> ngx_http_upstream_hash_peer_data_t \<times> rr_upstream) option" where
  "ngx_stream_upstream_get_chash_peer now check_down points pc hp up =
     chash_get (ngx_stream_upstream_get_round_robin_peer now check_down) (\<lambda>pc. pc)
       (http_rr_skip now check_down) now points pc hp up"

subsection \<open>The search\<close>

text \<open>The points of a ring are strictly sorted.\<close>

abbreviation ring_sorted :: "ngx_http_upstream_chash_point_t list \<Rightarrow> bool" where
  "ring_sorted points \<equiv> sorted_wrt (<) (map cp_hash points)"

lemma ring_sorted_nth:
  "ring_sorted points \<Longrightarrow> i < j \<Longrightarrow> j < length points \<Longrightarrow> cp_hash (points ! i) < cp_hash (points ! j)"
  using sorted_wrt_nth_less [of "(<)" "map cp_hash points" i j] by simp

lemma chash_search_bounds:
  assumes "ring_sorted points" "i \<le> j" "j \<le> length points"
    and "\<forall>k < i. cp_hash (points ! k) < hash" "\<forall>k < length points. j \<le> k \<longrightarrow> hash \<le> cp_hash (points ! k)"
  defines "r \<equiv> chash_search points hash i j"
  shows "r \<le> length points \<and> (\<forall>k < r. cp_hash (points ! k) < hash) \<and> (\<forall>k < length points. r \<le> k \<longrightarrow> hash \<le> cp_hash (points ! k))"
  using assms(1-5) unfolding r_def
proof (induction points hash i j rule: chash_search.induct)
  case (1 points hash i j)
  show ?case
  proof (cases "i < j")
    case False
    then have "chash_search points hash i j = i" by (simp add: chash_search.simps [of points hash i j])
    with False "1.prems" show ?thesis by simp
  next
    case True
    define k where "k = (i + j) div 2"
    have k: "i \<le> k" "k < j" "k < length points" using True 1(5) by (auto simp: k_def)
    note lt = ring_sorted_nth [OF "1.prems"(1)]
    have e: "chash_search points hash i j = (if hash > cp_hash (points ! k) then chash_search points hash (k + 1) j
        else if hash < cp_hash (points ! k) then chash_search points hash i k else k)"
      unfolding chash_search.simps [of points hash i j] k_def Let_def using True by (simp only: if_True)
    consider "hash > cp_hash (points ! k)" | "hash < cp_hash (points ! k)" | "hash = cp_hash (points ! k)"
      using less_linear by blast
    then show ?thesis
    proof cases
      case 1
      have a: "\<forall>m < k + 1. cp_hash (points ! m) < hash"
        using lt [OF _ k(3)] 1 by (metis less_Suc_eq Suc_eq_plus1 less_trans)
      have b: "k + 1 \<le> j" using k(2) by simp
      have s: "chash_search points hash i j = chash_search points hash (k + 1) j" unfolding e using 1 by (simp only: if_True)
      show ?thesis unfolding s by (rule "1.IH"(1) [OF True k_def 1 "1.prems"(1) b "1.prems"(3) a "1.prems"(5)])
    next
      case 2
      have a: "\<forall>m < length points. k \<le> m \<longrightarrow> hash \<le> cp_hash (points ! m)"
        using lt [of k] 2 by (metis le_neq_implies_less less_imp_le less_trans)
      have n: "\<not> cp_hash (points ! k) < hash" using 2 by simp
      have b: "k \<le> length points" using k(3) by simp
      have s: "chash_search points hash i j = chash_search points hash i k" unfolding e using 2 n by (simp only: if_True if_False)
      show ?thesis unfolding s by (rule "1.IH"(2) [OF True k_def n 2 "1.prems"(1) k(1) b "1.prems"(4) a])
    next
      case 3
      have "\<forall>m < k. cp_hash (points ! m) < hash" using lt [OF _ k(3)] 3 by blast
      moreover have "\<forall>m < length points. k \<le> m \<longrightarrow> hash \<le> cp_hash (points ! m)"
        using lt [of k] 3 by (metis le_neq_implies_less less_imp_le order_refl)
      moreover have "chash_search points hash i j = k" unfolding e using 3 by simp
      ultimately show ?thesis using k(3) by simp
    qed
  qed
qed

lemma find_chash_takeWhile:
  assumes "ring_sorted points"
  shows "ngx_http_upstream_find_chash_point points hash = length (takeWhile (\<lambda>p. cp_hash p < hash) points)"
proof -
  let ?r = "ngx_http_upstream_find_chash_point points hash"
  from chash_search_bounds [OF assms, of 0 "length points" hash]
  have r: "?r \<le> length points" "\<And>k. k < ?r \<Longrightarrow> cp_hash (points ! k) < hash" "?r < length points \<Longrightarrow> \<not> cp_hash (points ! ?r) < hash"
    by (auto simp: ngx_http_upstream_find_chash_point_def not_less)
  have "takeWhile (\<lambda>p. cp_hash p < hash) points = take ?r points"
    by (rule takeWhile_eq_take_P_nth) (use r in auto)
  with r(1) show ?thesis by simp
qed

subsection \<open>The ring\<close>

text \<open>What the C library promises of \<open>qsort\<close>.\<close>

definition qsort_ok :: "(ngx_http_upstream_chash_point_t list \<Rightarrow> ngx_http_upstream_chash_point_t list) \<Rightarrow> bool" where
  "qsort_ok qsort \<longleftrightarrow>
     (\<forall>ps. mset (qsort ps) = mset ps \<and> sorted_wrt (\<lambda>p q. ngx_http_upstream_chash_cmp_points p q \<le> 0) (qsort ps))"

lemma qsort_ok_sorted:
  assumes "qsort_ok qsort"
  shows "sorted (map cp_hash (qsort ps))" "set (qsort ps) = set ps" "length (qsort ps) = length ps"
proof -
  have "(\<lambda>p q. ngx_http_upstream_chash_cmp_points p q \<le> 0) = (\<lambda>p q. cp_hash p \<le> cp_hash q)"
    by (intro ext) (auto simp: ngx_http_upstream_chash_cmp_points_def)
  with assms have "sorted_wrt (\<lambda>p q. cp_hash p \<le> cp_hash q) (qsort ps)" by (simp add: qsort_ok_def)
  then show "sorted (map cp_hash (qsort ps))" by (simp add: sorted_wrt_map)
  from assms have "mset (qsort ps) = mset ps" by (simp add: qsort_ok_def)
  then show "set (qsort ps) = set ps" "length (qsort ps) = length ps" by (metis set_mset_mset, metis size_mset)
qed

lemma chash_uniq_set: "set (chash_uniq p qs) \<subseteq> insert p (set qs)" "cp_hash ` set (chash_uniq p qs) = cp_hash ` insert p (set qs)"
  by (induction qs arbitrary: p) auto

lemma chash_uniq_sorted: "sorted (map cp_hash (p # qs)) \<Longrightarrow> ring_sorted (chash_uniq p qs)"
proof (induction qs arbitrary: p)
  case (Cons q qs)
  have s: "sorted (map cp_hash (q # qs))" "sorted (map cp_hash (p # qs))" using Cons.prems by auto
  show ?case
  proof (cases "cp_hash p = cp_hash q")
    case True
    with Cons.IH [OF s(2)] show ?thesis by simp
  next
    case False
    with Cons.prems have "cp_hash p < cp_hash x" if "x \<in> insert q (set qs)" for x
      using that by (auto simp: less_le intro: order_trans dest!: bspec [where x = x])
    with Cons.IH [OF s(1)] False chash_uniq_set(1) [of q qs] show ?thesis by auto
  qed
qed simp

lemma chash_ring_Some:
  assumes "qsort_ok qsort" "chash_ring qsort room ps = Some points"
  shows "points \<noteq> []" "ring_sorted points" "set points \<subseteq> set (chash_points ps)"
    "inj_on cp_hash (set (chash_points ps)) \<Longrightarrow> set points = set (chash_points ps)"
    "cp_hash ` set points = cp_hash ` set (chash_points ps)"
proof -
  from assms(2) obtain p qs where q: "qsort (chash_points ps) = p # qs" "points = chash_uniq p qs"
    by (auto simp: chash_ring_def split: if_splits list.splits)
  note o = qsort_ok_sorted [OF assms(1), of "chash_points ps", unfolded q(1)]
  show "ring_sorted points" unfolding q(2) by (rule chash_uniq_sorted [OF o(1)])
  show s: "set points \<subseteq> set (chash_points ps)" using chash_uniq_set(1) [of p qs] o(2) q(2) by simp
  show "points \<noteq> []" using chash_uniq_set(2) [of p qs] q(2) by auto
  have "cp_hash ` set points = cp_hash ` set (p # qs)" using chash_uniq_set(2) [of p qs] q(2) by simp
  then show c: "cp_hash ` set points = cp_hash ` set (chash_points ps)" unfolding o(2) .
  assume i: "inj_on cp_hash (set (chash_points ps))"
  with c s show "set points = set (chash_points ps)" by (simp add: inj_on_image_eq_iff)
qed

text \<open>The owner of a checksum is the server of the first point of the ring, read from the checksum on.\<close>

lemma chash_server_hd:
  assumes "ring_sorted points" "points \<noteq> []" "length points < 2 ^ 32"
  shows "chash_server points (of_nat (ngx_http_upstream_find_chash_point points hash)) =
    cp_server (hd (dropWhile (\<lambda>p. cp_hash p < hash) points @ takeWhile (\<lambda>p. cp_hash p < hash) points))"
proof -
  let ?P = "\<lambda>p. cp_hash p < hash"
  let ?n = "length (takeWhile ?P points)"
  have n: "?n \<le> length points" by (rule length_takeWhile_le)
  then have u: "unat (of_nat ?n :: 32 word) = ?n" using assms(3) by (simp add: unat_of_nat take_bit_nat_eq_self)
  have e: "points = takeWhile ?P points @ dropWhile ?P points" by simp
  have "points ! (?n mod length points) = hd (dropWhile ?P points @ takeWhile ?P points)"
  proof (cases "?n = length points")
    case True
    with e have d: "dropWhile ?P points = []" by (metis add_cancel_right_right length_0_conv length_append)
    with e have t: "takeWhile ?P points = points" by (metis append_Nil2)
    show ?thesis unfolding d t using assms(2) by (simp add: hd_conv_nth)
  next
    case False
    with n have "?n < length points" by simp
    then have "dropWhile ?P points \<noteq> []" using e by (metis append_Nil2 nat_neq_iff)
    with e \<open>?n < length points\<close> show ?thesis by (metis append_is_Nil_conv hd_append2 hd_conv_nth mod_less nth_append_length_plus add.right_neutral)
  qed
  then show ?thesis by (simp add: chash_server_def find_chash_takeWhile [OF assms(1)] u)
qed

text \<open>That point is the one at the least distance from the checksum on, around the ring.\<close>

lemma word_distance:
  fixes a b h :: "32 word"
  shows "h \<le> a \<Longrightarrow> a \<le> b \<Longrightarrow> a - h \<le> b - h" "a \<le> b \<Longrightarrow> b < h \<Longrightarrow> a - h \<le> b - h" "h \<le> a \<Longrightarrow> b < h \<Longrightarrow> a - h \<le> b - h"
proof -
  have "uint a < 2 ^ 32" "0 \<le> uint b" using uint_lt2p [of a] by simp_all
  then have "uint a \<le> uint b + 2 ^ 32" by linarith
  then show "h \<le> a \<Longrightarrow> a \<le> b \<Longrightarrow> a - h \<le> b - h" "a \<le> b \<Longrightarrow> b < h \<Longrightarrow> a - h \<le> b - h" "h \<le> a \<Longrightarrow> b < h \<Longrightarrow> a - h \<le> b - h"
    unfolding word_le_def word_less_def uint_sub_if' by simp_all
qed

lemma ring_hd_nearest:
  fixes h :: "32 word"
  assumes "ring_sorted points" "points \<noteq> []"
  defines "y \<equiv> hd (dropWhile (\<lambda>p. cp_hash p < h) points @ takeWhile (\<lambda>p. cp_hash p < h) points)"
  shows "y \<in> set points \<and> (\<forall>z \<in> set points. cp_hash y - h \<le> cp_hash z - h)"
proof -
  let ?d = "dropWhile (\<lambda>p. cp_hash p < h) points" and ?t = "takeWhile (\<lambda>p. cp_hash p < h) points"
  have e: "points = ?t @ ?d" by simp
  have s: "ring_sorted (?t @ ?d)" using assms(1) by simp
  show ?thesis
  proof (cases ?d)
    case Nil
    with e have t: "?t = points" by simp
    with assms(2) obtain x xs where x: "points = x # xs" by (cases points) auto
    have y: "y = x" unfolding y_def Nil t using x by simp
    have "cp_hash z < h" if "z \<in> set points" for z using that Nil by (simp add: dropWhile_eq_Nil_conv)
    moreover have "cp_hash x \<le> cp_hash z" if "z \<in> set points" for z using that assms(1) by (auto simp: x)
    ultimately show ?thesis unfolding y using word_distance(2) x by auto
  next
    case (Cons x xs)
    have y: "y = x" unfolding y_def Cons by simp
    have x: "h \<le> cp_hash x" using hd_dropWhile [of "\<lambda>p. cp_hash p < h" points] Cons by (simp add: not_less)
    have "cp_hash x \<le> cp_hash z" if "z \<in> set ?d" for z using that s unfolding Cons by (auto simp: sorted_wrt_append)
    then have d: "cp_hash x - h \<le> cp_hash z - h" if "z \<in> set ?d" for z using that x word_distance(1) by blast
    have t: "cp_hash x - h \<le> cp_hash z - h" if "z \<in> set ?t" for z using that x word_distance(3) by (auto dest: set_takeWhileD)
    have "set points = set ?t \<union> set ?d" by (metis e set_append)
    with d t Cons show ?thesis unfolding y by auto
  qed
qed

lemma chash_server_nearest:
  assumes "ring_sorted points" "points \<noteq> []" "length points < 2 ^ 32"
  obtains y where "y \<in> set points" "\<And>z. z \<in> set points \<Longrightarrow> cp_hash y - h \<le> cp_hash z - h"
    "chash_server points (of_nat (ngx_http_upstream_find_chash_point points h)) = cp_server y"
  using ring_hd_nearest [OF assms(1,2), of h] chash_server_hd [OF assms, of h] by blast

lemma chash_points_filter:
  "set (chash_points (filter (\<lambda>p. rp_server p \<noteq> s) ps)) = {x \<in> set (chash_points ps). cp_server x \<noteq> s}"
  by (induction ps) (auto simp: chash_points_def chash_peer_points_def)

lemma owner_kept:
  assumes "qsort_ok qsort" "inj_on cp_hash (set (chash_points (filter (\<lambda>p. rp_server p \<noteq> s) ps)))" "chash_ring qsort room ps = Some points"
    and "chash_ring qsort room' (filter (\<lambda>p. rp_server p \<noteq> s) ps) = Some points'" "length points < 2 ^ 32" "length points' < 2 ^ 32"
    and "chash_server points (of_nat (ngx_http_upstream_find_chash_point points h)) \<noteq> s"
  shows "chash_server points' (of_nat (ngx_http_upstream_find_chash_point points' h))
    = chash_server points (of_nat (ngx_http_upstream_find_chash_point points h))"
proof -
  note r = chash_ring_Some [OF assms(1,3)] and r' = chash_ring_Some [OF assms(1,4)]
  obtain y where y: "y \<in> set points" "\<And>z. z \<in> set points \<Longrightarrow> cp_hash y - h \<le> cp_hash z - h"
    "chash_server points (of_nat (ngx_http_upstream_find_chash_point points h)) = cp_server y"
    by (rule chash_server_nearest [OF r(2,1) assms(5), of h]) blast
  obtain y' where y': "y' \<in> set points'" "\<And>z. z \<in> set points' \<Longrightarrow> cp_hash y' - h \<le> cp_hash z - h"
    "chash_server points' (of_nat (ngx_http_upstream_find_chash_point points' h)) = cp_server y'"
    by (rule chash_server_nearest [OF r'(2,1) assms(6), of h]) blast
  have s': "set points' = {x \<in> set (chash_points ps). cp_server x \<noteq> s}" using r'(4) [OF assms(2)] by (simp add: chash_points_filter)
  have m: "y \<in> set points'" using y(1,3) r(3) assms(7) by (auto simp: s')
  from y'(1) s' have "cp_hash y' \<in> cp_hash ` set (chash_points ps)" by auto
  then obtain z where "z \<in> set points" "cp_hash z = cp_hash y'" unfolding r(5) [symmetric] by auto
  with y(2) y'(2) [OF m] have "cp_hash y - h = cp_hash y' - h" by (metis order_antisym)
  then have "cp_hash y = cp_hash y'" by simp
  with m y'(1) assms(2) r'(4) [OF assms(2)] have "y = y'" by (metis inj_on_eq_iff)
  with y(3) y'(3) show ?thesis by simp
qed

text \<open>The binary search finds the first point at or after the hash, or the number of points if there is none.\<close>

theorem find_chash_point_first:
  assumes "qsort_ok qsort" "chash_ring qsort room ps = Some points"
  shows "ngx_http_upstream_find_chash_point points hash = length (takeWhile (\<lambda>p. cp_hash p < hash) points)"
  by (rule find_chash_takeWhile [OF chash_ring_Some(2) [OF assms]])

text \<open>C11: Consistency. When a server leaves the upstream, every key that belonged to another server still belongs to it,
  provided that no two of the servers that stay share a hash.\<close>

theorem chash_consistent:
  assumes "qsort_ok qsort" "inj_on cp_hash (set (chash_points (filter (\<lambda>p. rp_server p \<noteq> s) ps)))"
    and "chash_ring qsort room ps = Some points" "chash_ring qsort room' (filter (\<lambda>p. rp_server p \<noteq> s) ps) = Some points'"
    and "length points < 2 ^ 32" "length points' < 2 ^ 32"
    and "ngx_http_upstream_init_chash_peer palloc pcalloc junk (Some key) points up = Some (hp, tries)"
    and "ngx_http_upstream_init_chash_peer palloc' pcalloc' junk' (Some key) points' up' = Some (hp', tries')"
    and "chash_server points (hp_hash hp) \<noteq> s"
  shows "chash_server points' (hp_hash hp') = chash_server points (hp_hash hp)"
proof -
  have e: "hp_hash hp = of_nat (ngx_http_upstream_find_chash_point points (ngx_crc32_long key))"
    "hp_hash hp' = of_nat (ngx_http_upstream_find_chash_point points' (ngx_crc32_long key))"
    using assms(7,8) by (auto simp: ngx_http_upstream_init_chash_peer_def chash_init_peer_def ngx_http_upstream_init_hash_peer_def
        hash_init_peer_def split: if_splits option.splits)
  from owner_kept [OF assms(1-6), of "ngx_crc32_long key"] assms(9) show ?thesis unfolding e by blast
qed

subsection \<open>The array of points\<close>

lemma length_chash_hashes [simp]: "length (chash_hashes n base prev) = n"
  by (induction n arbitrary: prev) (simp_all add: Let_def)

lemma int_unat_160:
  assumes "0 \<le> x" "x * 160 < 2 ^ 64"
  shows "int (unat (of_int x * 160 :: 64 word)) = x * 160"
proof -
  have "uint (of_int (x * 160) :: 64 word) = x * 160"
    unfolding uint_word_of_int_eq by (rule take_bit_int_eq_self) (use assms in simp_all)
  moreover have "of_int (x * 160) = (of_int x * 160 :: 64 word)" unfolding of_int_mult by (simp only: of_int_numeral)
  ultimately show ?thesis by (simp only: of_nat_unat)
qed

lemma length_chash_points:
  assumes "\<forall>p \<in> set ps. 0 \<le> rp_weight p" "sum_list (map rp_weight ps) * 160 < 2 ^ 64"
  shows "int (length (chash_points ps)) = sum_list (map rp_weight ps) * 160"
  using assms
proof (induction ps)
  case (Cons p ps)
  have n: "0 \<le> rp_weight p" "0 \<le> sum_list (map rp_weight ps)" using Cons.prems(1) by (simp, intro sum_list_nonneg) auto
  have "rp_weight p * 160 < 2 ^ 64" using n Cons.prems(2) by (simp add: distrib_right)
  from int_unat_160 [OF n(1) this] have "int (length (chash_peer_points p)) = rp_weight p * 160" by (simp add: chash_peer_points_def)
  with Cons n show ?case by (simp add: chash_points_def)
qed (simp add: chash_points_def)

lemma chash_ring_fits:
  assumes "qsort_ok qsort" "hash_ready g" "sum_list (map rp_weight (rs_peer g)) * 160 < 2 ^ 64"
  shows "\<exists>points. chash_ring qsort (unat (rs_total_weight g * 160)) (rs_peer g) = Some points"
proof -
  let ?t = "sum_list (map rp_weight (rs_peer g))"
  from assms(2) have t: "0 < ?t" "rs_total_weight g = of_int ?t" "\<forall>p \<in> set (rs_peer g). 0 \<le> rp_weight p"
    by (simp_all add: hash_ready_def Let_def)
  have l: "int (length (chash_points (rs_peer g))) = ?t * 160" by (rule length_chash_points [OF t(3) assms(3)])
  have "int (unat (of_int ?t * 160 :: 64 word)) = ?t * 160" by (rule int_unat_160) (use t(1) assms(3) in simp_all)
  with l t(2) have r: "length (chash_points (rs_peer g)) = unat (rs_total_weight g * 160)" by (metis of_nat_eq_iff)
  from l t(1) have "chash_points (rs_peer g) \<noteq> []" by auto
  then have "qsort (chash_points (rs_peer g)) \<noteq> []" using qsort_ok_sorted(3) [OF assms(1), of "chash_points (rs_peer g)"] by auto
  with r show ?thesis by (cases "qsort (chash_points (rs_peer g))") (simp_all add: chash_ring_def)
qed


subsection \<open>What a request gets from the ring\<close>

lemma strncmp_eq: "length a = length b \<Longrightarrow> NUL \<notin> set b \<Longrightarrow> ngx_strncmp a b (length b) = 0 \<longleftrightarrow> a = b"
proof (induction a b rule: list_induct2)
  case (Cons x xs y ys)
  have "(of_char NUL :: nat) = 0" by simp
  with Cons.prems have "(of_char y :: nat) \<noteq> 0" by (metis list.set_intros(1) of_char_eq_iff)
  with Cons show ?case by (auto simp: Let_def c_hd_def)
qed simp

context rr_filter
begin

lemma chash_loop_round:
  assumes "rr_choose (chash_skip (skip now cd) (chash_server points hash)) now rrp ps = (r, rrp', ps')"
  shows "r = Some i \<Longrightarrow> chash_loop (skip now cd) now points rrp ps hash tries
      = (Some i, rrp', ps'[i := (ps' ! i)\<lparr>rp_conns := rp_conns (ps' ! i) + 1\<rparr>], hash, tries)"
    and "r = None \<Longrightarrow> chash_loop (skip now cd) now points rrp ps hash tries
      = (if tries + 1 > 20 then (None, rrp, ps, hash + 1, tries + 1)
         else chash_loop (skip now cd) now points rrp ps (hash + 1) (tries + 1))"
  using assms rr_choose_None [of "chash_skip (skip now cd) (chash_server points hash)" now rrp ps]
  by (simp_all add: chash_loop.simps [of "skip now cd" now points rrp ps hash tries] Let_def)

lemma chash_loop_result:
  "chash_loop (skip now cd) now points rrp ps hash tries = (r, rrp', qs, hash', tries') \<Longrightarrow>
     (r = None \<and> rrp' = rrp \<and> qs = ps) \<or>
     (\<exists>i. r = Some i \<and> rr_took i ps qs \<and> rr_usable now cd (ps ! i) \<and> \<not> rr_tried (rrp_tried rrp) i
        \<and> rrp' = rrp\<lparr>rrp_current := Some (rrp_next rrp, i), rrp_tried := rr_mark (rrp_tried rrp) i\<rparr>)"
proof (induction "21 - tries" arbitrary: hash tries rule: less_induct)
  case less
  obtain x rrp2 ps2 where c: "rr_choose (chash_skip (skip now cd) (chash_server points hash)) now rrp ps = (x, rrp2, ps2)"
    by (rule prod_cases3)
  show ?case
  proof (cases x)
    case (Some i)
    note ch = rr_choose_Some [OF c [unfolded Some]]
    have u: "rr_usable now cd (ps ! i)" "\<not> rr_tried (rrp_tried rrp) i" using ch(2) by (simp_all add: chash_skip_def skip_iff)
    from less.prems chash_loop_round(1) [OF c Some, of tries] ch(3) u rr_took_choose [OF c [unfolded Some]] Some show ?thesis by auto
  next
    case None
    note l = chash_loop_round(2) [OF c None, of tries]
    show ?thesis
    proof (cases "tries + 1 > 20")
      case True
      with less.prems l show ?thesis by auto
    next
      case False
      with less.hyps [of "tries + 1" "hash + 1"] less.prems l show ?thesis by simp
    qed
  qed
qed

lemma chash_loop_owner:
  assumes "k < length ps" "\<not> rr_tried (rrp_tried rrp) k" "rr_usable now cd (ps ! k)" "rp_server (ps ! k) = chash_server points hash"
    and "NUL \<notin> set (chash_server points hash)"
  shows "\<exists>i rrp' qs. chash_loop (skip now cd) now points rrp ps hash tries = (Some i, rrp', qs, hash, tries)
    \<and> rp_server (ps ! i) = chash_server points hash"
proof -
  let ?s = "chash_server points hash"
  obtain x rrp2 ps2 where c: "rr_choose (chash_skip (skip now cd) ?s) now rrp ps = (x, rrp2, ps2)" by (rule prod_cases3)
  have k: "\<not> chash_skip (skip now cd) ?s (rrp_tried rrp) k (ps ! k)"
    using assms strncmp_eq [of "rp_server (ps ! k)" ?s] by (simp add: chash_skip_def skip_iff)
  show ?thesis
  proof (cases x)
    case None
    with rr_choose_None [OF c [unfolded None]] k assms(1) show ?thesis by simp
  next
    case (Some i)
    have "rp_server (ps ! i) = ?s"
      using rr_choose_Some(2) [OF c [unfolded Some]] assms(5) strncmp_eq [of "rp_server (ps ! i)" ?s] by (auto simp: chash_skip_def)
    with chash_loop_round(1) [OF c Some, of tries] show ?thesis by blast
  qed
qed

lemma chash_get_outcome:
  assumes "\<not> rrp_next (hp_rrp hp)" "rr_shaped up" "points \<noteq> []"
    and rr: "\<And>pc. \<exists>rc pc' rrp' up'. rr pc (hp_rrp hp) up = Some (rc, pc', rrp', up') \<and> hash_outcome now cd (hp_rrp hp) up rc pc' rrp' up'"
  shows "\<exists>rc pc' hp' up'. chash_get rr uncached (skip now cd) now points pc hp up = Some (rc, pc', hp', up')
    \<and> hash_outcome now cd (hp_rrp hp) up rc pc' (hp_rrp hp') up'"
proof -
  let ?rrp = "hp_rrp hp" and ?G = "chash_get rr uncached (skip now cd) now points pc hp up"
  have g: "rr_peers ?rrp up = Some (ru_peers up)" using assms(1) by (simp add: rr_peers_def)
  show ?thesis
  proof (cases "hp_tries hp > 20 \<or> rs_single (ru_peers up)")
    case True
    with g have "?G = map_option (\<lambda>(rc, pc, rrp, up). (rc, pc, hp\<lparr>hp_rrp := rrp\<rparr>, up)) (rr pc ?rrp up)"
      by (simp add: chash_get_def Let_def)
    with rr [of pc] show ?thesis by auto
  next
    case False
    obtain r rrp' qs hash tries where
      l: "chash_loop (skip now cd) now points ?rrp (rs_peer (ru_peers up)) (hp_hash hp) (hp_tries hp) = (r, rrp', qs, hash, tries)"
      by (metis prod.exhaust)
    let ?hp = "hp\<lparr>hp_hash := hash, hp_tries := tries\<rparr>"
    from chash_loop_result [OF l] show ?thesis
    proof (elim disjE exE conjE)
      assume n: "r = None" "rrp' = ?rrp" "qs = rs_peer (ru_peers up)"
      with False g l assms(1,3) have "?G = map_option (\<lambda>(rc, pc, rrp, up). (rc, pc, ?hp\<lparr>hp_rrp := rrp\<rparr>, up)) (rr (uncached pc) ?rrp up)"
        by (simp add: chash_get_def Let_def rr_put_def)
      with rr [of "uncached pc"] show ?thesis by auto
    next
      fix i
      assume s: "r = Some i" "rr_took i (rs_peer (ru_peers up)) qs" "rr_usable now cd (rs_peer (ru_peers up) ! i)"
        "\<not> rr_tried (rrp_tried ?rrp) i" "rrp' = ?rrp\<lparr>rrp_current := Some (rrp_next ?rrp, i), rrp_tried := rr_mark (rrp_tried ?rrp) i\<rparr>"
      let ?up = "rr_put ?rrp ((ru_peers up)\<lparr>rs_peer := qs\<rparr>) up"
      have "length qs = length (rs_peer (ru_peers up))" using s(2) by (simp add: rr_took_def)
      note p = rr_put_facts [OF g assms(2) this] rr_peers_list [OF g]
      have "rr_got now cd ?rrp rrp' i up ?up"
        unfolding s(5) rr_got_def using p s(2-4) assms(1) by (auto simp: Let_def rr_usable_def not_le)
      moreover have "rp_addr (qs ! i) = rp_addr (rr_list False up ! i)" using s(2) p(5) assms(1) by (auto simp: rr_took_def rr_static_def)
      ultimately have "hash_outcome now cd ?rrp up NGX_OK (rr_found (qs ! i) (uncached pc)) rrp' ?up"
        using assms(1) s(5) by (auto simp: hash_outcome_def rr_found_def)
      with False g l assms(3) s(1) show ?thesis by (simp add: chash_get_def Let_def)
    qed
  qed
qed

lemma chash_get_owner:
  assumes "\<not> rrp_next (hp_rrp hp)" "points \<noteq> []" "\<not> hp_tries hp > 20" "\<not> rs_single (ru_peers up)"
    and "k < length (rr_list False up)" "\<not> rr_tried (rrp_tried (hp_rrp hp)) k" "rr_usable now cd (rr_list False up ! k)"
    and "rp_server (rr_list False up ! k) = chash_server points (hp_hash hp)" "NUL \<notin> set (chash_server points (hp_hash hp))"
  shows "\<exists>pc' hp' up' i. chash_get rr uncached (skip now cd) now points pc hp up = Some (NGX_OK, pc', hp', up')
    \<and> rrp_current (hp_rrp hp') = Some (False, i) \<and> rp_server (rr_list False up ! i) = chash_server points (hp_hash hp)"
proof -
  have g: "rr_peers (hp_rrp hp) up = Some (ru_peers up)" "rr_list False up = rs_peer (ru_peers up)"
    using assms(1) by (simp_all add: rr_peers_def rr_list_def)
  from chash_loop_owner [OF assms(5-9), of "hp_tries hp"] g(2) obtain i rrp' qs where
    l: "chash_loop (skip now cd) now points (hp_rrp hp) (rs_peer (ru_peers up)) (hp_hash hp) (hp_tries hp)
      = (Some i, rrp', qs, hp_hash hp, hp_tries hp)" "rp_server (rr_list False up ! i) = chash_server points (hp_hash hp)" by auto
  from chash_loop_result [OF l(1)] assms(1) have "rrp_current rrp' = Some (False, i)" by auto
  with l g(1) assms(2-4) show ?thesis by (simp add: chash_get_def Let_def)
qed

end

text \<open>C12: What a request gets from the ring. With a ring that is not empty the consistent balancers of both modules return:
  they hand out a peer that is not down, that no check holds for down and that has a connection left, or no peer is left
  that could take the request; and as long as the server the key belongs to has a peer that can take it, the
  request goes to that server.\<close>

theorem chash_serves_owner:
  assumes "\<not> rrp_next (hp_rrp hp)" "rr_shaped up" "points \<noteq> []"
    and "f = ngx_http_upstream_get_chash_peer \<or> f = ngx_stream_upstream_get_chash_peer"
  shows "\<exists>rc pc' hp' up'. f now cd points pc hp up = Some (rc, pc', hp', up') \<and> hash_outcome now cd (hp_rrp hp) up rc pc' (hp_rrp hp') up'
    \<and> (\<forall>k s. s = chash_server points (hp_hash hp) \<and> \<not> hp_tries hp > 20 \<and> \<not> rs_single (ru_peers up) \<and> NUL \<notin> set s
        \<and> k < length (rr_list False up) \<and> \<not> rr_tried (rrp_tried (hp_rrp hp)) k \<and> rr_usable now cd (rr_list False up ! k)
        \<and> rp_server (rr_list False up ! k) = s
        \<longrightarrow> rc = NGX_OK \<and> (\<exists>i. rrp_current (hp_rrp hp') = Some (False, i) \<and> rp_server (rr_list False up ! i) = s))"
  using assms(4)
proof
  assume f: "f = ngx_http_upstream_get_chash_peer"
  let ?f = "ngx_http_upstream_get_chash_peer now cd points pc hp up"
  obtain rc pc' hp' up' where r: "?f = Some (rc, pc', hp', up')" "hash_outcome now cd (hp_rrp hp) up rc pc' (hp_rrp hp') up'"
    using stream_rr.chash_get_outcome [where rr = "ngx_http_upstream_get_round_robin_peer now cd" and now = now and cd = cd, OF assms(1-3)
        rr_outcome(1) [OF assms(1,2)]] unfolding ngx_http_upstream_get_chash_peer_def by blast
  with stream_rr.chash_get_owner [OF assms(1,3), of up _ now cd "ngx_http_upstream_get_round_robin_peer now cd" "\<lambda>pc. pc\<lparr>pc_cached := False\<rparr>" pc]
  show ?thesis unfolding f ngx_http_upstream_get_chash_peer_def
    by (intro exI [of _ rc] exI [of _ pc'] exI [of _ hp'] exI [of _ up']) auto
next
  assume f: "f = ngx_stream_upstream_get_chash_peer"
  let ?f = "ngx_stream_upstream_get_chash_peer now cd points pc hp up"
  obtain rc pc' hp' up' where r: "?f = Some (rc, pc', hp', up')" "hash_outcome now cd (hp_rrp hp) up rc pc' (hp_rrp hp') up'"
    using http_rr.chash_get_outcome [where rr = "ngx_stream_upstream_get_round_robin_peer now cd" and now = now and cd = cd, OF assms(1-3)
        rr_outcome(2) [OF assms(1,2)]] unfolding ngx_stream_upstream_get_chash_peer_def by blast
  with http_rr.chash_get_owner [OF assms(1,3), of up _ now cd "ngx_stream_upstream_get_round_robin_peer now cd" "\<lambda>pc. pc" pc]
  show ?thesis unfolding f ngx_stream_upstream_get_chash_peer_def
    by (intro exI [of _ rc] exI [of _ pc'] exI [of _ hp'] exI [of _ up']) auto
qed

subsection \<open>Samples\<close>

text \<open>A stable sort as \<open>qsort\<close>, two servers, and a key whose checksum is the first point of the first server.\<close>

lemma sort_key_ok: "qsort_ok (sort_key cp_hash)"
proof -
  have "(\<lambda>p q. ngx_http_upstream_chash_cmp_points p q \<le> 0) = (\<lambda>p q. cp_hash p \<le> cp_hash q)"
    by (intro ext) (auto simp: ngx_http_upstream_chash_cmp_points_def)
  moreover have "sorted_wrt (\<lambda>p q. cp_hash p \<le> cp_hash q) (sort_key cp_hash ps)"
    for ps :: "ngx_http_upstream_chash_point_t list"
    using sorted_sort_key [of cp_hash ps] by (simp add: sorted_wrt_map)
  ultimately show ?thesis unfolding qsort_ok_def by simp
qed

definition ring_peer :: "string \<Rightarrow> ngx_addr_t \<Rightarrow> ngx_uint_t \<Rightarrow> ngx_http_upstream_rr_peer_t" where
  "ring_peer server addr index = (rr_server_peer (sample_sv False addr) addr index)\<lparr>rp_server := server\<rparr>"

definition ring_group :: "ngx_http_upstream_rr_peer_t list \<Rightarrow> ngx_http_upstream_rr_peers_t" where
  "ring_group ps =
     \<lparr>rs_number = length ps, rs_total_weight = of_nat (length ps), rs_single = False, rs_weighted = False, rs_name = ''web'', rs_peer = ps\<rparr>"

definition ring_peers :: "ngx_http_upstream_rr_peer_t list" where
  "ring_peers = [ring_peer ''a:80'' sample_server 0, ring_peer ''b:80'' sample_backup 1]"

definition ring_up :: rr_upstream where
  "ring_up = \<lparr>ru_peers = ring_group ring_peers, ru_next = None\<rparr>"

definition ring_key :: string where
  "ring_key = ''a'' @ [NUL] @ ''80'' @ [NUL, NUL, NUL, NUL]"

lemma ring_exists:
  "\<exists>points. chash_ring (sort_key cp_hash) 320 ring_peers = Some points \<and> length points < 2 ^ 32"
  "\<exists>points. chash_ring (sort_key cp_hash) 160 [ring_peer ''a:80'' sample_server 0] = Some points \<and> length points < 2 ^ 32"
proof -
  have r: "hash_ready (ring_group ring_peers)" "hash_ready (ring_group [ring_peer ''a:80'' sample_server 0])"
    by (simp_all add: hash_ready_def ring_group_def ring_peers_def ring_peer_def rr_server_peer_def sample_sv_def)
  have l: "length (chash_uniq p qs) \<le> Suc (length qs)" for p qs by (induction qs arbitrary: p) (auto intro: le_SucI)
  have b: "length points \<le> room" if "chash_ring (sort_key cp_hash) room ps = Some points" for room ps points
  proof -
    from that obtain p qs where q: "sort_key cp_hash (chash_points ps) = p # qs" "points = chash_uniq p qs" "length (chash_points ps) \<le> room"
      by (auto simp: chash_ring_def split: if_splits list.splits)
    from q(1) have "length (chash_points ps) = Suc (length qs)" by (metis length_Cons length_sort)
    with l [of p qs] q show ?thesis by simp
  qed
  from chash_ring_fits [OF sort_key_ok r(1)] obtain points where "chash_ring (sort_key cp_hash) 320 ring_peers = Some points"
    by (auto simp: ring_group_def ring_peers_def ring_peer_def rr_server_peer_def sample_sv_def)
  with b [OF this] show "\<exists>points. chash_ring (sort_key cp_hash) 320 ring_peers = Some points \<and> length points < 2 ^ 32" by auto
  from chash_ring_fits [OF sort_key_ok r(2)] obtain points where "chash_ring (sort_key cp_hash) 160 [ring_peer ''a:80'' sample_server 0] = Some points"
    by (auto simp: ring_group_def ring_peer_def rr_server_peer_def sample_sv_def)
  with b [OF this] show "\<exists>points. chash_ring (sort_key cp_hash) 160 [ring_peer ''a:80'' sample_server 0] = Some points \<and> length points < 2 ^ 32"
    by auto
qed

lemma crc32_update_append: "ngx_crc32_update crc (p @ q) = ngx_crc32_update (ngx_crc32_update crc p) q"
  by (induction p arbitrary: crc) simp_all

lemma ring_first_point:
  "\<exists>qs. chash_points ring_peers = \<lparr>cp_hash = ngx_crc32_long ring_key, cp_server = ''a:80''\<rparr> # qs"
proof -
  have w: "unat (of_int (rp_weight (ring_peer ''a:80'' sample_server 0)) * 160 :: ngx_uint_t) = Suc 159"
    by (simp add: ring_peer_def rr_server_peer_def sample_sv_def)
  have s: "chash_host_port ''a:80'' = (''a'', ''80'')" by code_simp
  have z: "prev_bytes 0 = [NUL, NUL, NUL, NUL]" by code_simp
  have "ngx_crc32_update (chash_base ''a:80'') (prev_bytes 0) XOR 0xffffffff = ngx_crc32_long ring_key"
    unfolding chash_base_def s z ngx_crc32_long_def ring_key_def crc32_update_append by simp
  moreover have "rp_server (ring_peer ''a:80'' sample_server 0) = ''a:80''" by (simp add: ring_peer_def)
  ultimately have "\<exists>qs. chash_peer_points (ring_peer ''a:80'' sample_server 0) = \<lparr>cp_hash = ngx_crc32_long ring_key, cp_server = ''a:80''\<rparr> # qs"
    unfolding chash_peer_points_def w chash_hashes.simps Let_def by auto
  then show ?thesis by (auto simp: chash_points_def ring_peers_def)
qed

text \<open>With a stable sort the ring keeps the first of the points with a hash.\<close>

lemma chash_uniq_first:
  "sorted (map cp_hash (p # qs)) \<Longrightarrow> x \<in> set (chash_uniq p qs) \<Longrightarrow> x = hd (filter (\<lambda>q. cp_hash q = cp_hash x) (p # qs))"
proof (induction qs arbitrary: p)
  case (Cons q qs)
  show ?case
  proof (cases "cp_hash p = cp_hash q")
    case True
    with Cons.prems Cons.IH [of p] show ?thesis by (auto split: if_splits)
  next
    case False
    show ?thesis
    proof (cases "x = p")
      case False
      with Cons.prems \<open>cp_hash p \<noteq> cp_hash q\<close> have x: "x \<in> set (chash_uniq q qs)" by simp
      have "cp_hash q \<le> cp_hash x" using chash_uniq_set(1) [of q qs] x Cons.prems(1) by auto
      moreover have "cp_hash p < cp_hash q" using Cons.prems(1) \<open>cp_hash p \<noteq> cp_hash q\<close> by (simp add: less_le)
      ultimately have "cp_hash p \<noteq> cp_hash x" by auto
      with Cons.IH [OF _ x] Cons.prems(1) show ?thesis by simp
    qed simp
  qed
qed simp

lemma ring_owner:
  assumes "chash_ring (sort_key cp_hash) 320 ring_peers = Some points" "length points < 2 ^ 32"
  shows "chash_server points (of_nat (ngx_http_upstream_find_chash_point points (ngx_crc32_long ring_key))) = ''a:80''"
proof -
  let ?h = "ngx_crc32_long ring_key" and ?L = "chash_points ring_peers"
  obtain qs where f: "?L = \<lparr>cp_hash = ?h, cp_server = ''a:80''\<rparr> # qs" using ring_first_point by blast
  note r = chash_ring_Some [OF sort_key_ok assms(1)]
  obtain y where y: "y \<in> set points" "\<And>z. z \<in> set points \<Longrightarrow> cp_hash y - ?h \<le> cp_hash z - ?h"
    "chash_server points (of_nat (ngx_http_upstream_find_chash_point points ?h)) = cp_server y"
    by (rule chash_server_nearest [OF r(2,1) assms(2), of ?h]) blast
  have "?h \<in> cp_hash ` set points" unfolding r(5) f by simp
  then obtain z where "z \<in> set points" "cp_hash z = ?h" by auto
  with y(2) have "cp_hash y - ?h \<le> 0" by fastforce
  then have h: "cp_hash y = ?h" by simp
  from assms(1) obtain p ps where u: "sort_key cp_hash ?L = p # ps" "points = chash_uniq p ps"
    by (auto simp: chash_ring_def split: if_splits list.splits)
  have "sorted (map cp_hash (p # ps))" using sorted_sort_key [of cp_hash ?L] u(1) by simp
  from chash_uniq_first [OF this y(1) [unfolded u(2)]] have "y = hd (filter (\<lambda>q. cp_hash q = ?h) (sort_key cp_hash ?L))"
    unfolding h u(1) .
  then have "y = hd (filter (\<lambda>q. cp_hash q = ?h) ?L)" unfolding sort_key_stable .
  then have "y = \<lparr>cp_hash = ?h, cp_server = ''a:80''\<rparr>" by (simp add: f)
  with y(3) show ?thesis by simp
qed

lemma find_chash_point_first_witness:
  "\<exists>points. chash_ring (sort_key cp_hash) 320 ring_peers = Some points
     \<and> ngx_http_upstream_find_chash_point points 0x80000000 = length (takeWhile (\<lambda>p. cp_hash p < 0x80000000) points)"
proof -
  obtain points where "chash_ring (sort_key cp_hash) 320 ring_peers = Some points" using ring_exists(1) by blast
  from find_chash_point_first [OF sort_key_ok this] this show ?thesis by blast
qed

lemma ring_init_peer:
  "\<exists>hp. ngx_http_upstream_init_chash_peer True True sample_rrp (Some ring_key) points ring_up = Some (hp, 2)
     \<and> hp_hash hp = of_nat (ngx_http_upstream_find_chash_point points (ngx_crc32_long ring_key)) \<and> hp_tries hp = 0 \<and> hp_rrp hp = sample_rrp"
  by (simp add: ngx_http_upstream_init_chash_peer_def chash_init_peer_def ngx_http_upstream_init_hash_peer_def hash_init_peer_def
      ngx_http_upstream_init_round_robin_peer_def rr_init_peer_def ring_up_def ring_group_def ring_peers_def sample_rrp_def)

lemma chash_consistent_witness:
  "\<exists>points points' hp hp'. chash_ring (sort_key cp_hash) 320 ring_peers = Some points
     \<and> chash_ring (sort_key cp_hash) 160 (filter (\<lambda>p. rp_server p \<noteq> ''b:80'') ring_peers) = Some points'
     \<and> ngx_http_upstream_init_chash_peer True True sample_rrp (Some ring_key) points ring_up = Some (hp, 2)
     \<and> ngx_http_upstream_init_chash_peer True True sample_rrp (Some ring_key) points' ring_up = Some (hp', 2)
     \<and> chash_server points (hp_hash hp) = ''a:80'' \<and> chash_server points' (hp_hash hp') = ''a:80''"
proof -
  have f: "filter (\<lambda>p. rp_server p \<noteq> ''b:80'') ring_peers = [ring_peer ''a:80'' sample_server 0]"
    by (simp add: ring_peers_def ring_peer_def)
  obtain points where p: "chash_ring (sort_key cp_hash) 320 ring_peers = Some points" "length points < 2 ^ 32"
    using ring_exists(1) by blast
  obtain points' where p': "chash_ring (sort_key cp_hash) 160 (filter (\<lambda>p. rp_server p \<noteq> ''b:80'') ring_peers) = Some points'"
    "length points' < 2 ^ 32" unfolding f using ring_exists(2) by blast
  obtain hp hp' where i: "ngx_http_upstream_init_chash_peer True True sample_rrp (Some ring_key) points ring_up = Some (hp, 2)"
    "ngx_http_upstream_init_chash_peer True True sample_rrp (Some ring_key) points' ring_up = Some (hp', 2)"
    "hp_hash hp = of_nat (ngx_http_upstream_find_chash_point points (ngx_crc32_long ring_key))"
    using ring_init_peer [of points] ring_init_peer [of points'] by blast
  have o: "chash_server points (hp_hash hp) = ''a:80''" unfolding i(3) by (rule ring_owner [OF p])
  have j: "inj_on cp_hash (set (chash_points (filter (\<lambda>p. rp_server p \<noteq> ''b:80'') ring_peers)))"
    unfolding f by (auto simp: inj_on_def chash_points_def chash_peer_points_def)
  have "chash_server points (hp_hash hp) \<noteq> ''b:80''" unfolding o by simp
  from chash_consistent [OF sort_key_ok j p(1) p'(1) p(2) p'(2) i(1,2) this] o p p' i show ?thesis by auto
qed


lemma chash_serves_owner_witness:
  "\<exists>points hp pc' hp' up' i. chash_ring (sort_key cp_hash) 320 ring_peers = Some points
     \<and> ngx_stream_upstream_get_chash_peer 100 (\<lambda>_. False) points sample_pc hp ring_up = Some (NGX_OK, pc', hp', up')
     \<and> rrp_current (hp_rrp hp') = Some (False, i) \<and> rp_server (rr_list False ring_up ! i) = ''a:80''"
proof -
  obtain points where p: "chash_ring (sort_key cp_hash) 320 ring_peers = Some points" "length points < 2 ^ 32"
    using ring_exists(1) by blast
  obtain hp :: ngx_http_upstream_hash_peer_data_t where hp: "hp_hash hp = of_nat (ngx_http_upstream_find_chash_point points (ngx_crc32_long ring_key))"
    "hp_tries hp = 0" "hp_rrp hp = sample_rrp" using ring_init_peer [of points] by blast
  have o: "chash_server points (hp_hash hp) = ''a:80''" unfolding hp(1) by (rule ring_owner [OF p])
  have u: "rr_shaped ring_up" "\<not> rs_single (ru_peers ring_up)" "0 < length (rr_list False ring_up)"
    "rr_usable 100 (\<lambda>_. False) (rr_list False ring_up ! 0)" "rp_server (rr_list False ring_up ! 0) = ''a:80''"
    by (simp_all add: ring_up_def rr_shaped_def rr_shape_def ring_group_def ring_peers_def rr_list_def rr_usable_def ring_peer_def
        rr_server_peer_def sample_sv_def)
  have r: "\<not> rrp_next (hp_rrp hp)" "\<not> rr_tried (rrp_tried (hp_rrp hp)) 0" by (simp_all add: hp(3) sample_rrp_def rr_tried_def)
  have n: "NUL \<notin> set ''a:80''" by simp
  from chash_serves_owner [OF r(1) u(1) chash_ring_Some(1) [OF sort_key_ok p(1)] disjI2 [OF refl], of 100 "\<lambda>_. False" sample_pc]
    o u r(2) n hp(2) p(1) show ?thesis by (metis not_less_zero)
qed

end
