(* ===== verification/Least_Conn.thy ===== *)
theory Least_Conn
  imports Round_Robin
begin

text \<open>
  The balancers that take the peer with the least connections for its weight
  (\<open>ngx_http_upstream_least_conn_module.c\<close>, \<open>ngx_stream_upstream_least_conn_module.c\<close>).
\<close>

subsection \<open>The choice\<close>

text \<open>\<open>peer->conns * best->weight\<close>: the signed weight is converted, the product wraps.\<close>

definition lc_load :: "ngx_http_upstream_rr_peer_t \<Rightarrow> ngx_http_upstream_rr_peer_t \<Rightarrow> ngx_uint_t" where
  "lc_load p q = rp_conns p * of_int (rp_weight q)"

text \<open>The first loop: the best peer with its position, and whether there are many.\<close>

fun lc_least ::
  "(nat \<Rightarrow> ngx_http_upstream_rr_peer_t \<Rightarrow> bool) \<Rightarrow> nat \<Rightarrow> ngx_http_upstream_rr_peer_t list
     \<Rightarrow> (nat \<times> ngx_http_upstream_rr_peer_t) option \<Rightarrow> bool \<Rightarrow> (nat \<times> ngx_http_upstream_rr_peer_t) option \<times> bool" where
  "lc_least skip i [] best many = (best, many)"
| "lc_least skip i (p # ps) best many =
     (if skip i p then lc_least skip (Suc i) ps best many
      else
        (case best of
           None \<Rightarrow> lc_least skip (Suc i) ps (Some (i, p)) False
         | Some (j, b) \<Rightarrow>
             if lc_load p b < lc_load b p then lc_least skip (Suc i) ps (Some (i, p)) False
             else if lc_load p b = lc_load b p then lc_least skip (Suc i) ps best True
             else lc_least skip (Suc i) ps best many))"

text \<open>The second loop, from the best peer on: round robin among those with the same load. \<open>b\<close> is what \<open>best\<close>
  points to, which the loop changes when it comes to it.\<close>

fun lc_many ::
  "(nat \<Rightarrow> ngx_http_upstream_rr_peer_t \<Rightarrow> bool) \<Rightarrow> nat \<Rightarrow> ngx_http_upstream_rr_peer_t list
     \<Rightarrow> nat \<times> ngx_http_upstream_rr_peer_t \<Rightarrow> int
     \<Rightarrow> ngx_http_upstream_rr_peer_t list \<times> (nat \<times> ngx_http_upstream_rr_peer_t) \<times> int" where
  "lc_many skip i [] best tot = ([], best, tot)"
| "lc_many skip i (p # ps) (j, b) tot =
     (if skip i p then map_prod ((#) p) id (lc_many skip (Suc i) ps (j, b) tot)
      else if lc_load p b \<noteq> lc_load b p then map_prod ((#) p) id (lc_many skip (Suc i) ps (j, b) tot)
      else
        let q = rr_weigh p;
            b = (if i = j then q else b)
        in map_prod ((#) q) id
             (lc_many skip (Suc i) ps (if rp_current_weight q > rp_current_weight b then (i, q) else (j, b))
                (tot + rp_effective_weight p)))"

definition lc_choose ::
  "(64 word list \<Rightarrow> nat \<Rightarrow> ngx_http_upstream_rr_peer_t \<Rightarrow> bool) \<Rightarrow> int \<Rightarrow> ngx_http_upstream_rr_peer_data_t
     \<Rightarrow> ngx_http_upstream_rr_peer_t list
     \<Rightarrow> nat option \<times> ngx_http_upstream_rr_peer_data_t \<times> ngx_http_upstream_rr_peer_t list" where
  "lc_choose skip now rrp ps =
     (case lc_least (skip (rrp_tried rrp)) 0 ps None False of
        (None, _) \<Rightarrow> (None, rrp, ps)
      | (Some (p, b), many) \<Rightarrow>
          let (ps, p, tot) =
                (if many
                 then (case lc_many (skip (rrp_tried rrp)) p (drop p ps) (p, b) 0 of
                         (qs, (j, _), tot) \<Rightarrow> (take p ps @ qs, j, tot))
                 else (ps, p, 0))
          in (Some p, rrp\<lparr>rrp_current := Some (rrp_next rrp, p), rrp_tried := rr_mark (rrp_tried rrp) p\<rparr>,
              ps[p := rr_take now tot (ps ! p)]))"

text \<open>The attempt on one list. A single peer is left to the round robin.\<close>

definition lc_attempt ::
  "(ngx_http_upstream_rr_peer_data_t \<Rightarrow> ngx_http_upstream_rr_peers_t
      \<Rightarrow> nat option \<times> ngx_http_upstream_rr_peer_data_t \<times> ngx_http_upstream_rr_peers_t)
     \<Rightarrow> (64 word list \<Rightarrow> nat \<Rightarrow> ngx_http_upstream_rr_peer_t \<Rightarrow> bool) \<Rightarrow> int \<Rightarrow> ngx_http_upstream_rr_peer_data_t
     \<Rightarrow> ngx_http_upstream_rr_peers_t
     \<Rightarrow> nat option \<times> ngx_http_upstream_rr_peer_data_t \<times> ngx_http_upstream_rr_peers_t" where
  "lc_attempt rr skip now rrp peers =
     (if rs_single peers then rr rrp peers
      else
        (case lc_choose skip now rrp (rs_peer peers) of
           (None, rrp, ps) \<Rightarrow> (None, rrp, peers\<lparr>rs_peer := ps\<rparr>)
         | (Some i, rrp, ps) \<Rightarrow>
             (Some i, rrp, peers\<lparr>rs_peer := ps[i := (ps ! i)\<lparr>rp_conns := rp_conns (ps ! i) + 1\<rparr>]\<rparr>)))"

text \<open>\<open>get_least_conn_peer\<close>; with a single primary peer the whole call is the round robin's.\<close>

definition ngx_http_upstream_get_least_conn_peer ::
  "int \<Rightarrow> (ngx_uint_t \<Rightarrow> bool) \<Rightarrow> rr_pc \<Rightarrow> ngx_http_upstream_rr_peer_data_t \<Rightarrow> rr_upstream
     \<Rightarrow> (ngx_rc \<times> rr_pc \<times> ngx_http_upstream_rr_peer_data_t \<times> rr_upstream) option" where
  "ngx_http_upstream_get_least_conn_peer now check_down pc rrp up =
     (if \<not> rrp_next rrp \<and> rs_single (ru_peers up) then ngx_http_upstream_get_round_robin_peer now check_down pc rrp up
      else rr_get (lc_attempt (rr_attempt (ngx_http_upstream_get_peer now check_down) check_down)
                     (http_rr_skip now check_down) now) (pc\<lparr>pc_cached := False\<rparr>) rrp up)"

definition ngx_stream_upstream_get_least_conn_peer ::
  "int \<Rightarrow> (ngx_uint_t \<Rightarrow> bool) \<Rightarrow> rr_pc \<Rightarrow> ngx_http_upstream_rr_peer_data_t \<Rightarrow> rr_upstream
     \<Rightarrow> (ngx_rc \<times> rr_pc \<times> ngx_http_upstream_rr_peer_data_t \<times> rr_upstream) option" where
  "ngx_stream_upstream_get_least_conn_peer now check_down pc rrp up =
     (if \<not> rrp_next rrp \<and> rs_single (ru_peers up) then ngx_stream_upstream_get_round_robin_peer now check_down pc rrp up
      else rr_get (lc_attempt (rr_attempt (ngx_stream_upstream_get_peer now check_down) check_down)
                     (http_rr_skip now check_down) now) pc rrp up)"

subsection \<open>What the loops do\<close>

lemma lc_least_best:
  assumes "lc_least skip i ps best many = (r, many')"
  shows "(r = None \<longrightarrow> best = None \<and> (\<forall>k < length ps. skip (i + k) (ps ! k)))
    \<and> (\<forall>j b. r = Some (j, b) \<longrightarrow> best = Some (j, b) \<or> (\<exists>k < length ps. j = i + k \<and> b = ps ! k \<and> \<not> skip j b))"
  using assms
proof (induction ps arbitrary: i best many)
  case (Cons p ps)
  have all: "(\<forall>k < length (p # ps). P (i + k) ((p # ps) ! k)) \<longleftrightarrow> P i p \<and> (\<forall>k < length ps. P (Suc i + k) (ps ! k))"
    and ex: "(\<exists>k < length (p # ps). P (i + k) ((p # ps) ! k)) \<longleftrightarrow> P i p \<or> (\<exists>k < length ps. P (Suc i + k) (ps ! k))"
    for P :: "nat \<Rightarrow> ngx_http_upstream_rr_peer_t \<Rightarrow> bool"
    by (auto simp: less_Suc_eq_0_disj)
  obtain best' many1 where l: "lc_least skip (Suc i) ps best' many1 = (r, many')"
    and b: "best' = best \<and> (skip i p \<or> best \<noteq> None) \<or> best' = Some (i, p) \<and> \<not> skip i p"
    using Cons.prems by (auto split: if_splits option.splits)
  from Cons.IH [OF l] b show ?case
    unfolding all [of "\<lambda>n q. skip n q"] ex [of "\<lambda>n q. j = n \<and> b = q \<and> \<not> skip j b" for j b] by auto
qed simp

definition lc_same :: "ngx_http_upstream_rr_peer_t \<Rightarrow> ngx_http_upstream_rr_peer_t \<Rightarrow> bool" where
  "lc_same p q \<longleftrightarrow> q = p \<or> q = rr_weigh p"

lemma lc_many_Cons:
  assumes "lc_many skip i (p # ps) (j, b) tot = (qs, best', tot')"
  obtains q qs' j2 b2 tot2 where "lc_many skip (Suc i) ps (j2, b2) tot2 = (qs', best', tot')" "qs = q # qs'"
    "q = p \<and> tot2 = tot \<and> (j2, b2) = (j, b)
     \<or> q = rr_weigh p \<and> \<not> skip i p \<and> lc_load p b = lc_load b p \<and> tot2 = tot + rp_effective_weight p
        \<and> ((j2, b2) = (j, if i = j then rr_weigh p else b) \<or> (j2, b2) = (i, rr_weigh p))"
proof -
  define stay where "stay \<longleftrightarrow> skip i p \<or> lc_load p b \<noteq> lc_load b p"
  define best where "best = (let q = rr_weigh p; b = (if i = j then q else b)
      in if rp_current_weight q > rp_current_weight b then (i, q) else (j, b))"
  define step where "step = (if stay then lc_many skip (Suc i) ps (j, b) tot
      else lc_many skip (Suc i) ps best (tot + rp_effective_weight p))"
  have "(qs, best', tot') = map_prod ((#) (if stay then p else rr_weigh p)) id step"
    unfolding assms [symmetric] by (simp add: step_def stay_def best_def Let_def)
  then obtain qs' where q: "step = (qs', best', tot')" "qs = (if stay then p else rr_weigh p) # qs'"
    by (cases step) auto
  have "best = (j, if i = j then rr_weigh p else b) \<or> best = (i, rr_weigh p)" by (simp add: best_def Let_def)
  with q that show ?thesis unfolding step_def stay_def by (cases best) (auto split: if_splits)
qed

lemma lc_many_keeps:
  assumes "lc_many skip i ps (j, b) tot = (qs, (j', b'), tot')"
  shows "list_all2 lc_same ps qs
    \<and> sum_list (map rp_current_weight qs) - tot' = sum_list (map rp_current_weight ps) - tot
    \<and> (j' = j \<or> (\<exists>k < length ps. j' = i + k \<and> \<not> skip j' (ps ! k)))"
  using assms
proof (induction ps arbitrary: i j b tot qs)
  case (Cons p ps)
  have ex: "(\<exists>k < length (p # ps). P (i + k) ((p # ps) ! k)) \<longleftrightarrow> P i p \<or> (\<exists>k < length ps. P (Suc i + k) (ps ! k))"
    for P :: "nat \<Rightarrow> ngx_http_upstream_rr_peer_t \<Rightarrow> bool"
    by (auto simp: less_Suc_eq_0_disj)
  from lc_many_Cons [OF Cons.prems] obtain q qs' j2 b2 tot2
    where l: "lc_many skip (Suc i) ps (j2, b2) tot2 = (qs', (j', b'), tot')" "qs = q # qs'"
    and c: "q = p \<and> tot2 = tot \<and> (j2, b2) = (j, b)
     \<or> q = rr_weigh p \<and> \<not> skip i p \<and> lc_load p b = lc_load b p \<and> tot2 = tot + rp_effective_weight p
        \<and> ((j2, b2) = (j, if i = j then rr_weigh p else b) \<or> (j2, b2) = (i, rr_weigh p))" .
  then have "q = p \<and> tot2 = tot \<and> j2 = j \<or> q = rr_weigh p \<and> \<not> skip i p \<and> tot2 = tot + rp_effective_weight p \<and> (j2 = j \<or> j2 = i)"
    by blast
  with Cons.IH [OF l(1)] l(2) show ?case
    unfolding ex [of "\<lambda>n q. j' = n \<and> \<not> skip j' q"] by (auto simp: lc_same_def)
qed simp

lemma lc_same_static: "lc_same p q \<Longrightarrow> rr_static q = rr_static p \<and> rp_conns q = rp_conns p \<and> (rr_weight_ok p \<longrightarrow> rr_weight_ok q)"
  by (auto simp: lc_same_def rr_static_def rr_weight_ok_def rr_weigh_def)

lemma lc_choose_none:
  "lc_choose skip now rrp ps = (None, rrp', ps') \<Longrightarrow> rrp' = rrp \<and> ps' = ps \<and> (\<forall>k < length ps. skip (rrp_tried rrp) k (ps ! k))"
  using lc_least_best [of "skip (rrp_tried rrp)" 0 ps None False]
  by (auto simp: lc_choose_def Let_def split: prod.splits option.splits)

lemma lc_choose_some:
  assumes "lc_choose skip now rrp ps = (Some i, rrp', ps')"
  shows "\<exists>qs tot. list_all2 lc_same ps qs \<and> sum_list (map rp_current_weight qs) - tot = sum_list (map rp_current_weight ps)
    \<and> i < length ps \<and> \<not> skip (rrp_tried rrp) i (ps ! i) \<and> ps' = qs[i := rr_take now tot (qs ! i)]
    \<and> rrp' = rrp\<lparr>rrp_current := Some (rrp_next rrp, i), rrp_tried := rr_mark (rrp_tried rrp) i\<rparr>"
proof -
  obtain r many where l: "lc_least (skip (rrp_tried rrp)) 0 ps None False = (r, many)" by fastforce
  with assms obtain p b where r: "r = Some (p, b)" by (auto simp: lc_choose_def split: option.splits)
  from lc_least_best [OF l] r have p: "p < length ps" "b = ps ! p" "\<not> skip (rrp_tried rrp) p (ps ! p)" by auto
  have refl: "list_all2 lc_same xs xs" for xs by (simp add: list_all2_refl lc_same_def)
  show ?thesis
  proof (cases many)
    case False
    with assms l r have "i = p" "ps' = ps[p := rr_take now 0 (ps ! p)]"
      "rrp' = rrp\<lparr>rrp_current := Some (rrp_next rrp, p), rrp_tried := rr_mark (rrp_tried rrp) p\<rparr>"
      by (auto simp: lc_choose_def)
    with p refl show ?thesis by (intro exI [of _ ps] exI [of _ 0]) simp
  next
    case True
    obtain qs j b' tot where m: "lc_many (skip (rrp_tried rrp)) p (drop p ps) (p, b) 0 = (qs, (j, b'), tot)" by (metis prod.exhaust)
    from assms l r True m have e: "i = j" "ps' = (take p ps @ qs)[j := rr_take now tot ((take p ps @ qs) ! j)]"
      "rrp' = rrp\<lparr>rrp_current := Some (rrp_next rrp, j), rrp_tried := rr_mark (rrp_tried rrp) j\<rparr>"
      by (auto simp: lc_choose_def)
    note k = lc_many_keeps [OF m]
    have "list_all2 lc_same (take p ps @ drop p ps) (take p ps @ qs)"
      using k refl by (intro list_all2_appendI) auto
    moreover have "sum_list (map rp_current_weight (take p ps @ qs)) - tot = sum_list (map rp_current_weight (take p ps @ drop p ps))"
      using k by (simp only: map_append sum_list_append) linarith
    moreover have "j < length ps" "\<not> skip (rrp_tried rrp) j (ps ! j)" using k p by auto
    ultimately show ?thesis using e by (intro exI [of _ "take p ps @ qs"] exI [of _ tot]) simp
  qed
qed

lemma lc_choose_took:
  assumes "lc_choose skip now rrp ps = (Some i, rrp', qs)"
  shows "rr_took i ps (qs[i := (qs ! i)\<lparr>rp_conns := rp_conns (qs ! i) + 1\<rparr>])"
proof -
  from lc_choose_some [OF assms] obtain ws tot where
    c: "list_all2 lc_same ps ws" "sum_list (map rp_current_weight ws) - tot = sum_list (map rp_current_weight ps)"
      "i < length ps" "qs = ws[i := rr_take now tot (ws ! i)]" by blast
  have len: "length ws = length ps" using c(1) by (simp add: list_all2_lengthD)
  have e: "rr_static (ws ! k) = rr_static (ps ! k)" "rp_conns (ws ! k) = rp_conns (ps ! k)"
    "rr_weight_ok (ps ! k) \<Longrightarrow> rr_weight_ok (ws ! k)" if "k < length ps" for k
    using lc_same_static list_all2_nthD [OF c(1) that] by blast+
  have t: "rr_static (p\<lparr>rp_conns := n\<rparr>) = rr_static p" "rr_static (rr_take now tot p) = rr_static p"
    "rr_weight_ok (p\<lparr>rp_conns := n\<rparr>) = rr_weight_ok p" "rr_weight_ok (rr_take now tot p) = rr_weight_ok p" for p n
    by (simp_all add: rr_static_def rr_weight_ok_def)
  show ?thesis
    unfolding rr_took_def
  proof (intro conjI allI impI)
    show "sum_list (map rp_current_weight (qs[i := (qs ! i)\<lparr>rp_conns := rp_conns (qs ! i) + 1\<rparr>])) = sum_list (map rp_current_weight ps)"
      using c(2,3) len by (simp add: c(4) map_update sum_list_update_int)
  qed (use c(3) len e t in \<open>auto simp: c(4) nth_list_update\<close>)
qed

text \<open>The attempt keeps the contract of the round robin's.\<close>

context rr_filter
begin

lemma lc_attempt_none:
  assumes "lc_attempt (rr_attempt (rr_choose (skip' now cd) now) cd) (skip now cd) now rrp g = (None, rrp', g')" "rr_shape g"
    and "rr_filter skip'"
  shows "rrp' = rrp \<and> g' = g \<and> (\<forall>k < length (rs_peer g). rr_tried (rrp_tried rrp) k \<or> \<not> rr_usable now cd (rs_peer g ! k))"
proof (cases "rs_single g")
  case True
  with assms(1) rr_filter.rr_attempt_none [OF assms(3) _ assms(2)] show ?thesis by (simp add: lc_attempt_def)
next
  case False
  with assms(1) obtain ps where c: "lc_choose (skip now cd) now rrp (rs_peer g) = (None, rrp', ps)" "g' = g\<lparr>rs_peer := ps\<rparr>"
    by (auto simp: lc_attempt_def split: prod.splits option.splits)
  from lc_choose_none [OF c(1)] c(2) show ?thesis by (auto simp: skip_iff)
qed

lemma lc_attempt_some:
  assumes "lc_attempt (rr_attempt (rr_choose (skip' now cd) now) cd) (skip now cd) now rrp g = (Some i, rrp', g')" "rr_shape g"
    and "rr_filter skip'"
  shows "rr_took i (rs_peer g) (rs_peer g') \<and> rr_shape g'
    \<and> rrp_current rrp' = Some (rrp_next rrp, i) \<and> rrp_next rrp' = rrp_next rrp
    \<and> \<not> rp_down (rs_peer g ! i) \<and> \<not> cd (rp_check_index (rs_peer g ! i))
    \<and> (rp_max_conns (rs_peer g ! i) = 0 \<or> rp_conns (rs_peer g ! i) < rp_max_conns (rs_peer g ! i))
    \<and> (rs_single g \<or> rr_usable now cd (rs_peer g ! i) \<and> \<not> rr_tried (rrp_tried rrp) i)"
proof (cases "rs_single g")
  case True
  with assms(1) have "rr_attempt (rr_choose (skip' now cd) now) cd rrp g = (Some i, rrp', g')" by (simp add: lc_attempt_def)
  from rr_filter.rr_attempt_some [OF assms(3) this assms(2)] show ?thesis .
next
  case False
  with assms(1) obtain ps where c: "lc_choose (skip now cd) now rrp (rs_peer g) = (Some i, rrp', ps)"
    "g' = g\<lparr>rs_peer := ps[i := (ps ! i)\<lparr>rp_conns := rp_conns (ps ! i) + 1\<rparr>]\<rparr>"
    by (auto simp: lc_attempt_def split: prod.splits option.splits)
  have "rr_took i (rs_peer g) (rs_peer g')" using lc_choose_took [OF c(1)] c(2) by simp
  moreover obtain "\<not> skip now cd (rrp_tried rrp) i (rs_peer g ! i)"
    "rrp' = rrp\<lparr>rrp_current := Some (rrp_next rrp, i), rrp_tried := rr_mark (rrp_tried rrp) i\<rparr>"
    using lc_choose_some [OF c(1)] by blast
  ultimately show ?thesis using False assms(2) c(2) by (auto simp: skip_iff rr_usable_def rr_shape_def rr_took_def)
qed

end

interpretation http_lc: peer_attempt "\<lambda>now cd. lc_attempt (rr_attempt (rr_choose (http_rr_skip now cd) now) cd) (http_rr_skip now cd) now"
  using http_rr.lc_attempt_none http_rr.lc_attempt_some http_rr.rr_filter_axioms by unfold_locales blast+

interpretation stream_lc: peer_attempt "\<lambda>now cd. lc_attempt (rr_attempt (rr_choose (stream_rr_skip now cd) now) cd) (http_rr_skip now cd) now"
  using http_rr.lc_attempt_none http_rr.lc_attempt_some stream_rr.rr_filter_axioms by unfold_locales blast+

subsection \<open>The least loaded peer\<close>

text \<open>Connections for the weight, compared without division, of weights that are positive and products that fit.\<close>

definition lc_le :: "ngx_http_upstream_rr_peer_t \<Rightarrow> ngx_http_upstream_rr_peer_t \<Rightarrow> bool" where
  "lc_le p q \<longleftrightarrow> uint (rp_conns p) * rp_weight q \<le> uint (rp_conns q) * rp_weight p"

definition lc_sane :: "ngx_http_upstream_rr_peer_t set \<Rightarrow> bool" where
  "lc_sane S \<longleftrightarrow> (\<forall>p \<in> S. 0 < rp_weight p \<and> (\<forall>q \<in> S. uint (rp_conns p) * rp_weight q < 2 ^ 64))"

lemma lc_le_trans: "lc_le p q \<Longrightarrow> lc_le q r \<Longrightarrow> 0 < rp_weight p \<Longrightarrow> 0 < rp_weight q \<Longrightarrow> 0 < rp_weight r \<Longrightarrow> lc_le p r"
proof -
  assume a: "lc_le p q" "lc_le q r" and w: "0 < rp_weight p" "0 < rp_weight q" "0 < rp_weight r"
  from a(1) w have "uint (rp_conns p) * rp_weight q * rp_weight r \<le> uint (rp_conns q) * rp_weight p * rp_weight r"
    by (simp add: lc_le_def)
  also from a(2) w have "\<dots> \<le> uint (rp_conns r) * rp_weight q * rp_weight p"
    using mult_right_mono [of "uint (rp_conns q) * rp_weight r" "uint (rp_conns r) * rp_weight q" "rp_weight p"]
    by (simp add: lc_le_def mult.assoc mult.commute mult.left_commute)
  finally have "rp_weight q * (uint (rp_conns p) * rp_weight r) \<le> rp_weight q * (uint (rp_conns r) * rp_weight p)"
    by (simp add: mult.assoc mult.commute mult.left_commute)
  then show "lc_le p r" using w(2) by (simp add: lc_le_def)
qed

lemma lc_load_uint:
  assumes "lc_sane S" "p \<in> S" "q \<in> S"
  shows "uint (lc_load p q) = uint (rp_conns p) * rp_weight q"
proof -
  have r: "0 \<le> uint (rp_conns p) * rp_weight q" "uint (rp_conns p) * rp_weight q < 2 ^ 64" and w: "0 < rp_weight q"
    using assms by (simp_all add: lc_sane_def less_imp_le)
  have "lc_load p q = word_of_int (uint (rp_conns p) * rp_weight q)"
    by (simp add: lc_load_def)
  moreover have "uint (word_of_int x :: 64 word) = x" if "0 \<le> x" "x < 2 ^ 64" for x
    using that by (simp add: unsigned_of_int take_bit_int_eq_self)
  ultimately show ?thesis using r by (simp only:)
qed

lemma lc_load_le:
  assumes "lc_sane S" "p \<in> S" "b \<in> S"
  shows "lc_load p b < lc_load b p \<Longrightarrow> lc_le p b" "lc_load p b = lc_load b p \<Longrightarrow> lc_le p b \<and> lc_le b p"
    "\<not> lc_load p b < lc_load b p \<Longrightarrow> lc_le b p"
  using lc_load_uint [OF assms] lc_load_uint [OF assms(1,3,2)] by (auto simp: lc_le_def word_less_def)

lemma lc_least_min:
  assumes "lc_least skip i ps best many = (Some (j, b), many')" "lc_sane S" "set ps \<subseteq> S" "\<forall>j b. best = Some (j, b) \<longrightarrow> b \<in> S"
  shows "b \<in> S \<and> (\<forall>j0 b0. best = Some (j0, b0) \<longrightarrow> lc_le b b0) \<and> (\<forall>k < length ps. \<not> skip (i + k) (ps ! k) \<longrightarrow> lc_le b (ps ! k))"
  using assms
proof (induction ps arbitrary: i best many)
  case (Cons p ps)
  have all: "(\<forall>k < length (p # ps). P (i + k) ((p # ps) ! k)) \<longleftrightarrow> P i p \<and> (\<forall>k < length ps. P (Suc i + k) (ps ! k))"
    for P :: "nat \<Rightarrow> ngx_http_upstream_rr_peer_t \<Rightarrow> bool"
    by (auto simp: less_Suc_eq_0_disj)
  have pS: "p \<in> S" using Cons.prems(3) by simp
  obtain best' many1 where l: "lc_least skip (Suc i) ps best' many1 = (Some (j, b), many')"
    and c: "best' = best \<and> (skip i p \<or> (\<exists>j0 b0. best = Some (j0, b0) \<and> lc_le b0 p))
      \<or> best' = Some (i, p) \<and> (\<forall>j0 b0. best = Some (j0, b0) \<longrightarrow> lc_le p b0)"
    using Cons.prems(1,4) lc_load_le [OF Cons.prems(2) pS] by (auto split: if_splits option.splits)
  have S': "\<forall>j b. best' = Some (j, b) \<longrightarrow> b \<in> S" using c Cons.prems(4) pS by auto
  note ih = Cons.IH [OF l Cons.prems(2) _ S']
  have w: "0 < rp_weight q" if "q \<in> S" for q using that Cons.prems(2) by (simp add: lc_sane_def)
  have tr: "lc_le x z" if "lc_le x y" "lc_le y z" "x \<in> S" "y \<in> S" "z \<in> S" for x y z
    using lc_le_trans [OF that(1,2)] w that(3-5) by blast
  show ?case
    unfolding all [of "\<lambda>n q. \<not> skip n q \<longrightarrow> lc_le b q"]
    using ih c Cons.prems(3,4) pS tr by (metis list.set_intros(2) subset_iff)
qed (auto simp: lc_le_def)

text \<open>Every change of the best peer in the second loop goes to one with the same load.\<close>

lemma lc_many_min:
  assumes "lc_many skip i ps (j, b) tot = (qs, (j', b'), tot')" "lc_sane S" "set ps \<subseteq> S" "b0 \<in> S"
    and "rp_conns b = rp_conns b0" "rp_weight b = rp_weight b0" "j < i \<or> j = i \<and> ps \<noteq> [] \<and> hd ps = b0"
  shows "\<exists>q \<in> S. lc_le q b0 \<and> (j' = j \<and> q = b0 \<or> (\<exists>k < length ps. j' = i + k \<and> q = ps ! k))"
  using assms
proof (induction ps arbitrary: i j b b0 tot qs)
  case Nil
  then show ?case by (auto simp: lc_le_def)
next
  case (Cons p ps)
  have ex: "(\<exists>k < length (p # ps). P (i + k) ((p # ps) ! k)) \<longleftrightarrow> P i p \<or> (\<exists>k < length ps. P (Suc i + k) (ps ! k))"
    for P :: "nat \<Rightarrow> ngx_http_upstream_rr_peer_t \<Rightarrow> bool"
    by (auto simp: less_Suc_eq_0_disj)
  have S: "p \<in> S" "set ps \<subseteq> S" using Cons.prems(3) by auto
  have ij: "i = j \<Longrightarrow> p = b0" using Cons.prems(7) by auto
  from lc_many_Cons [OF Cons.prems(1)] obtain q qs' j2 b2 tot2
    where l: "lc_many skip (Suc i) ps (j2, b2) tot2 = (qs', (j', b'), tot')" and "qs = q # qs'"
    and c: "q = p \<and> tot2 = tot \<and> (j2, b2) = (j, b)
     \<or> q = rr_weigh p \<and> \<not> skip i p \<and> lc_load p b = lc_load b p \<and> tot2 = tot + rp_effective_weight p
        \<and> ((j2, b2) = (j, if i = j then rr_weigh p else b) \<or> (j2, b2) = (i, rr_weigh p))" .
  have "lc_load p b = lc_load p b0" "lc_load b p = lc_load b0 p" using Cons.prems(5,6) by (simp_all add: lc_load_def)
  then have same: "lc_load p b = lc_load b p \<Longrightarrow> lc_le p b0" using lc_load_le(2) [OF Cons.prems(2) S(1) Cons.prems(4)] by simp
  from c consider "j2 = j" "rp_conns b2 = rp_conns b0" "rp_weight b2 = rp_weight b0"
    | "j2 = i" "rp_conns b2 = rp_conns p" "rp_weight b2 = rp_weight p" "lc_le p b0"
    using Cons.prems(5,6) ij same by (auto split: if_splits)
  then show ?case
  proof cases
    case 1
    from Cons.IH [OF l Cons.prems(2) S(2) Cons.prems(4) 1(2,3)] 1(1) Cons.prems(7) show ?thesis
      unfolding ex [of "\<lambda>n x. j' = n \<and> q = x" for q] by auto
  next
    case 2
    from Cons.IH [OF l Cons.prems(2) S(2) S(1) 2(2,3)] 2(1) obtain q where q: "q \<in> S" "lc_le q p"
      "j' = i \<and> q = p \<or> (\<exists>k < length ps. j' = Suc i + k \<and> q = ps ! k)" by auto
    moreover have "lc_le q b0"
      using lc_le_trans [OF q(2) 2(4)] Cons.prems(2,4) S(1) q(1) by (simp add: lc_sane_def)
    ultimately show ?thesis unfolding ex [of "\<lambda>n x. j' = n \<and> q = x" for q] by auto
  qed
qed

lemma lc_choose_min:
  assumes "lc_choose skip now rrp ps = (Some i, rrp', ps')" "lc_sane (set ps)"
    and "k < length ps" "\<not> skip (rrp_tried rrp) k (ps ! k)"
  shows "lc_le (ps ! i) (ps ! k)"
proof -
  obtain r many where l: "lc_least (skip (rrp_tried rrp)) 0 ps None False = (r, many)" by fastforce
  with assms(1) obtain p b where r: "r = Some (p, b)" by (auto simp: lc_choose_def split: option.splits)
  from lc_least_best [OF l] r have p: "p < length ps" "b = ps ! p" by auto
  from lc_least_min [OF l [unfolded r] assms(2)] assms(3,4) have m: "b \<in> set ps" "lc_le b (ps ! k)" by auto
  have w: "0 < rp_weight q" if "q \<in> set ps" for q using that assms(2) by (simp add: lc_sane_def)
  show ?thesis
  proof (cases many)
    case False
    with assms(1) l r have "i = p" by (auto simp: lc_choose_def)
    with m p show ?thesis by simp
  next
    case True
    obtain qs j b' tot where mm: "lc_many (skip (rrp_tried rrp)) p (drop p ps) (p, b) 0 = (qs, (j, b'), tot)" by (metis prod.exhaust)
    from assms(1) l r True mm have "i = j" by (auto simp: lc_choose_def)
    moreover have "\<exists>q \<in> set ps. lc_le q b \<and> (j = p \<and> q = b \<or> (\<exists>k < length (drop p ps). j = p + k \<and> q = drop p ps ! k))"
      by (rule lc_many_min [OF mm assms(2) set_drop_subset m(1)]) (use p in \<open>simp_all add: hd_drop_conv_nth\<close>)
    ultimately have "lc_le (ps ! i) b" "ps ! i \<in> set ps" using p by auto
    then show ?thesis using lc_le_trans [of "ps ! i" b "ps ! k"] m w assms(3) by simp
  qed
qed

lemma lc_get_eq:
  assumes "\<not> rrp_next rrp" "\<not> rs_single (ru_peers up)"
  shows "ngx_http_upstream_get_least_conn_peer now cd pc rrp up =
      rr_get (lc_attempt (rr_attempt (rr_choose (http_rr_skip now cd) now) cd) (http_rr_skip now cd) now)
        (pc\<lparr>pc_cached := False\<rparr>) rrp up"
    and "ngx_stream_upstream_get_least_conn_peer now cd pc rrp up =
      rr_get (lc_attempt (rr_attempt (rr_choose (stream_rr_skip now cd) now) cd) (http_rr_skip now cd) now) pc rrp up"
proof -
  have "ngx_http_upstream_get_peer now cd = rr_choose (http_rr_skip now cd) now"
    "ngx_stream_upstream_get_peer now cd = rr_choose (stream_rr_skip now cd) now"
    by (intro ext, simp add: ngx_http_upstream_get_peer_def ngx_stream_upstream_get_peer_def)+
  with assms show "ngx_http_upstream_get_least_conn_peer now cd pc rrp up =
      rr_get (lc_attempt (rr_attempt (rr_choose (http_rr_skip now cd) now) cd) (http_rr_skip now cd) now)
        (pc\<lparr>pc_cached := False\<rparr>) rrp up"
    and "ngx_stream_upstream_get_least_conn_peer now cd pc rrp up =
      rr_get (lc_attempt (rr_attempt (rr_choose (stream_rr_skip now cd) now) cd) (http_rr_skip now cd) now) pc rrp up"
    by (simp_all add: ngx_http_upstream_get_least_conn_peer_def ngx_stream_upstream_get_least_conn_peer_def)
qed

lemma lc_attempt_chose:
  assumes "lc_attempt rr skip now rrp g = (Some i, rrp2, g')" "\<not> rs_single g"
  shows "\<exists>ps. lc_choose skip now rrp (rs_peer g) = (Some i, rrp2, ps)"
  using assms by (auto simp: lc_attempt_def split: prod.splits option.splits)

text \<open>C8: Least connections. When \<open>get_least_conn_peer\<close> of either module takes one of several primary peers, no usable
  peer that was not tried has fewer connections for its weight, if the weights are positive and the products fit in 64
  bits.\<close>

theorem least_conn_least:
  assumes "ngx_http_upstream_get_least_conn_peer now cd pc rrp up = Some (NGX_OK, pc', rrp', up')
      \<or> ngx_stream_upstream_get_least_conn_peer now cd pc rrp up = Some (NGX_OK, pc', rrp', up')"
    and "\<not> rrp_next rrp" "\<not> rs_single (ru_peers up)" "rr_shaped up" "lc_sane (set (rr_list False up))"
    and "rrp_current rrp' = Some (False, i)"
    and "k < length (rr_list False up)" "\<not> rr_tried (rrp_tried rrp) k" "rr_usable now cd (rr_list False up ! k)"
  shows "uint (rp_conns (rr_list False up ! i)) * rp_weight (rr_list False up ! k)
    \<le> uint (rp_conns (rr_list False up ! k)) * rp_weight (rr_list False up ! i)"
proof -
  from assms(1) have "\<exists>rr rrp2 g. lc_attempt rr (http_rr_skip now cd) now rrp (ru_peers up) = (Some i, rrp2, g)"
    unfolding lc_get_eq [OF assms(2,3)]
    using http_lc.primary_attempt [OF _ assms(2,4,6)] stream_lc.primary_attempt [OF _ assms(2,4,6)] by blast
  then obtain rrp2 ps where "lc_choose (http_rr_skip now cd) now rrp (rr_list False up) = (Some i, rrp2, ps)"
    using lc_attempt_chose [OF _ assms(3)] by (simp add: rr_list_def) blast
  from lc_choose_min [OF this assms(5,7)] assms(8,9) show ?thesis by (simp add: lc_le_def http_rr.skip_iff)
qed

text \<open>Two primary peers, the first with a connection.\<close>

definition sample_pair :: rr_upstream where
  "sample_pair =
     \<lparr>ru_peers = \<lparr>rs_number = 2, rs_total_weight = 2, rs_single = False, rs_weighted = False, rs_name = ''db'',
                   rs_peer = [(rr_server_peer (sample_sv False sample_server) sample_server 0)\<lparr>rp_conns := 1\<rparr>,
                              rr_server_peer (sample_sv False sample_backup) sample_backup 1]\<rparr>,
      ru_next = None\<rparr>"

lemma least_conn_least_witness:
  "\<exists>pc' rrp' up'. ngx_http_upstream_get_least_conn_peer 100 (\<lambda>_. False) sample_pc sample_rrp sample_pair = Some (NGX_OK, pc', rrp', up')
     \<and> rrp_current rrp' = Some (False, 1)
     \<and> uint (rp_conns (rr_list False sample_pair ! 1)) * rp_weight (rr_list False sample_pair ! 0)
       \<le> uint (rp_conns (rr_list False sample_pair ! 0)) * rp_weight (rr_list False sample_pair ! 1)"
proof -
  obtain pc' rrp' up' where g: "ngx_http_upstream_get_least_conn_peer 100 (\<lambda>_. False) sample_pc sample_rrp sample_pair = Some (NGX_OK, pc', rrp', up')"
    "rrp_current rrp' = Some (False, 1)"
    by (simp add: ngx_http_upstream_get_least_conn_peer_def rr_get_def lc_attempt_def sample_pair_def sample_rrp_def lc_choose_def
        lc_load_def http_rr_skip_def rr_server_peer_def sample_sv_def rr_tried_def Let_def)
  have w: "\<not> rrp_next sample_rrp" "\<not> rs_single (ru_peers sample_pair)" "rr_shaped sample_pair" "lc_sane (set (rr_list False sample_pair))"
    "0 < length (rr_list False sample_pair)" "\<not> rr_tried (rrp_tried sample_rrp) 0" "rr_usable 100 (\<lambda>_. False) (rr_list False sample_pair ! 0)"
    by (simp_all add: sample_rrp_def sample_pair_def rr_shaped_def rr_shape_def lc_sane_def rr_list_def rr_server_peer_def sample_sv_def
        rr_tried_def rr_usable_def)
  from least_conn_least [OF disjI1 [OF g(1)] w(1-4) g(2) w(5-7)] g show ?thesis by blast
qed

end
