(* ===== verification/Random_Balance.thy ===== *)
theory Random_Balance
  imports Least_Conn Hash_Balance
begin

text \<open>
  The random balancers (\<open>ngx_http_upstream_random_module.c\<close>, \<open>ngx_stream_upstream_random_module.c\<close>): a peer drawn by
  weight, or the less loaded of two. They do not ask the health checks.
\<close>

subsection \<open>Configuration\<close>

text \<open>\<open>peer\<close> of a range is the position in the list.\<close>

record ngx_http_upstream_random_range_t =
  rg_peer :: nat
  rg_range :: ngx_uint_t

record ngx_http_upstream_random_srv_conf_t =
  rc_two :: bool
  rc_ranges :: "ngx_http_upstream_random_range_t list option"

definition ngx_http_upstream_random_create_conf :: "bool \<Rightarrow> ngx_http_upstream_random_srv_conf_t option" where
  "ngx_http_upstream_random_create_conf pcalloc = (if pcalloc then Some \<lparr>rc_two = False, rc_ranges = None\<rparr> else None)"

text \<open>The directive; \<open>args\<close> are the words of the line.\<close>

definition ngx_http_upstream_random ::
  "string list \<Rightarrow> ngx_http_upstream_random_srv_conf_t \<Rightarrow> conf_rc \<times> ngx_http_upstream_random_srv_conf_t" where
  "ngx_http_upstream_random args rcf =
     (if length args = 1 then (NGX_CONF_OK, rcf)
      else if args ! 1 = ''two'' then
        let rcf = rcf\<lparr>rc_two := True\<rparr>
        in if length args = 2 then (NGX_CONF_OK, rcf)
           else if args ! 2 \<noteq> ''least_conn'' then (NGX_CONF_ERROR, rcf)
           else (NGX_CONF_OK, rcf)
      else (NGX_CONF_ERROR, rcf))"

fun random_ranges :: "nat \<Rightarrow> ngx_uint_t \<Rightarrow> ngx_http_upstream_rr_peer_t list \<Rightarrow> ngx_http_upstream_random_range_t list" where
  "random_ranges i total_weight [] = []"
| "random_ranges i total_weight (p # ps) =
     \<lparr>rg_peer = i, rg_range = total_weight\<rparr> # random_ranges (Suc i) (total_weight + of_int (rp_weight p)) ps"

text \<open>\<open>peers->number\<close>, for which the array is allocated, is the length of the list.\<close>

definition ngx_http_upstream_update_random ::
  "bool \<Rightarrow> rr_upstream \<Rightarrow> ngx_http_upstream_random_srv_conf_t \<Rightarrow> ngx_rc \<times> ngx_http_upstream_random_srv_conf_t" where
  "ngx_http_upstream_update_random alloc up rcf =
     (if \<not> alloc then (NGX_ERROR, rcf)
      else (NGX_OK, rcf\<lparr>rc_ranges := Some (random_ranges 0 0 (rs_peer (ru_peers up)))\<rparr>))"

text \<open>\<open>init\<close> is the result of \<open>init_round_robin\<close>; with a zone the ranges are made by the first request.\<close>

definition random_init ::
  "bool \<Rightarrow> bool \<Rightarrow> ngx_rc \<times> rr_upstream option \<times> ngx_upstream_check_peers_t \<Rightarrow> ngx_http_upstream_random_srv_conf_t
     \<Rightarrow> (ngx_rc \<times> rr_upstream option \<times> ngx_upstream_check_peers_t \<times> ngx_http_upstream_random_srv_conf_t) option" where
  "random_init zone palloc init rcf =
     (case init of
        (rc, data, cps) \<Rightarrow>
          if rc \<noteq> NGX_OK then Some (NGX_ERROR, data, cps, rcf)
          else if zone then Some (NGX_OK, data, cps, rcf)
          else
            (case data of
               None \<Rightarrow> None
             | Some up \<Rightarrow> (case ngx_http_upstream_update_random palloc up rcf of (rc, rcf) \<Rightarrow> Some (rc, data, cps, rcf))))"

definition ngx_http_upstream_init_random ::
  "bool \<Rightarrow> bool \<Rightarrow> (nat \<Rightarrow> bool) \<Rightarrow> (nat \<Rightarrow> add_allocs) \<Rightarrow> ngx_addr_t list option \<Rightarrow> nat \<Rightarrow> check_upstream \<Rightarrow> 16 word
     \<Rightarrow> ngx_http_upstream_server_t list option \<Rightarrow> ngx_upstream_check_peers_t \<Rightarrow> ngx_http_upstream_random_srv_conf_t
     \<Rightarrow> (ngx_rc \<times> rr_upstream option \<times> ngx_upstream_check_peers_t \<times> ngx_http_upstream_random_srv_conf_t) option" where
  "ngx_http_upstream_init_random zone palloc pcalloc al resolve u us port servers cps rcf =
     random_init zone palloc (ngx_http_upstream_init_round_robin pcalloc al resolve u us port servers cps) rcf"

definition ngx_stream_upstream_init_random ::
  "bool \<Rightarrow> bool \<Rightarrow> (nat \<Rightarrow> bool) \<Rightarrow> (nat \<Rightarrow> add_allocs) \<Rightarrow> ngx_addr_t list option \<Rightarrow> nat \<Rightarrow> check_upstream \<Rightarrow> 16 word
     \<Rightarrow> ngx_http_upstream_server_t list option \<Rightarrow> ngx_upstream_check_peers_t \<Rightarrow> ngx_http_upstream_random_srv_conf_t
     \<Rightarrow> (ngx_rc \<times> rr_upstream option \<times> ngx_upstream_check_peers_t \<times> ngx_http_upstream_random_srv_conf_t) option" where
  "ngx_stream_upstream_init_random zone palloc pcalloc al resolve u us port servers cps rcf =
     random_init zone palloc (ngx_stream_upstream_init_round_robin pcalloc al resolve u us port servers cps) rcf"

subsection \<open>A request\<close>

text \<open>\<open>tries\<close> stops at 21, so its one byte does not wrap.\<close>

record ngx_http_upstream_random_peer_data_t =
  rd_rrp :: ngx_http_upstream_rr_peer_data_t
  rd_tries :: nat

definition random_init_peer ::
  "(bool \<Rightarrow> bool \<Rightarrow> ngx_http_upstream_rr_peer_data_t option \<Rightarrow> rr_upstream \<Rightarrow> (ngx_http_upstream_rr_peer_data_t \<times> nat) option)
     \<Rightarrow> bool \<Rightarrow> bool \<Rightarrow> bool \<Rightarrow> bool \<Rightarrow> ngx_http_upstream_rr_peer_data_t \<Rightarrow> rr_upstream \<Rightarrow> ngx_http_upstream_random_srv_conf_t
     \<Rightarrow> (ngx_http_upstream_random_peer_data_t \<times> nat \<times> ngx_http_upstream_random_srv_conf_t) option" where
  "random_init_peer init zone palloc pcalloc alloc junk up rcf =
     (if \<not> palloc then None
      else
        (case init True pcalloc (Some junk) up of
           None \<Rightarrow> None
         | Some (rrp, tries) \<Rightarrow>
             let rp = \<lparr>rd_rrp = rrp, rd_tries = 0\<rparr>
             in if zone \<and> rc_ranges rcf = None
                then (case ngx_http_upstream_update_random alloc up rcf of
                        (rc, rcf) \<Rightarrow> if rc \<noteq> NGX_OK then None else Some (rp, tries, rcf))
                else Some (rp, tries, rcf)))"

definition ngx_http_upstream_init_random_peer ::
  "bool \<Rightarrow> bool \<Rightarrow> bool \<Rightarrow> bool \<Rightarrow> ngx_http_upstream_rr_peer_data_t \<Rightarrow> rr_upstream \<Rightarrow> ngx_http_upstream_random_srv_conf_t
     \<Rightarrow> (ngx_http_upstream_random_peer_data_t \<times> nat \<times> ngx_http_upstream_random_srv_conf_t) option" where
  "ngx_http_upstream_init_random_peer zone palloc pcalloc alloc junk up rcf =
     random_init_peer ngx_http_upstream_init_round_robin_peer zone palloc pcalloc alloc junk up rcf"

definition ngx_stream_upstream_init_random_peer ::
  "bool \<Rightarrow> bool \<Rightarrow> bool \<Rightarrow> bool \<Rightarrow> ngx_http_upstream_rr_peer_data_t \<Rightarrow> rr_upstream \<Rightarrow> ngx_http_upstream_random_srv_conf_t
     \<Rightarrow> (ngx_http_upstream_random_peer_data_t \<times> nat \<times> ngx_http_upstream_random_srv_conf_t) option" where
  "ngx_stream_upstream_init_random_peer zone palloc pcalloc alloc junk up rcf =
     random_init_peer ngx_stream_upstream_init_round_robin_peer zone palloc pcalloc alloc junk up rcf"

text \<open>The binary search for the number \<open>x\<close>.\<close>

function random_search :: "ngx_http_upstream_random_range_t list \<Rightarrow> ngx_uint_t \<Rightarrow> nat \<Rightarrow> nat \<Rightarrow> nat" where
  "random_search ranges x i j =
     (if j - i > 1 then
        let k = (i + j) div 2
        in if x < rg_range (ranges ! k) then random_search ranges x i k else random_search ranges x k j
      else i)"
  by pat_completeness auto

termination
  by (relation "measure (\<lambda>(ranges, x, i, j). j - i)") auto

declare random_search.simps [simp del]

text \<open>\<open>r\<close> is what \<open>ngx_random\<close> returns; \<open>None\<close> is a remainder by zero.\<close>

definition ngx_http_upstream_peek_random_peer ::
  "ngx_uint_t \<Rightarrow> ngx_http_upstream_random_range_t list \<Rightarrow> ngx_http_upstream_rr_peers_t \<Rightarrow> nat option" where
  "ngx_http_upstream_peek_random_peer r ranges peers =
     (if rs_total_weight peers = 0 then None
      else Some (random_search ranges (r mod rs_total_weight peers) 0 (rs_number peers)))"

text \<open>The conditions under which a draw is lost. The lock of the peer is given back on every branch.\<close>

definition random_skip :: "int \<Rightarrow> 64 word list \<Rightarrow> nat \<Rightarrow> ngx_http_upstream_rr_peer_t \<Rightarrow> bool" where
  "random_skip now tried i p =
     (if rr_tried tried i then True
      else if rp_down p then True
      else if rp_max_fails p \<noteq> 0 \<and> rp_fails p \<ge> rp_max_fails p \<and> now - rp_checked p \<le> rp_fail_timeout p then True
      else if rp_max_conns p \<noteq> 0 \<and> rp_conns p \<ge> rp_max_conns p then True
      else False)"

text \<open>The loop; \<open>rand t\<close> is the number drawn at try \<open>t\<close>.\<close>

function random_loop ::
  "(nat \<Rightarrow> ngx_uint_t) \<Rightarrow> ngx_http_upstream_random_range_t list \<Rightarrow> int \<Rightarrow> 64 word list \<Rightarrow> ngx_http_upstream_rr_peers_t \<Rightarrow> nat
     \<Rightarrow> (nat option \<times> nat) option" where
  "random_loop rand ranges now tried peers tries =
     (case ngx_http_upstream_peek_random_peer (rand tries) ranges peers of
        None \<Rightarrow> None
      | Some i \<Rightarrow>
          let p = rg_peer (ranges ! i)
          in if random_skip now tried i (rs_peer peers ! p)
             then (if Suc tries > 20 then Some (None, Suc tries) else random_loop rand ranges now tried peers (Suc tries))
             else Some (Some i, tries))"
  by pat_completeness auto

termination
  by (relation "measure (\<lambda>(rand, ranges, now, tried, peers, tries). 21 - tries)") auto

declare random_loop.simps [simp del]

text \<open>The loop of the other balancer; \<open>prev\<close> is the position of the first peer drawn.\<close>

function random2_loop ::
  "(nat \<Rightarrow> ngx_uint_t) \<Rightarrow> ngx_http_upstream_random_range_t list \<Rightarrow> int \<Rightarrow> 64 word list \<Rightarrow> ngx_http_upstream_rr_peers_t \<Rightarrow> nat option
     \<Rightarrow> nat \<Rightarrow> (nat option \<times> nat) option" where
  "random2_loop rand ranges now tried peers prev tries =
     (case ngx_http_upstream_peek_random_peer (rand tries) ranges peers of
        None \<Rightarrow> None
      | Some i \<Rightarrow>
          let p = rg_peer (ranges ! i); peer = rs_peer peers ! p;
              next = (\<lambda>prev. if Suc tries > 20 then Some (None, Suc tries)
                             else random2_loop rand ranges now tried peers prev (Suc tries))
          in if prev = Some p then next prev
             else if random_skip now tried i peer then next prev
             else
               (case prev of
                  Some q \<Rightarrow>
                    if lc_load peer (rs_peer peers ! q) > lc_load (rs_peer peers ! q) peer then Some (Some q, tries) else Some (Some i, tries)
                | None \<Rightarrow> next (Some p)))"
  by pat_completeness auto

termination
  by (relation "measure (\<lambda>(rand, ranges, now, tried, peers, prev, tries). 21 - tries)") auto

declare random2_loop.simps [simp del]

text \<open>Both functions around their loops; \<open>rr\<close> is the module's round robin. The directive allows no backup servers,
  so the list is that of the ranges, and range \<open>i\<close> belongs to peer \<open>i\<close>. \<open>None\<close>: there are no ranges.\<close>

definition random_around ::
  "(rr_pc \<Rightarrow> ngx_http_upstream_rr_peer_data_t \<Rightarrow> rr_upstream
      \<Rightarrow> (ngx_rc \<times> rr_pc \<times> ngx_http_upstream_rr_peer_data_t \<times> rr_upstream) option)
     \<Rightarrow> (ngx_http_upstream_random_range_t list \<Rightarrow> 64 word list \<Rightarrow> ngx_http_upstream_rr_peers_t \<Rightarrow> nat \<Rightarrow> (nat option \<times> nat) option)
     \<Rightarrow> int \<Rightarrow> ngx_http_upstream_random_srv_conf_t \<Rightarrow> rr_pc \<Rightarrow> ngx_http_upstream_random_peer_data_t \<Rightarrow> rr_upstream
     \<Rightarrow> (ngx_rc \<times> rr_pc \<times> ngx_http_upstream_random_peer_data_t \<times> rr_upstream) option" where
  "random_around rr loop now rcf pc rp up =
     (let rrp = rd_rrp rp;
          get_rr_peer = (\<lambda>pc rp. map_option (\<lambda>(rc, pc, rrp, up). (rc, pc, rp\<lparr>rd_rrp := rrp\<rparr>, up)) (rr pc rrp up))
      in case rr_peers rrp up of
           None \<Rightarrow> None
         | Some g \<Rightarrow>
             if rd_tries rp > 20 \<or> rs_single g then get_rr_peer pc rp
             else
               let pc = pc\<lparr>pc_cached := False\<rparr>
               in (case rc_ranges rcf of
                     None \<Rightarrow> None
                   | Some ranges \<Rightarrow>
                       (case loop ranges (rrp_tried rrp) g (rd_tries rp) of
                          None \<Rightarrow> None
                        | Some (None, tries) \<Rightarrow> get_rr_peer pc (rp\<lparr>rd_tries := tries\<rparr>)
                        | Some (Some i, tries) \<Rightarrow>
                            (case hash_found now g i pc rrp up of
                               (pc, rrp, up) \<Rightarrow> Some (NGX_OK, pc, rp\<lparr>rd_rrp := rrp, rd_tries := tries\<rparr>, up)))))"

definition ngx_http_upstream_get_random_peer ::
  "(nat \<Rightarrow> ngx_uint_t) \<Rightarrow> int \<Rightarrow> (ngx_uint_t \<Rightarrow> bool) \<Rightarrow> ngx_http_upstream_random_srv_conf_t \<Rightarrow> rr_pc
     \<Rightarrow> ngx_http_upstream_random_peer_data_t \<Rightarrow> rr_upstream
     \<Rightarrow> (ngx_rc \<times> rr_pc \<times> ngx_http_upstream_random_peer_data_t \<times> rr_upstream) option" where
  "ngx_http_upstream_get_random_peer rand now check_down rcf pc rp up =
     random_around (ngx_http_upstream_get_round_robin_peer now check_down)
       (\<lambda>ranges tried g tries. random_loop rand ranges now tried g tries) now rcf pc rp up"

definition ngx_stream_upstream_get_random_peer ::
  "(nat \<Rightarrow> ngx_uint_t) \<Rightarrow> int \<Rightarrow> (ngx_uint_t \<Rightarrow> bool) \<Rightarrow> ngx_http_upstream_random_srv_conf_t \<Rightarrow> rr_pc
     \<Rightarrow> ngx_http_upstream_random_peer_data_t \<Rightarrow> rr_upstream
     \<Rightarrow> (ngx_rc \<times> rr_pc \<times> ngx_http_upstream_random_peer_data_t \<times> rr_upstream) option" where
  "ngx_stream_upstream_get_random_peer rand now check_down rcf pc rp up =
     random_around (ngx_stream_upstream_get_round_robin_peer now check_down)
       (\<lambda>ranges tried g tries. random_loop rand ranges now tried g tries) now rcf pc rp up"

definition ngx_http_upstream_get_random2_peer ::
  "(nat \<Rightarrow> ngx_uint_t) \<Rightarrow> int \<Rightarrow> (ngx_uint_t \<Rightarrow> bool) \<Rightarrow> ngx_http_upstream_random_srv_conf_t \<Rightarrow> rr_pc
     \<Rightarrow> ngx_http_upstream_random_peer_data_t \<Rightarrow> rr_upstream
     \<Rightarrow> (ngx_rc \<times> rr_pc \<times> ngx_http_upstream_random_peer_data_t \<times> rr_upstream) option" where
  "ngx_http_upstream_get_random2_peer rand now check_down rcf pc rp up =
     random_around (ngx_http_upstream_get_round_robin_peer now check_down)
       (\<lambda>ranges tried g tries. random2_loop rand ranges now tried g None tries) now rcf pc rp up"

definition ngx_stream_upstream_get_random2_peer ::
  "(nat \<Rightarrow> ngx_uint_t) \<Rightarrow> int \<Rightarrow> (ngx_uint_t \<Rightarrow> bool) \<Rightarrow> ngx_http_upstream_random_srv_conf_t \<Rightarrow> rr_pc
     \<Rightarrow> ngx_http_upstream_random_peer_data_t \<Rightarrow> rr_upstream
     \<Rightarrow> (ngx_rc \<times> rr_pc \<times> ngx_http_upstream_random_peer_data_t \<times> rr_upstream) option" where
  "ngx_stream_upstream_get_random2_peer rand now check_down rcf pc rp up =
     random_around (ngx_stream_upstream_get_round_robin_peer now check_down)
       (\<lambda>ranges tried g tries. random2_loop rand ranges now tried g None tries) now rcf pc rp up"

subsection \<open>Draws by weight\<close>

lemma random_ranges_nth:
  "length (random_ranges i t ps) = length ps"
  "k < length ps \<Longrightarrow> random_ranges i t ps ! k = \<lparr>rg_peer = i + k, rg_range = t + of_int (sum_list (map rp_weight (take k ps)))\<rparr>"
proof -
  show "length (random_ranges i t ps) = length ps" by (induction ps arbitrary: i t) simp_all
  show "k < length ps \<Longrightarrow> random_ranges i t ps ! k = \<lparr>rg_peer = i + k, rg_range = t + of_int (sum_list (map rp_weight (take k ps)))\<rparr>"
    by (induction ps arbitrary: i t k) (auto simp: nth_Cons' take_Cons' algebra_simps)
qed

lemma random_search_bounds:
  assumes "i < j" "rg_range (ranges ! i) \<le> x" "j < n \<longrightarrow> x < rg_range (ranges ! j)" "j \<le> n"
  defines "r \<equiv> random_search ranges x i j"
  shows "r < n \<and> rg_range (ranges ! r) \<le> x \<and> (Suc r < n \<longrightarrow> x < rg_range (ranges ! Suc r))"
  using assms(1-4) unfolding r_def
proof (induction ranges x i j rule: random_search.induct)
  case (1 ranges x i j)
  show ?case
  proof (cases "j - i > 1")
    case False
    then have e: "random_search ranges x i j = i" "j = Suc i" using "1.prems"(1) by (simp_all add: random_search.simps [of ranges x i j])
    with "1.prems" show ?thesis by simp
  next
    case True
    define k where "k = (i + j) div 2"
    have k: "i < k" "k < j" using True by (auto simp: k_def)
    have e: "random_search ranges x i j = (if x < rg_range (ranges ! k) then random_search ranges x i k else random_search ranges x k j)"
      unfolding random_search.simps [of ranges x i j] k_def Let_def using True by (simp only: if_True)
    show ?thesis
    proof (cases "x < rg_range (ranges ! k)")
      case lt: True
      have "k \<le> n" using k(2) "1.prems"(4) by simp
      with "1.IH"(1) [OF True k_def lt k(1) "1.prems"(2)] lt show ?thesis unfolding e by simp
    next
      case ge: False
      then have "rg_range (ranges ! k) \<le> x" by simp
      with "1.IH"(2) [OF True k_def ge k(2)] "1.prems"(3,4) ge show ?thesis unfolding e by simp
    qed
  qed
qed

lemma partial_weights_nonneg:
  assumes "\<forall>p \<in> set ps. 0 \<le> rp_weight p"
  shows "0 \<le> sum_list (map rp_weight (take k ps))" "0 \<le> sum_list (map rp_weight (drop k ps))"
proof -
  have "0 \<le> rp_weight p" if "p \<in> set (take k ps)" for p using assms in_set_takeD [OF that] by blast
  then show "0 \<le> sum_list (map rp_weight (take k ps))" by (intro sum_list_nonneg) (simp add: image_iff, blast)
  have "0 \<le> rp_weight p" if "p \<in> set (drop k ps)" for p using assms in_set_dropD [OF that] by blast
  then show "0 \<le> sum_list (map rp_weight (drop k ps))" by (intro sum_list_nonneg) (simp add: image_iff, blast)
qed

lemma uint_partial_weight:
  assumes "hash_ready g" "k \<le> length (rs_peer g)"
  shows "uint (of_int (sum_list (map rp_weight (take k (rs_peer g)))) :: 64 word) = sum_list (map rp_weight (take k (rs_peer g)))"
proof -
  let ?s = "sum_list (map rp_weight (take k (rs_peer g)))" and ?t = "sum_list (map rp_weight (rs_peer g))"
  from assms(1) have t: "?t < 2 ^ 63" and n: "\<forall>p \<in> set (rs_peer g). 0 \<le> rp_weight p" by (simp_all add: hash_ready_def Let_def)
  have "?t = ?s + sum_list (map rp_weight (drop k (rs_peer g)))"
    by (metis append_take_drop_id map_append sum_list_append)
  moreover note partial_weights_nonneg [OF n, of k]
  ultimately have "0 \<le> ?s" "?s < 2 ^ 63" using t by linarith+
  then show ?thesis unfolding uint_word_of_int_eq by (simp add: take_bit_int_eq_self)
qed

text \<open>The search is the walk over the weights.\<close>

lemma peek_walk:
  assumes "hash_ready g" "rr_shape g"
  shows "ngx_http_upstream_peek_random_peer r (random_ranges 0 0 (rs_peer g)) g = hash_walk (uint r mod uint (rs_total_weight g)) (rs_peer g)"
proof -
  let ?ps = "rs_peer g" and ?R = "random_ranges 0 0 (rs_peer g)" and ?x = "r mod rs_total_weight g"
  let ?s = "\<lambda>k. sum_list (map rp_weight (take k ?ps))"
  from assms(1) have w: "\<forall>p \<in> set ?ps. 0 \<le> rp_weight p" "rs_total_weight g = of_int (?s (length ?ps))" "0 < ?s (length ?ps)"
    by (simp_all add: hash_ready_def Let_def)
  have u: "uint (rs_total_weight g) = ?s (length ?ps)" unfolding w(2) by (rule uint_partial_weight [OF assms(1)]) simp
  have n: "rs_number g = length ?ps" "0 < length ?ps" using assms(2) w(3) by (auto simp: rr_shape_def)
  have r: "uint (rg_range (?R ! k)) = ?s k" if "k < length ?ps" for k
    using uint_partial_weight [OF assms(1), of k] that by (simp add: random_ranges_nth)
  have x: "uint ?x = uint r mod uint (rs_total_weight g)" by (rule uint_mod)
  have z: "rs_total_weight g \<noteq> 0" using u w(3) by auto
  let ?i = "random_search ?R ?x 0 (length ?ps)"
  have "rg_range (?R ! 0) \<le> ?x" using n(2) by (simp add: random_ranges_nth)
  from random_search_bounds [OF n(2) this, of "length ?ps"]
  have b: "?i < length ?ps" "rg_range (?R ! ?i) \<le> ?x" "Suc ?i < length ?ps \<longrightarrow> ?x < rg_range (?R ! Suc ?i)" by auto
  have "?s ?i \<le> uint ?x" using b(1,2) r by (simp add: word_le_def)
  moreover have "uint ?x < ?s (Suc ?i)"
  proof (cases "Suc ?i < length ?ps")
    case True
    with b(3) r show ?thesis by (simp add: word_less_def)
  next
    case False
    with b(1) have "Suc ?i = length ?ps" by simp
    then show ?thesis using x u w(3) by (metis pos_mod_bound)
  qed
  moreover have "0 \<le> uint ?x" by simp
  ultimately have "hash_walk (uint ?x) ?ps = Some ?i" using hash_walk_Some [OF _ w(1), of "uint ?x" ?i] b(1) by blast
  then show ?thesis using z n(1) x by (simp add: ngx_http_upstream_peek_random_peer_def)
qed

text \<open>C16: Draws are by weight. Among the numbers below the total weight, those that draw a peer are as many as its
  weight.\<close>

theorem random_draws_by_weight:
  assumes "hash_ready g" "rr_shape g" "i < length (rs_peer g)"
  shows "int (card {r. r < rs_total_weight g \<and> ngx_http_upstream_peek_random_peer r (random_ranges 0 0 (rs_peer g)) g = Some i})
    = rp_weight (rs_peer g ! i)"
proof -
  let ?ps = "rs_peer g" and ?s = "\<lambda>k. sum_list (map rp_weight (take k (rs_peer g)))"
  let ?D = "{r. r < rs_total_weight g \<and> ngx_http_upstream_peek_random_peer r (random_ranges 0 0 ?ps) g = Some i}"
  from assms(1) have w: "\<forall>p \<in> set ?ps. 0 \<le> rp_weight p" "rs_total_weight g = of_int (?s (length ?ps))"
    by (simp_all add: hash_ready_def Let_def)
  have u: "uint (rs_total_weight g) = ?s (length ?ps)" unfolding w(2) by (rule uint_partial_weight [OF assms(1)]) simp
  have d: "?s (Suc i) = ?s i + rp_weight (?ps ! i)" using assms(3) by (simp add: take_Suc_conv_app_nth)
  have "?s (length ?ps) = ?s (Suc i) + sum_list (map rp_weight (drop (Suc i) ?ps))"
    by (metis append_take_drop_id map_append order_refl sum_list_append take_all)
  moreover have "0 \<le> rp_weight (?ps ! i)" using w(1) assms(3) by simp
  moreover note partial_weights_nonneg [OF w(1), of "Suc i"] partial_weights_nonneg [OF w(1), of i]
  ultimately have s: "?s (Suc i) \<le> uint (rs_total_weight g)" "0 \<le> ?s i" "?s i \<le> ?s (Suc i)" using u d by simp_all
  have e: "r \<in> ?D \<longleftrightarrow> uint r \<in> {?s i ..< ?s (Suc i)}" for r
    using s assms(3) hash_walk_Some [OF uint_ge_0 w(1), of r i] by (auto simp: peek_walk [OF assms(1,2)] word_less_def)
  have "uint ` ?D = {?s i ..< ?s (Suc i)}"
  proof (intro equalityI subsetI)
    fix x assume x: "x \<in> {?s i ..< ?s (Suc i)}"
    then have "0 \<le> x" "x < 2 ^ 64" using s uint_lt2p [of "rs_total_weight g"] by auto
    then have "uint (of_int x :: 64 word) = x" unfolding uint_word_of_int_eq by (simp add: take_bit_int_eq_self)
    with x e [of "of_int x"] show "x \<in> uint ` ?D" by (intro image_eqI [of _ _ "of_int x"]) simp_all
  qed (use e in blast)
  moreover have "inj_on uint ?D" by (rule inj_onI) (rule word_uint_eqI)
  ultimately have "card ?D = card {?s i ..< ?s (Suc i)}" using card_image [of uint ?D] by simp
  with s d show ?thesis by simp
qed

subsection \<open>What a request gets\<close>

lemma peek_Some:
  assumes "hash_ready g" "rr_shape g"
  shows "\<exists>i < length (rs_peer g). ngx_http_upstream_peek_random_peer r (random_ranges 0 0 (rs_peer g)) g = Some i
    \<and> rg_peer (random_ranges 0 0 (rs_peer g) ! i) = i"
proof -
  have t: "0 < sum_list (map rp_weight (rs_peer g))" "rs_total_weight g = of_int (sum_list (map rp_weight (rs_peer g)))"
    using assms(1) by (simp_all add: hash_ready_def Let_def)
  have "uint (rs_total_weight g) = sum_list (map rp_weight (rs_peer g))"
    unfolding t(2) using uint_partial_weight [OF assms(1), of "length (rs_peer g)"] by simp
  with t(1) have "0 \<le> uint r mod uint (rs_total_weight g)" "uint r mod uint (rs_total_weight g) < sum_list (map rp_weight (rs_peer g))"
    by simp_all
  from hash_walk_total [OF this] show ?thesis by (auto simp: peek_walk [OF assms] random_ranges_nth)
qed

lemma random_skip_usable: "\<not> random_skip now tried i p \<longleftrightarrow> \<not> rr_tried tried i \<and> rr_usable now (\<lambda>_. False) p"
  by (auto simp: random_skip_def rr_usable_def)

text \<open>What both loops promise: they end, and a peer they take was not tried and can take the request, the checks apart.\<close>

definition random_sound :: "int \<Rightarrow> 64 word list \<Rightarrow> ngx_http_upstream_rr_peers_t \<Rightarrow> (nat option \<times> nat) option \<Rightarrow> bool" where
  "random_sound now tried g r \<longleftrightarrow>
     (\<exists>x t. r = Some (x, t) \<and> (\<forall>i. x = Some i \<longrightarrow> i < length (rs_peer g) \<and> \<not> random_skip now tried i (rs_peer g ! i)))"

lemma random_loop_sound:
  assumes "hash_ready g" "rr_shape g"
  shows "random_sound now tried g (random_loop rand (random_ranges 0 0 (rs_peer g)) now tried g tries)"
proof (induction "21 - tries" arbitrary: tries rule: less_induct)
  case less
  let ?R = "random_ranges 0 0 (rs_peer g)"
  obtain i where i: "i < length (rs_peer g)" "ngx_http_upstream_peek_random_peer (rand tries) ?R g = Some i" "rg_peer (?R ! i) = i"
    using peek_Some [OF assms] by blast
  note e = random_loop.simps [of rand ?R now tried g tries]
  show ?case
  proof (cases "random_skip now tried i (rs_peer g ! i) \<and> \<not> Suc tries > 20")
    case True
    then have "21 - Suc tries < 21 - tries" by linarith
    from less [OF this] True i show ?thesis by (simp add: e Let_def)
  next
    case False
    with i show ?thesis by (auto simp: e Let_def random_sound_def)
  qed
qed

lemma random2_loop_sound:
  assumes "hash_ready g" "rr_shape g" "\<forall>q. prev = Some q \<longrightarrow> q < length (rs_peer g) \<and> \<not> random_skip now tried q (rs_peer g ! q)"
  shows "random_sound now tried g (random2_loop rand (random_ranges 0 0 (rs_peer g)) now tried g prev tries)"
  using assms(3)
proof (induction "21 - tries" arbitrary: tries prev rule: less_induct)
  case less
  let ?R = "random_ranges 0 0 (rs_peer g)"
  obtain i where i: "i < length (rs_peer g)" "ngx_http_upstream_peek_random_peer (rand tries) ?R g = Some i" "rg_peer (?R ! i) = i"
    using peek_Some [OF assms(1,2)] by blast
  let ?next = "\<lambda>prev. if Suc tries > 20 then Some (None, Suc tries) else random2_loop rand ?R now tried g prev (Suc tries)"
  have e: "random2_loop rand ?R now tried g prev tries =
      (if prev = Some i then ?next prev
       else if random_skip now tried i (rs_peer g ! i) then ?next prev
       else (case prev of
               Some q \<Rightarrow> if lc_load (rs_peer g ! i) (rs_peer g ! q) > lc_load (rs_peer g ! q) (rs_peer g ! i) then Some (Some q, tries)
                          else Some (Some i, tries)
             | None \<Rightarrow> ?next (Some i)))"
    unfolding random2_loop.simps [of rand ?R now tried g prev tries] by (simp only: i(2,3) option.case Let_def)
  have n: "random_sound now tried g (?next q)" if "\<forall>k. q = Some k \<longrightarrow> k < length (rs_peer g) \<and> \<not> random_skip now tried k (rs_peer g ! k)" for q
  proof (cases "Suc tries > 20")
    case False
    then have "21 - Suc tries < 21 - tries" by linarith
    from less.hyps [OF this that] False show ?thesis by simp
  qed (simp add: random_sound_def)
  show ?case
    unfolding e using n [of prev] n [of "Some i"] less.prems i(1) by (auto simp: random_sound_def split: option.splits)
qed

lemma random_around_found:
  assumes "\<not> rrp_next (rd_rrp rp)" "\<not> rd_tries rp > 20" "\<not> rs_single (ru_peers up)" "rc_ranges rcf = Some ranges"
    and "loop ranges (rrp_tried (rd_rrp rp)) (ru_peers up) (rd_tries rp) = Some (Some i, tries)"
  shows "\<exists>pc' rp' up'. random_around rr loop now rcf pc rp up = Some (NGX_OK, pc', rp', up') \<and> rrp_current (rd_rrp rp') = Some (False, i)
    \<and> pc_sockaddr pc' = a_sockaddr (rp_addr (rr_list False up ! i))"
  using assms by (simp add: random_around_def rr_peers_def hash_found_def rr_found_def rr_list_def Let_def)

text \<open>C15: The random balancers hand out peers that the health checks hold for down. Whatever the checks say, a peer that is
  drawn at the first try gets the request in both modules, if it was not tried, is not switched off, has not failed too often
  and has a connection left.\<close>

theorem random_ignores_checks:
  assumes "\<not> rrp_next (rd_rrp rp)" "\<not> rd_tries rp > 20" "\<not> rs_single (ru_peers up)" "rr_shaped up" "hash_ready (ru_peers up)"
    and "rc_ranges rcf = Some (random_ranges 0 0 (rr_list False up))"
    and "ngx_http_upstream_peek_random_peer (rand (rd_tries rp)) (random_ranges 0 0 (rr_list False up)) (ru_peers up) = Some i"
    and "\<not> rr_tried (rrp_tried (rd_rrp rp)) i" "rr_usable now (\<lambda>_. False) (rr_list False up ! i)"
    and "f = ngx_http_upstream_get_random_peer \<or> f = ngx_stream_upstream_get_random_peer"
  shows "\<exists>pc' rp' up'. f rand now check_down rcf pc rp up = Some (NGX_OK, pc', rp', up') \<and> rrp_current (rd_rrp rp') = Some (False, i)
    \<and> pc_sockaddr pc' = a_sockaddr (rp_addr (rr_list False up ! i))"
proof -
  let ?g = "ru_peers up"
  have l: "rr_list False up = rs_peer ?g" by (simp add: rr_list_def)
  have "rr_shape ?g" using assms(4) by (simp add: rr_shaped_def)
  from peek_Some [OF assms(5) this, of "rand (rd_tries rp)"] assms(7) have p: "rg_peer (random_ranges 0 0 (rs_peer ?g) ! i) = i" by (auto simp: l)
  have "random_loop rand (random_ranges 0 0 (rs_peer ?g)) now (rrp_tried (rd_rrp rp)) ?g (rd_tries rp) = Some (Some i, rd_tries rp)"
    unfolding random_loop.simps [of rand "random_ranges 0 0 (rs_peer ?g)" now "rrp_tried (rd_rrp rp)" ?g "rd_tries rp"]
    using assms(7-9) p random_skip_usable [of now "rrp_tried (rd_rrp rp)" i "rs_peer ?g ! i"] by (simp add: l Let_def)
  from random_around_found [OF assms(1-3,6), of "\<lambda>ranges tried g tries. random_loop rand ranges now tried g tries"] this assms(10)
  show ?thesis unfolding l by (auto simp: ngx_http_upstream_get_random_peer_def ngx_stream_upstream_get_random_peer_def)
qed

lemma random_sound_returns:
  assumes "\<not> rrp_next (rd_rrp rp)" "rr_shaped up" "hash_ready (ru_peers up)" "rc_ranges rcf = Some ranges"
    and l: "random_sound now (rrp_tried (rd_rrp rp)) (ru_peers up) (loop ranges (rrp_tried (rd_rrp rp)) (ru_peers up) (rd_tries rp))"
    and rr: "\<And>pc. \<exists>rc pc' rrp' up'. rr pc (rd_rrp rp) up = Some (rc, pc', rrp', up') \<and> hash_outcome now cd (rd_rrp rp) up rc pc' rrp' up'"
  shows "\<exists>rc pc' rp' up'. random_around rr loop now rcf pc rp up = Some (rc, pc', rp', up')
    \<and> (hash_outcome now cd (rd_rrp rp) up rc pc' (rd_rrp rp') up' \<or> hash_outcome now (\<lambda>_. False) (rd_rrp rp) up rc pc' (rd_rrp rp') up')"
proof -
  let ?G = "random_around rr loop now rcf pc rp up" and ?pc = "pc\<lparr>pc_cached := False\<rparr>"
  have g: "rr_peers (rd_rrp rp) up = Some (ru_peers up)" using assms(1) by (simp add: rr_peers_def)
  from l obtain x t where x: "loop ranges (rrp_tried (rd_rrp rp)) (ru_peers up) (rd_tries rp) = Some (x, t)"
    "\<And>i. x = Some i \<Longrightarrow> i < length (rs_peer (ru_peers up)) \<and> \<not> random_skip now (rrp_tried (rd_rrp rp)) i (rs_peer (ru_peers up) ! i)"
    by (auto simp: random_sound_def)
  show ?thesis
  proof (cases "rd_tries rp > 20 \<or> rs_single (ru_peers up)")
    case True
    with g have "?G = map_option (\<lambda>(rc, pc, rrp, up). (rc, pc, rp\<lparr>rd_rrp := rrp\<rparr>, up)) (rr pc (rd_rrp rp) up)"
      by (simp add: random_around_def Let_def)
    with rr [of pc] show ?thesis by auto
  next
    case False
    show ?thesis
    proof (cases x)
      case None
      with x(1) g False assms(4) have "?G = map_option (\<lambda>(rc, pc, rrp, up). (rc, pc, rp\<lparr>rd_tries := t, rd_rrp := rrp\<rparr>, up)) (rr ?pc (rd_rrp rp) up)"
        by (simp add: random_around_def Let_def)
      with rr [of ?pc] show ?thesis by auto
    next
      case (Some i)
      note s = x(2) [OF Some, unfolded random_skip_usable]
      obtain pc' rrp' up' where f: "hash_found now (ru_peers up) i ?pc (rd_rrp rp) up = (pc', rrp', up')" by (rule prod_cases3)
      from hash_found_got [OF g assms(2) _ _ _ f, of "\<lambda>_. False"] s have "hash_outcome now (\<lambda>_. False) (rd_rrp rp) up NGX_OK pc' rrp' up'"
        by (auto simp: hash_outcome_def rr_found_def)
      with x(1) g False assms(4) Some f show ?thesis by (simp add: random_around_def Let_def)
    qed
  qed
qed

lemma random_balancers_return:
  assumes "\<not> rrp_next (rd_rrp rp)" "rr_shaped up" "hash_ready (ru_peers up)" "rc_ranges rcf = Some (random_ranges 0 0 (rr_list False up))"
    and "f \<in> {ngx_http_upstream_get_random_peer, ngx_stream_upstream_get_random_peer,
      ngx_http_upstream_get_random2_peer, ngx_stream_upstream_get_random2_peer}"
  shows "\<exists>rc pc' rp' up'. f rand now cd rcf pc rp up = Some (rc, pc', rp', up')
    \<and> (hash_outcome now cd (rd_rrp rp) up rc pc' (rd_rrp rp') up' \<or> hash_outcome now (\<lambda>_. False) (rd_rrp rp) up rc pc' (rd_rrp rp') up')"
proof -
  have l: "rr_list False up = rs_peer (ru_peers up)" by (simp add: rr_list_def)
  have s: "rr_shape (ru_peers up)" using assms(2) by (simp add: rr_shaped_def)
  note a = random_sound_returns [OF assms(1-3) assms(4) [unfolded l]]
  note a1 = a [where loop = "\<lambda>ranges tried g tries. random_loop rand ranges now tried g tries", OF random_loop_sound [OF assms(3) s]]
  have "\<forall>q. None = Some q \<longrightarrow> q < length (rs_peer (ru_peers up)) \<and> \<not> random_skip now (rrp_tried (rd_rrp rp)) q (rs_peer (ru_peers up) ! q)"
    by simp
  note a2 = a [where loop = "\<lambda>ranges tried g tries. random2_loop rand ranges now tried g None tries",
      OF random2_loop_sound [OF assms(3) s this]]
  note rr = rr_outcome [OF assms(1,2), of now cd]
  from assms(5) show ?thesis
    using a1 [where rr = "ngx_http_upstream_get_round_robin_peer now cd" and cd = cd, OF rr(1), of pc]
      a1 [where rr = "ngx_stream_upstream_get_round_robin_peer now cd" and cd = cd, OF rr(2), of pc]
      a2 [where rr = "ngx_http_upstream_get_round_robin_peer now cd" and cd = cd, OF rr(1), of pc]
      a2 [where rr = "ngx_stream_upstream_get_round_robin_peer now cd" and cd = cd, OF rr(2), of pc]
    unfolding ngx_http_upstream_get_random_peer_def ngx_stream_upstream_get_random_peer_def
      ngx_http_upstream_get_random2_peer_def ngx_stream_upstream_get_random2_peer_def by auto
qed

subsection \<open>Samples\<close>

definition sample_random :: ngx_http_upstream_random_srv_conf_t where
  "sample_random = \<lparr>rc_two = False, rc_ranges = Some (random_ranges 0 0 (rr_list False sample_hashed))\<rparr>"

lemma random_draws_by_weight_witness:
  "int (card {r. r < rs_total_weight (ru_peers sample_hashed)
      \<and> ngx_http_upstream_peek_random_peer r (random_ranges 0 0 (rs_peer (ru_peers sample_hashed))) (ru_peers sample_hashed) = Some 1}) = 1"
proof -
  have "rr_shape (ru_peers sample_hashed)" "1 < length (rs_peer (ru_peers sample_hashed))" "rp_weight (rs_peer (ru_peers sample_hashed) ! 1) = 1"
    by (simp_all add: rr_shape_def sample_hashed_def rr_server_peer_def sample_sv_def)
  with random_draws_by_weight [OF sample_hashed_facts(2), of 1] show ?thesis by simp
qed

lemma random_ignores_checks_witness:
  "\<exists>pc' rp' up'. ngx_http_upstream_get_random_peer (\<lambda>_. 6) 100 (\<lambda>_. True) sample_random sample_pc \<lparr>rd_rrp = sample_rrp, rd_tries = 0\<rparr> sample_hashed
     = Some (NGX_OK, pc', rp', up') \<and> pc_sockaddr pc' = a_sockaddr sample_server"
proof -
  let ?rp = "\<lparr>rd_rrp = sample_rrp, rd_tries = 0\<rparr>" and ?R = "random_ranges 0 0 (rr_list False sample_hashed)"
  have l: "rr_list False sample_hashed = rs_peer (ru_peers sample_hashed)" by (simp add: rr_list_def)
  have "uint (6 :: 64 word) mod uint (rs_total_weight (ru_peers sample_hashed)) = 0" by (simp add: sample_hashed_def)
  moreover have s: "rr_shape (ru_peers sample_hashed)" using sample_hashed_facts(1) by (simp add: rr_shaped_def)
  moreover have "hash_walk 0 (rs_peer (ru_peers sample_hashed)) = Some 0" by (simp add: sample_hashed_def rr_server_peer_def sample_sv_def)
  ultimately have p: "ngx_http_upstream_peek_random_peer ((\<lambda>_. 6) (rd_tries ?rp)) ?R (ru_peers sample_hashed) = Some 0"
    unfolding l by (simp add: peek_walk [OF sample_hashed_facts(2) s])
  have u: "\<not> rrp_next (rd_rrp ?rp)" "\<not> rd_tries ?rp > 20" "\<not> rs_single (ru_peers sample_hashed)" "rc_ranges sample_random = Some ?R"
    "\<not> rr_tried (rrp_tried (rd_rrp ?rp)) 0" "rr_usable 100 (\<lambda>_. False) (rr_list False sample_hashed ! 0)"
    "rp_addr (rr_list False sample_hashed ! 0) = sample_server"
    by (simp_all add: sample_rrp_def sample_random_def rr_tried_def l) (simp_all add: sample_hashed_def rr_usable_def rr_server_peer_def sample_sv_def)
  from random_ignores_checks [OF u(1-3) sample_hashed_facts(1,2) u(4) p u(5,6) disjI1 [OF refl], of "\<lambda>_. True" sample_pc] u(7)
  show ?thesis by auto
qed

end
