(* ===== verification/Check_Status.thy ===== *)
theory Check_Status
  imports Check_Shm
begin

text \<open>
  The status pages: the two handlers that print the slots of the checked peers
  (\<open>ngx_upstream_check_status_handler\<close> of \<open>ngx_healthcheck_status.c\<close> and
  \<open>ngx_http_upstream_check_status_handler\<close> of \<open>ngx_http_upstream_check_module.c\<close>), their
  directives, the query arguments \<open>format\<close> and \<open>status\<close>, and the html, csv, json and prometheus
  texts.
  A page is the list of the texts its calls of \<open>ngx_snprintf\<close> print, one element per call; printing
  them into the buffer of the reply cuts them off at its end.
\<close>

subsection \<open>Query arguments\<close>

text \<open>\<open>ngx_strlcasestrn\<close>: positions in the searched bytes; \<open>lst\<close>, the \<open>last\<close> of the code, is already moved back by \<open>n\<close>.\<close>

function strlcasestrn_loop :: "string \<Rightarrow> nat \<Rightarrow> nat \<Rightarrow> string \<Rightarrow> nat \<Rightarrow> nat option" where
  "strlcasestrn_loop buf s1 lst s2 n =
     (if s1 \<ge> lst then None
      else if c_lower (c_hd (drop s1 buf)) = c_lower (c_hd s2)
              \<and> ngx_strncasecmp (drop (Suc s1) buf) (tl s2) n = 0
      then Some s1
      else strlcasestrn_loop buf (Suc s1) lst s2 n)"
  by pat_completeness auto
termination
  by (relation "measure (\<lambda>(buf, s1, lst, s2, n). lst - s1)") auto

declare strlcasestrn_loop.simps [simp del]

definition ngx_strlcasestrn :: "string \<Rightarrow> nat \<Rightarrow> nat \<Rightarrow> string \<Rightarrow> nat \<Rightarrow> nat option" where
  "ngx_strlcasestrn buf s1 lst s2 n = strlcasestrn_loop buf s1 (lst - n) s2 n"

lemma strlcasestrn_loop_Some:
  "strlcasestrn_loop buf s1 lst s2 n = Some q \<Longrightarrow> s1 \<le> q \<and> q < lst"
proof (induction buf s1 lst s2 n rule: strlcasestrn_loop.induct)
  case (1 buf s1 lst s2 n)
  then show ?case
    by (subst (asm) (2) strlcasestrn_loop.simps) (auto split: if_splits)
qed

text \<open>The value of the first argument of that name; \<open>None\<close> is \<open>NGX_DECLINED\<close>.\<close>

function http_arg_loop :: "string \<Rightarrow> string \<Rightarrow> nat \<Rightarrow> string option" where
  "http_arg_loop args name p =
     (if p \<ge> length args then None
      else case ngx_strlcasestrn args p (length args - 1) name (length name - 1) of
        None \<Rightarrow> None
      | Some q \<Rightarrow>
          if (q = 0 \<or> args ! (q - 1) = CHR ''&'') \<and> args ! (q + length name) = CHR ''=''
          then let v = q + length name + 1;
                   e = (case ngx_strlchr (drop q args) CHR ''&'' of
                          None \<Rightarrow> length args
                        | Some k \<Rightarrow> q + k)
               in Some (take (e - v) (drop v args))
          else http_arg_loop args name (Suc q))"
  by pat_completeness auto
termination
  by (relation "measure (\<lambda>(args, name, p). length args - p)")
    (auto simp: ngx_strlcasestrn_def dest: strlcasestrn_loop_Some)

declare http_arg_loop.simps [simp del]

definition ngx_http_arg :: "string \<Rightarrow> string \<Rightarrow> string option" where
  "ngx_http_arg args name = (if args = [] then None else http_arg_loop args name 0)"

subsection \<open>Formats\<close>

datatype status_format_pt =
  Http_Html_Format | Http_Csv_Format | Http_Json_Format
| Html_Format | Csv_Format | Json_Format | Prometheus_Format

record ngx_check_status_conf_t =
  st_format :: string
  st_content_type :: string
  st_output :: status_format_pt

definition ngx_http_check_status_formats :: "ngx_check_status_conf_t list" where
  "ngx_http_check_status_formats =
     [\<lparr>st_format = ''html'', st_content_type = ''text/html'', st_output = Http_Html_Format\<rparr>,
      \<lparr>st_format = ''csv'', st_content_type = ''text/plain'', st_output = Http_Csv_Format\<rparr>,
      \<lparr>st_format = ''json'', st_content_type = ''application/json'', st_output = Http_Json_Format\<rparr>]"

definition ngx_check_status_formats :: "ngx_check_status_conf_t list" where
  "ngx_check_status_formats =
     [\<lparr>st_format = ''html'', st_content_type = ''text/html'', st_output = Html_Format\<rparr>,
      \<lparr>st_format = ''csv'', st_content_type = ''text/plain'', st_output = Csv_Format\<rparr>,
      \<lparr>st_format = ''json'', st_content_type = ''application/json'', st_output = Json_Format\<rparr>,
      \<lparr>st_format = ''prometheus'', st_content_type = ''text/plain'', st_output = Prometheus_Format\<rparr>]"

fun find_status_format :: "ngx_check_status_conf_t list \<Rightarrow> string \<Rightarrow> ngx_check_status_conf_t option" where
  "find_status_format [] str = None"
| "find_status_format (f # fs) str =
     (if length str \<noteq> length (st_format f) then find_status_format fs str
      else if ngx_strncmp str (st_format f) (length str) = 0 then Some f
      else find_status_format fs str)"

definition ngx_http_get_check_status_format_conf :: "string \<Rightarrow> ngx_check_status_conf_t option" where
  "ngx_http_get_check_status_format_conf = find_status_format ngx_http_check_status_formats"

definition status_get_check_status_format_conf :: "string \<Rightarrow> ngx_check_status_conf_t option" where
  "status_get_check_status_format_conf = find_status_format ngx_check_status_formats"

subsection \<open>Directives and location configuration\<close>

text \<open>The location configuration is its \<open>format\<close> pointer. \<open>args\<close> are the tokens of the directive,
  its name first; the table function \<open>fmt\<close> is the module's. The result carries the new \<open>format\<close>
  and the content handler is installed on every path.\<close>

definition status_directive ::
  "(string \<Rightarrow> ngx_check_status_conf_t option) \<Rightarrow> string list \<Rightarrow> ngx_check_status_conf_t conf_ptr
    \<Rightarrow> conf_rc \<times> ngx_check_status_conf_t conf_ptr" where
  "status_directive fmt args uclcf =
     (if length args = 2
      then (case fmt (args ! 1) of
              None \<Rightarrow> (NGX_CONF_ERROR, Null_Ptr)
            | Some f \<Rightarrow> (NGX_CONF_OK, Ptr f))
      else (NGX_CONF_OK, uclcf))"

definition ngx_http_upstream_check_status ::
  "string list \<Rightarrow> ngx_check_status_conf_t conf_ptr \<Rightarrow> conf_rc \<times> ngx_check_status_conf_t conf_ptr" where
  "ngx_http_upstream_check_status = status_directive ngx_http_get_check_status_format_conf"

definition ngx_upstream_check_status ::
  "string list \<Rightarrow> ngx_check_status_conf_t conf_ptr \<Rightarrow> conf_rc \<times> ngx_check_status_conf_t conf_ptr" where
  "ngx_upstream_check_status = status_directive status_get_check_status_format_conf"

definition ngx_http_upstream_check_create_loc_conf ::
  "bool \<Rightarrow> ngx_check_status_conf_t conf_ptr option" where
  "ngx_http_upstream_check_create_loc_conf pcalloc_ok = (if pcalloc_ok then Some Unset_Ptr else None)"

definition ngx_upstream_check_create_loc_conf ::
  "bool \<Rightarrow> ngx_check_status_conf_t conf_ptr option" where
  "ngx_upstream_check_create_loc_conf pcalloc_ok = (if pcalloc_ok then Some Unset_Ptr else None)"

definition status_merge_loc_conf ::
  "(string \<Rightarrow> ngx_check_status_conf_t option) \<Rightarrow> ngx_check_status_conf_t conf_ptr
    \<Rightarrow> ngx_check_status_conf_t conf_ptr \<Rightarrow> ngx_check_status_conf_t conf_ptr" where
  "status_merge_loc_conf fmt prev conf =
     (if conf = Unset_Ptr
      then (if prev = Unset_Ptr
            then (case fmt ''html'' of None \<Rightarrow> Null_Ptr | Some f \<Rightarrow> Ptr f)
            else prev)
      else conf)"

definition ngx_http_upstream_check_merge_loc_conf ::
  "ngx_check_status_conf_t conf_ptr \<Rightarrow> ngx_check_status_conf_t conf_ptr
    \<Rightarrow> ngx_check_status_conf_t conf_ptr" where
  "ngx_http_upstream_check_merge_loc_conf = status_merge_loc_conf ngx_http_get_check_status_format_conf"

definition ngx_upstream_check_merge_loc_conf ::
  "ngx_check_status_conf_t conf_ptr \<Rightarrow> ngx_check_status_conf_t conf_ptr
    \<Rightarrow> ngx_check_status_conf_t conf_ptr" where
  "ngx_upstream_check_merge_loc_conf = status_merge_loc_conf status_get_check_status_format_conf"

subsection \<open>Arguments of a request\<close>

abbreviation (input) NGX_CHECK_STATUS_DOWN :: ngx_uint_t where "NGX_CHECK_STATUS_DOWN \<equiv> 0x0001"
abbreviation (input) NGX_CHECK_STATUS_UP :: ngx_uint_t where "NGX_CHECK_STATUS_UP \<equiv> 0x0002"

record status_ctx_t =
  sc_format :: "ngx_check_status_conf_t option"
  sc_flag :: ngx_uint_t

text \<open>A command returns whether its value is accepted, and the context.\<close>

definition status_command_format ::
  "(string \<Rightarrow> ngx_check_status_conf_t option) \<Rightarrow> status_ctx_t \<Rightarrow> string \<Rightarrow> bool \<times> status_ctx_t" where
  "status_command_format fmt ctx v = (fmt v \<noteq> None, ctx\<lparr>sc_format := fmt v\<rparr>)"

definition status_command_status :: "status_ctx_t \<Rightarrow> string \<Rightarrow> bool \<times> status_ctx_t" where
  "status_command_status ctx v =
     (if length v = 4 \<and> ngx_strncasecmp v ''down'' (length v) = 0
      then (True, ctx\<lparr>sc_flag := sc_flag ctx OR NGX_CHECK_STATUS_DOWN\<rparr>)
      else if length v = 2 \<and> ngx_strncasecmp v ''up'' (length v) = 0
      then (True, ctx\<lparr>sc_flag := sc_flag ctx OR NGX_CHECK_STATUS_UP\<rparr>)
      else (False, ctx))"

fun status_commands ::
  "string \<Rightarrow> (string \<times> (status_ctx_t \<Rightarrow> string \<Rightarrow> bool \<times> status_ctx_t)) list \<Rightarrow> status_ctx_t
    \<Rightarrow> status_ctx_t" where
  "status_commands args [] ctx = ctx"
| "status_commands args ((name, handler) # cs) ctx =
     (case ngx_http_arg args name of
        None \<Rightarrow> status_commands args cs ctx
      | Some v \<Rightarrow> status_commands args cs (snd (handler ctx v)))"

definition status_parse_args ::
  "(string \<Rightarrow> ngx_check_status_conf_t option) \<Rightarrow> string \<Rightarrow> status_ctx_t \<Rightarrow> status_ctx_t" where
  "status_parse_args fmt args ctx =
     (if args = [] then ctx
      else status_commands args
             [(''format'', status_command_format fmt), (''status'', status_command_status)] ctx)"

subsection \<open>Rows\<close>

type_synonym row_printer = "nat \<Rightarrow> nat \<Rightarrow> peer_slot \<Rightarrow> string option"

text \<open>The test at the head of every loop over the peers.\<close>

definition status_shown :: "ngx_uint_t \<Rightarrow> peer_slot \<Rightarrow> bool" where
  "status_shown flag ps =
     (if flag AND NGX_CHECK_STATUS_DOWN \<noteq> 0 then sh_down (snd ps) \<noteq> 0
      else if flag AND NGX_CHECK_STATUS_UP \<noteq> 0 then sh_down (snd ps) = 0
      else True)"

definition status_count :: "ngx_uint_t \<Rightarrow> peer_slot list \<Rightarrow> nat" where
  "status_count flag peers = length (filter (status_shown flag) peers)"

text \<open>The printing loop: \<open>i\<close> is the index, \<open>count\<close> the number of rows printed so far. Only the
  printed rows follow \<open>check_type_conf\<close>; the outcome is \<open>None\<close> where that is no pointer.\<close>

fun status_loop :: "row_printer \<Rightarrow> ngx_uint_t \<Rightarrow> nat \<Rightarrow> nat \<Rightarrow> peer_slot list \<Rightarrow> string list option" where
  "status_loop pr flag i count [] = Some []"
| "status_loop pr flag i count (ps # rest) =
     (if \<not> status_shown flag ps then status_loop pr flag (Suc i) count rest
      else case pr i (Suc count) ps of
        None \<Rightarrow> None
      | Some t \<Rightarrow> map_option ((#) t) (status_loop pr flag (Suc i) (Suc count) rest))"

definition status_type :: "peer_slot \<Rightarrow> string option" where
  "status_type ps =
     (case uc_check_type_conf (p_conf (fst ps)) of Ptr t \<Rightarrow> Some (ct_name t) | _ \<Rightarrow> None)"

definition status_word :: "peer_slot \<Rightarrow> string" where
  "status_word ps = (if sh_down (snd ps) \<noteq> 0 then ''down'' else ''up'')"

text \<open>The conversions of \<open>ngx_snprintf\<close> the rows use: \<open>%ui\<close>, \<open>%V\<close> of the two names.\<close>

abbreviation LF1 :: string where "LF1 \<equiv> [CHR 0x0A]"
abbreviation ui :: "ngx_uint_t \<Rightarrow> string" where "ui n \<equiv> ngx_sprintf_num (unat n)"
abbreviation row_upstream :: "peer_slot \<Rightarrow> string" where "row_upstream ps \<equiv> p_upstream_name (fst ps)"
abbreviation row_name :: "peer_slot \<Rightarrow> string" where "row_name ps \<equiv> a_name (p_peer_addr (fst ps))"
abbreviation row_rise :: "peer_slot \<Rightarrow> string" where "row_rise ps \<equiv> ui (sh_rise_count (snd ps))"
abbreviation row_fall :: "peer_slot \<Rightarrow> string" where "row_fall ps \<equiv> ui (sh_fall_count (snd ps))"
abbreviation row_port :: "peer_slot \<Rightarrow> string" where "row_port ps \<equiv> ui (uc_port (p_conf (fst ps)))"

definition html_td :: "string \<Rightarrow> string" where
  "html_td s = ''    <td>'' @ s @ ''</td>'' @ LF1"

definition html_row :: row_printer where
  "html_row i count ps = map_option (\<lambda>t.
     ''  <tr'' @ (if sh_down (snd ps) \<noteq> 0 then '' bgcolor=\"#FF0000\"'' else []) @ ''>'' @ LF1 @
     html_td (ngx_sprintf_num i) @ html_td (row_upstream ps) @ html_td (row_name ps) @
     html_td (status_word ps) @ html_td (row_rise ps) @ html_td (row_fall ps) @
     html_td t @ html_td (row_port ps) @ ''  </tr>'' @ LF1) (status_type ps)"

definition json_object :: "nat \<Rightarrow> peer_slot \<Rightarrow> string \<Rightarrow> string" where
  "json_object i ps t =
     ''    {\"index\": '' @ ngx_sprintf_num i @ '', \"upstream\": \"'' @ row_upstream ps @
     ''\", \"name\": \"'' @ row_name ps @ ''\", \"status\": \"'' @ status_word ps @
     ''\", \"rise\": '' @ row_rise ps @ '', \"fall\": '' @ row_fall ps @
     '', \"type\": \"'' @ t @ ''\", \"port\": '' @ row_port ps @ ''}''"

definition json_row :: "(nat \<Rightarrow> nat \<Rightarrow> bool) \<Rightarrow> row_printer" where
  "json_row is_last i count ps = map_option (\<lambda>t.
     json_object i ps t @ (if is_last i count then [] else '','') @ LF1) (status_type ps)"

text \<open>Joins the texts of the parts of a page; the page fails where a part does.\<close>

definition pages :: "string list option list \<Rightarrow> string list option" where
  "pages ps = (if None \<in> set ps then None else Some (concat (map the ps)))"

definition html_table_head :: string where
  "html_table_head =
     ''<table style=\"background-color:white\" cellspacing=\"0\" '' @
     ''       cellpadding=\"3\" border=\"1\">'' @ LF1 @
     ''  <tr bgcolor=\"#C0C0C0\">'' @ LF1 @
     ''    <th>Index</th>'' @ LF1 @
     ''    <th>Upstream</th>'' @ LF1 @
     ''    <th>Name</th>'' @ LF1 @
     ''    <th>Status</th>'' @ LF1 @
     ''    <th>Rise counts</th>'' @ LF1 @
     ''    <th>Fall counts</th>'' @ LF1 @
     ''    <th>Check type</th>'' @ LF1 @
     ''    <th>Check port</th>'' @ LF1 @
     ''  </tr>'' @ LF1"

definition html_doc_head :: "string \<Rightarrow> string" where
  "html_doc_head title =
     ''<!DOCTYPE html PUBLIC \"-//W3C//DTD XHTML 1.0 Strict//EN'' @ LF1 @
     ''\"http://www.w3.org/TR/xhtml1/DTD/xhtml1-strict.dtd\">'' @ LF1 @
     ''<html xmlns=\"http://www.w3.org/1999/xhtml\">'' @ LF1 @
     ''<head>'' @ LF1 @
     ''  <title>'' @ title @ ''</title>'' @ LF1 @
     ''</head>'' @ LF1 @
     ''<body>'' @ LF1"

subsection \<open>The pages of the http module\<close>

text \<open>\<open>gen\<close> is \<open>ngx_http_upstream_check_shm_generation\<close>.\<close>

definition ngx_http_upstream_check_status_html_format ::
  "ngx_uint_t \<Rightarrow> peer_slot list \<Rightarrow> ngx_uint_t \<Rightarrow> string list option" where
  "ngx_http_upstream_check_status_html_format gen peers flag = pages
     [Some [html_doc_head ''Nginx http upstream check status'' @
            ''<h1>Nginx http upstream check status</h1>'' @ LF1 @
            ''<h2>Check upstream server number: '' @ ngx_sprintf_num (status_count flag peers) @
            '', generation: '' @ ui gen @ ''</h2>'' @ LF1 @ html_table_head],
      status_loop html_row flag 0 0 peers,
      Some [''</table>'' @ LF1 @ ''</body>'' @ LF1 @ ''</html>'' @ LF1]]"

definition http_csv_row :: row_printer where
  "http_csv_row i count ps = map_option (\<lambda>t.
     ngx_sprintf_num i @ '','' @ row_upstream ps @ '','' @ row_name ps @ '','' @ status_word ps @ '','' @
     row_rise ps @ '','' @ row_fall ps @ '','' @ t @ '','' @ row_port ps @ LF1) (status_type ps)"

definition ngx_http_upstream_check_status_csv_format ::
  "peer_slot list \<Rightarrow> ngx_uint_t \<Rightarrow> string list option" where
  "ngx_http_upstream_check_status_csv_format peers flag = status_loop http_csv_row flag 0 0 peers"

text \<open>The comma is left out after the row whose index is that of the last peer.\<close>

definition ngx_http_upstream_check_status_json_format ::
  "ngx_uint_t \<Rightarrow> peer_slot list \<Rightarrow> ngx_uint_t \<Rightarrow> string list option" where
  "ngx_http_upstream_check_status_json_format gen peers flag = pages
     [Some [''{\"servers\": {'' @ LF1 @
            ''  \"total\": '' @ ngx_sprintf_num (status_count flag peers) @ '','' @ LF1 @
            ''  \"generation\": '' @ ui gen @ '','' @ LF1 @
            ''  \"server\": ['' @ LF1],
      status_loop (json_row (\<lambda>i count. Suc i = length peers)) flag 0 0 peers,
      Some [''  ]'' @ LF1, ''}}'' @ LF1]]"

subsection \<open>The pages of the status module\<close>

text \<open>The globals the status module reads: the peers of both modules, \<open>None\<close> while the pointer is
  \<open>NULL\<close>, each peer with the slot its \<open>shm\<close> points to, and the generations.\<close>

record status_data =
  sd_http :: "peer_slot list option"
  sd_stream :: "peer_slot list option"
  sd_http_generation :: ngx_uint_t
  sd_stream_generation :: ngx_uint_t

definition or_empty :: "peer_slot list option \<Rightarrow> peer_slot list" where
  "or_empty ps = (case ps of None \<Rightarrow> [] | Some xs \<Rightarrow> xs)"

definition html_section :: "string \<Rightarrow> peer_slot list \<Rightarrow> string" where
  "html_section name peers =
     ''<h2>'' @ name @ '' upstream servers </h2> up: '' @
     ngx_sprintf_num (length (filter (\<lambda>ps. sh_down (snd ps) = 0) peers)) @ '' down: '' @
     ngx_sprintf_num (length peers - length (filter (\<lambda>ps. sh_down (snd ps) = 0) peers)) @ '' total: '' @
     ngx_sprintf_num (length peers) @ LF1 @ html_table_head"

definition ngx_upstream_check_status_html_format ::
  "status_data \<Rightarrow> ngx_uint_t \<Rightarrow> string list option" where
  "ngx_upstream_check_status_html_format d flag =
     (case sd_http d of
        None \<Rightarrow> None
      | Some hs \<Rightarrow> pages
          [Some [html_doc_head ''Nginx upstream status checker'' @
                 ''<h1  align=\"center\">Nginx upstream status monitor</h1>'' @ LF1,
                 html_section ''http'' hs],
           status_loop html_row flag 0 0 hs,
           Some [''</table>'' @ LF1, html_section ''stream'' (or_empty (sd_stream d))],
           status_loop html_row flag 0 0 (or_empty (sd_stream d)),
           Some [''</table>'' @ LF1 @ ''<h2>total servers(check enabled): '' @
                 ngx_sprintf_num (length (or_empty (sd_stream d)) + length hs) @ '' </h2>'' @ LF1 @
                 ''</body></html>'' @ LF1]])"

definition csv_row :: "string \<Rightarrow> row_printer" where
  "csv_row kind i count ps = map_option (\<lambda>t.
     ngx_sprintf_num i @ '','' @ kind @ '','' @ row_upstream ps @ '','' @ row_name ps @ '','' @
     row_rise ps @ '','' @ row_fall ps @ '','' @ t @ '','' @ row_port ps @ '','' @
     status_word ps @ LF1) (status_type ps)"

definition csv_head :: string where
  "csv_head = ''index,upstream_type,upstream_name,host,rise,fall,check_type,check_port,status'' @ LF1"

definition ngx_upstream_check_status_csv_format ::
  "status_data \<Rightarrow> ngx_uint_t \<Rightarrow> string list option" where
  "ngx_upstream_check_status_csv_format d flag =
     (case sd_http d of
        None \<Rightarrow> None
      | Some hs \<Rightarrow> pages
          [Some [csv_head],
           status_loop (csv_row ''http'') flag 0 0 hs,
           status_loop (csv_row ''stream'') flag 0 0 (or_empty (sd_stream d))])"

text \<open>The comma is left out after the row that completes the number of shown peers.\<close>

definition ngx_upstream_check_status_json_format ::
  "status_data \<Rightarrow> ngx_uint_t \<Rightarrow> string list option" where
  "ngx_upstream_check_status_json_format d flag =
     (case sd_http d of
        None \<Rightarrow> None
      | Some hs \<Rightarrow> (let ss = or_empty (sd_stream d) in pages
          [Some [''{\"servers\": {'' @ LF1 @
                 ''  \"total\": '' @ ngx_sprintf_num (status_count flag ss + status_count flag hs) @ '','' @ LF1 @
                 ''  \"generation\": '' @ ui (sd_stream_generation d) @ '','' @ LF1 @
                 ''  \"http\": ['' @ LF1],
           status_loop (json_row (\<lambda>i count. count = status_count flag hs)) flag 0 0 hs,
           Some [''  ],'' @ LF1 @ ''  \"stream\": ['' @ LF1],
           status_loop (json_row (\<lambda>i count. count = status_count flag ss)) flag 0 0 ss,
           Some [''  ]'' @ LF1, ''}}'' @ LF1]]))"

text \<open>One sample of the metric \<open>name\<close>; the metric of activity has no status label.\<close>

definition prometheus_row :: "string \<Rightarrow> bool \<Rightarrow> (peer_slot \<Rightarrow> string) \<Rightarrow> string \<Rightarrow> row_printer" where
  "prometheus_row name status val kind i count ps = map_option (\<lambda>t.
     name @ ''{index=\"'' @ ngx_sprintf_num i @ ''\",upstream_type=\"'' @ kind @
     ''\",upstream=\"'' @ row_upstream ps @ ''\",name=\"'' @ row_name ps @
     (if status then ''\",status=\"'' @ status_word ps else []) @
     ''\",type=\"'' @ t @ ''\",port=\"'' @ row_port ps @ ''\"} '' @ val ps @ LF1) (status_type ps)"

definition prometheus_rows ::
  "status_data \<Rightarrow> ngx_uint_t \<Rightarrow> (string \<Rightarrow> row_printer) \<Rightarrow> string list option" where
  "prometheus_rows d flag row = pages
     [status_loop (row ''http'') flag 0 0 (or_empty (sd_http d)),
      status_loop (row ''stream'') flag 0 0 (or_empty (sd_stream d))]"

definition prometheus_metric :: "string \<Rightarrow> string \<Rightarrow> string \<Rightarrow> string" where
  "prometheus_metric name help kind =
     ''# HELP '' @ name @ '' '' @ help @ LF1 @ ''# TYPE '' @ name @ '' '' @ kind @ LF1"

definition prometheus_summary :: "status_data \<Rightarrow> ngx_uint_t \<Rightarrow> string" where
  "prometheus_summary d flag =
     (let shown = filter (status_shown flag) (or_empty (sd_http d) @ or_empty (sd_stream d))
      in prometheus_metric ''nginx_upstream_count_total'' ''Nginx total number of servers'' ''gauge'' @
         ''nginx_upstream_count_total '' @ ngx_sprintf_num (length shown) @ LF1 @
         prometheus_metric ''nginx_upstream_count_up'' ''Nginx total number of servers that are UP'' ''gauge'' @
         ''nginx_upstream_count_up '' @
         ngx_sprintf_num (length (filter (\<lambda>ps. sh_down (snd ps) = 0) shown)) @ LF1 @
         prometheus_metric ''nginx_upstream_count_down'' ''Nginx total number of servers that are DOWN'' ''gauge'' @
         ''nginx_upstream_count_down '' @
         ngx_sprintf_num (length (filter (\<lambda>ps. sh_down (snd ps) \<noteq> 0) shown)) @ LF1 @
         prometheus_metric ''nginx_upstream_count_generation'' ''Nginx generation'' ''gauge'' @
         ''nginx_upstream_count_generation '' @ ui (sd_stream_generation d) @ LF1)"

definition ngx_http_upstream_check_status_prometheus_format ::
  "status_data \<Rightarrow> ngx_uint_t \<Rightarrow> string list option" where
  "ngx_http_upstream_check_status_prometheus_format d flag = pages
     [Some [prometheus_summary d flag,
            prometheus_metric ''nginx_upstream_server_rise'' ''Nginx rise counter'' ''counter''],
      prometheus_rows d flag (prometheus_row ''nginx_upstream_server_rise'' True row_rise),
      Some [prometheus_metric ''nginx_upstream_server_fall'' ''Nginx fall counter'' ''counter''],
      prometheus_rows d flag (prometheus_row ''nginx_upstream_server_fall'' True row_fall),
      Some [prometheus_metric ''nginx_upstream_server_active''
              ''Nginx active 1 for UP / 0 for DOWN'' ''gauge''],
      prometheus_rows d flag (prometheus_row ''nginx_upstream_server_active'' False
        (\<lambda>ps. if sh_down (snd ps) \<noteq> 0 then ''0'' else ''1''))]"

subsection \<open>The handlers\<close>

text \<open>What a request brings: method and arguments, the results of the calls into the http core
  (\<open>sv_head_rc\<close>, \<open>sv_head_only\<close>: the header of a HEAD request; \<open>sv_send_rc\<close>, \<open>sv_header_only\<close>: the
  header of the page), of the allocations, and the page size.\<close>

record status_request =
  sv_method :: ngx_uint_t
  sv_args :: string
  sv_discard_rc :: int
  sv_pcalloc :: bool
  sv_head_rc :: int
  sv_head_only :: bool
  sv_pagesize :: int
  sv_temp_buf :: bool
  sv_send_rc :: int
  sv_header_only :: bool
  sv_filter_rc :: int

abbreviation (input) NGX_HTTP_GET :: ngx_uint_t where "NGX_HTTP_GET \<equiv> 0x0002"
abbreviation (input) NGX_HTTP_HEAD :: ngx_uint_t where "NGX_HTTP_HEAD \<equiv> 0x0004"
abbreviation (input) NGX_HTTP_NOT_ALLOWED :: int where "NGX_HTTP_NOT_ALLOWED \<equiv> 405"
abbreviation (input) NGX_HTTP_INTERNAL_SERVER_ERROR :: int where
  "NGX_HTTP_INTERNAL_SERVER_ERROR \<equiv> 500"

text \<open>The reply: the return code, and content type and page where a page is passed to the output
  filter.\<close>

type_synonym status_reply = "int \<times> (string \<times> string) option"

definition ngx_align :: "int \<Rightarrow> int \<Rightarrow> int" where
  "ngx_align d a = (d + (a - 1)) AND (NOT (a - 1))"

definition status_buffer_size :: "nat \<Rightarrow> int \<Rightarrow> nat" where
  "status_buffer_size nelts pagesize = nat (ngx_align (int nelts * pagesize div 4) pagesize + pagesize)"

text \<open>\<open>ngx_snprintf\<close> of a text at the end of a buffer of size \<open>cap\<close> prints as much of it as fits.\<close>

definition buf_print :: "nat \<Rightarrow> string \<Rightarrow> string \<Rightarrow> string" where
  "buf_print cap out t = out @ take (cap - length out) t"

definition status_output ::
  "status_data \<Rightarrow> status_format_pt \<Rightarrow> ngx_uint_t \<Rightarrow> string list option" where
  "status_output d fmt flag =
     (case fmt of
        Html_Format \<Rightarrow> ngx_upstream_check_status_html_format d flag
      | Csv_Format \<Rightarrow> ngx_upstream_check_status_csv_format d flag
      | Json_Format \<Rightarrow> ngx_upstream_check_status_json_format d flag
      | Prometheus_Format \<Rightarrow> ngx_http_upstream_check_status_prometheus_format d flag
      | Http_Html_Format \<Rightarrow>
          ngx_http_upstream_check_status_html_format (sd_http_generation d) (or_empty (sd_http d)) flag
      | Http_Csv_Format \<Rightarrow>
          ngx_http_upstream_check_status_csv_format (or_empty (sd_http d)) flag
      | Http_Json_Format \<Rightarrow>
          ngx_http_upstream_check_status_json_format (sd_http_generation d) (or_empty (sd_http d)) flag)"

definition status_send ::
  "status_data \<Rightarrow> nat \<Rightarrow> ngx_check_status_conf_t \<Rightarrow> ngx_uint_t \<Rightarrow> status_request
    \<Rightarrow> status_reply option" where
  "status_send d nelts f flag r =
     (if \<not> sv_temp_buf r then Some (NGX_HTTP_INTERNAL_SERVER_ERROR, None)
      else case status_output d (st_output f) flag of
        None \<Rightarrow> None
      | Some texts \<Rightarrow>
          let page = foldl (buf_print (status_buffer_size nelts (sv_pagesize r))) [] texts
          in if sv_send_rc r = - 1 \<or> sv_send_rc r > 0 \<or> page = [] \<or> sv_header_only r
             then Some (sv_send_rc r, None)
             else Some (sv_filter_rc r, Some (st_content_type f, page)))"

text \<open>The body both handlers share. \<open>nelts\<close> is the number of peers the buffer is sized for, \<open>None\<close>
  where that is read through a null pointer, with \<open>at_null\<close> the outcome then.\<close>

definition status_handler ::
  "(string \<Rightarrow> ngx_check_status_conf_t option) \<Rightarrow> nat option \<Rightarrow> status_reply option \<Rightarrow> status_data
    \<Rightarrow> ngx_check_status_conf_t conf_ptr \<Rightarrow> status_request \<Rightarrow> status_reply option" where
  "status_handler fmt nelts at_null d loc r =
     (if sv_method r \<noteq> NGX_HTTP_GET \<and> sv_method r \<noteq> NGX_HTTP_HEAD then Some (NGX_HTTP_NOT_ALLOWED, None)
      else if sv_discard_rc r \<noteq> 0 then Some (sv_discard_rc r, None)
      else if \<not> sv_pcalloc r then Some (NGX_HTTP_INTERNAL_SERVER_ERROR, None)
      else let ctx = status_parse_args fmt (sv_args r) \<lparr>sc_format = None, sc_flag = 0\<rparr>
           in case (case sc_format ctx of Some f \<Rightarrow> Ptr f | None \<Rightarrow> loc) of
                Ptr f \<Rightarrow>
                  if sv_method r = NGX_HTTP_HEAD
                     \<and> (sv_head_rc r = - 1 \<or> sv_head_rc r > 0 \<or> sv_head_only r)
                  then Some (sv_head_rc r, None)
                  else (case nelts of
                          None \<Rightarrow> at_null
                        | Some n \<Rightarrow> status_send d n f (sc_flag ctx) r)
              | _ \<Rightarrow> None)"

definition ngx_http_upstream_check_status_handler ::
  "status_data \<Rightarrow> ngx_check_status_conf_t conf_ptr \<Rightarrow> status_request \<Rightarrow> status_reply option" where
  "ngx_http_upstream_check_status_handler d =
     status_handler ngx_http_get_check_status_format_conf (map_option length (sd_http d))
       (Some (NGX_HTTP_INTERNAL_SERVER_ERROR, None)) d"

definition ngx_upstream_check_status_handler ::
  "status_data \<Rightarrow> ngx_check_status_conf_t conf_ptr \<Rightarrow> status_request \<Rightarrow> status_reply option" where
  "ngx_upstream_check_status_handler d =
     status_handler status_get_check_status_format_conf
       (map_option (\<lambda>hs. length (or_empty (sd_stream d)) + length hs) (sd_http d)) None d"

subsection \<open>Buffers\<close>

lemma foldl_buf_print:
  "length out \<le> cap \<Longrightarrow> foldl (buf_print cap) out ts = take cap (out @ concat ts)"
proof (induction ts arbitrary: out)
  case (Cons t ts)
  have "length (buf_print cap out t) \<le> cap" using Cons.prems by (simp add: buf_print_def)
  with Cons.IH have "foldl (buf_print cap) out (t # ts) = take cap (buf_print cap out t @ concat ts)"
    by simp
  also have "\<dots> = take cap (out @ t @ concat ts)"
    using Cons.prems by (cases "length t \<le> cap - length out") (simp_all add: buf_print_def)
  finally show ?case by simp
qed simp

lemma ngx_align_ge: "d \<le> ngx_align d (2 ^ k)"
proof -
  let ?x = "d + (2 ^ k - 1)"
  have "?x - take_bit k ?x = ?x AND NOT (take_bit k ?x)"
    by (rule disjunctive_diff) (simp add: bit_simps)
  also have "\<dots> = ?x AND NOT (mask k)" by (rule bit_eqI) (auto simp: bit_simps)
  finally have "?x AND NOT (mask k) = ?x - take_bit k ?x" by simp
  moreover have "take_bit k ?x \<le> 2 ^ k - 1"
    using take_bit_int_less_exp [of k ?x] by simp
  ultimately show ?thesis unfolding ngx_align_def mask_eq_exp_minus_1 by linarith
qed

lemma status_buffer_size_ge:
  assumes "4 * w \<le> 2 ^ k"
  shows "n * w + 2 ^ k \<le> status_buffer_size n (2 ^ k)"
proof -
  have "n * (4 * w) \<le> n * 2 ^ k" using assms by (rule mult_le_mono2)
  then have "int (n * (4 * w)) \<le> int (n * 2 ^ k)" by (simp only: of_nat_le_iff)
  then have "4 * (int n * int w) \<le> int n * 2 ^ k" by (simp add: algebra_simps)
  then have "int n * int w \<le> int n * 2 ^ k div 4" by simp
  also have "\<dots> \<le> ngx_align (int n * 2 ^ k div 4) (2 ^ k)" by (rule ngx_align_ge)
  finally have "int (n * w + 2 ^ k) \<le> ngx_align (int n * 2 ^ k div 4) (2 ^ k) + 2 ^ k" by simp
  then show ?thesis unfolding status_buffer_size_def by linarith
qed

subsection \<open>Rows of a page\<close>

text \<open>The rows a page lists: the shown peers with their indices.\<close>

definition status_listed :: "ngx_uint_t \<Rightarrow> nat \<Rightarrow> peer_slot list \<Rightarrow> (nat \<times> peer_slot) list" where
  "status_listed flag i peers = filter (\<lambda>(i, ps). status_shown flag ps) (enumerate i peers)"

lemma status_listed_simps [simp]:
  "status_listed flag i [] = []"
  "status_listed flag i (ps # rest) =
     (if status_shown flag ps then (i, ps) # status_listed flag (Suc i) rest
      else status_listed flag (Suc i) rest)"
  by (simp_all add: status_listed_def)

lemma length_status_listed: "length (status_listed flag i peers) = status_count flag peers"
  by (induction peers arbitrary: i) (simp_all add: status_count_def)

lemma status_listed_set:
  "(j, ps) \<in> set (status_listed flag i peers) \<Longrightarrow> ps \<in> set peers \<and> j < i + length peers"
  by (auto simp: status_listed_def in_set_enumerate_eq)

definition typed_peers :: "peer_slot list \<Rightarrow> bool" where
  "typed_peers peers = list_all (\<lambda>ps. status_type ps \<noteq> None) peers"

lemma status_loop_rows:
  assumes "\<And>i c ps. pr i c ps = map_option (f i ps) (status_type ps)" "typed_peers peers"
  shows "status_loop pr flag i c peers =
    Some (map (\<lambda>(i, ps). f i ps (the (status_type ps))) (status_listed flag i peers))"
  using assms(2)
  by (induction peers arbitrary: i c) (auto simp: assms(1) typed_peers_def)

lemma status_loop_none: "status_listed flag i peers = [] \<Longrightarrow> status_loop pr flag i c peers = Some []"
  by (induction peers arbitrary: i) (auto split: if_splits)

subsection \<open>Reading a csv page\<close>

fun split_on :: "char \<Rightarrow> string \<Rightarrow> string list" where
  "split_on c [] = [[]]"
| "split_on c (x # xs) =
     (if x = c then [] # split_on c xs
      else case split_on c xs of [] \<Rightarrow> [[x]] | w # ws \<Rightarrow> (x # w) # ws)"

lemma split_on_sep: "c \<notin> set a \<Longrightarrow> split_on c (a @ c # b) = a # split_on c b"
  by (induction a) auto

lemma split_on_none: "c \<notin> set a \<Longrightarrow> split_on c a = [a]"
  by (induction a) auto

lemma split_on_lines:
  "(\<And>l. l \<in> set ls \<Longrightarrow> c \<notin> set l) \<Longrightarrow> split_on c (concat (map (\<lambda>l. l @ [c]) ls)) = ls @ [[]]"
  by (induction ls) (simp_all add: split_on_sep)

fun csv_line :: "string list \<Rightarrow> string" where
  "csv_line [] = []"
| "csv_line [w] = w"
| "csv_line (w # ws) = w @ CHR '','' # csv_line ws"

definition csv_clean :: "string \<Rightarrow> bool" where
  "csv_clean s = (CHR '','' \<notin> set s \<and> CHR 0x0A \<notin> set s)"

lemma split_on_csv_line:
  "ws \<noteq> [] \<Longrightarrow> list_all csv_clean ws \<Longrightarrow> split_on CHR '','' (csv_line ws) = ws"
  by (induction ws rule: csv_line.induct) (auto simp: csv_clean_def split_on_sep split_on_none)

lemma csv_line_no_LF: "list_all csv_clean ws \<Longrightarrow> CHR 0x0A \<notin> set (csv_line ws)"
  by (induction ws rule: csv_line.induct) (auto simp: csv_clean_def)

lemma csv_page_reads_back:
  assumes "\<And>ws. ws \<in> set wss \<Longrightarrow> ws \<noteq> [] \<and> list_all csv_clean ws"
  shows "map (split_on CHR '','') (split_on CHR 0x0A (concat (map (\<lambda>ws. csv_line ws @ LF1) wss))) =
    wss @ [[[]]]"
proof -
  have "split_on CHR 0x0A (concat (map (\<lambda>l. l @ [CHR 0x0A]) (map csv_line wss))) = map csv_line wss @ [[]]"
    using assms csv_line_no_LF by (intro split_on_lines) auto
  moreover have "map (split_on CHR '','') (map csv_line wss) = wss"
    using assms split_on_csv_line by (auto intro: map_idI)
  ultimately show ?thesis by (simp add: comp_def)
qed

lemma sprintf_num_clean: "csv_clean (ngx_sprintf_num n)"
proof -
  have "c \<in> set (ngx_sprintf_num n) \<Longrightarrow> is_digit c" for c
    using ngx_sprintf_num_digits [of n] by (simp add: list_all_iff)
  moreover have "\<not> is_digit CHR '',''" "\<not> is_digit LF" by code_simp+
  ultimately show ?thesis unfolding csv_clean_def by blast
qed

lemma ui_length: "length (ui n) \<le> 20"
  using length_ngx_sprintf_num [of "unat n" 19] unsigned_less [of n, where ?'a = nat] by simp

definition csv_fields :: "string \<Rightarrow> nat \<Rightarrow> peer_slot \<Rightarrow> string \<Rightarrow> string list" where
  "csv_fields kind i ps t =
     [ngx_sprintf_num i, kind, row_upstream ps, row_name ps, row_rise ps, row_fall ps, t, row_port ps,
      status_word ps]"

definition csv_rows :: "string \<Rightarrow> (nat \<times> peer_slot) list \<Rightarrow> string list list" where
  "csv_rows kind rows = map (\<lambda>(i, ps). csv_fields kind i ps (the (status_type ps))) rows"

definition csv_names :: "string list" where
  "csv_names = [''index'', ''upstream_type'', ''upstream_name'', ''host'', ''rise'', ''fall'',
     ''check_type'', ''check_port'', ''status'']"

text \<open>The texts of a peer that go into a row: free of separators, and together no longer than \<open>w\<close>.\<close>

definition csv_peer :: "nat \<Rightarrow> peer_slot \<Rightarrow> bool" where
  "csv_peer w ps =
     (case status_type ps of
        None \<Rightarrow> False
      | Some t \<Rightarrow> csv_clean t \<and> csv_clean (row_upstream ps) \<and> csv_clean (row_name ps)
                 \<and> length t + length (row_upstream ps) + length (row_name ps) \<le> w)"

lemma csv_peer_typed: "list_all (csv_peer w) peers \<Longrightarrow> typed_peers peers"
  by (auto simp: typed_peers_def list_all_iff csv_peer_def split: option.splits)

lemma csv_loop:
  assumes "typed_peers peers"
  shows "status_loop (csv_row kind) flag i c peers =
    Some (map (\<lambda>ws. csv_line ws @ LF1) (csv_rows kind (status_listed flag i peers)))"
proof -
  have "csv_row kind i c ps = map_option (\<lambda>t. csv_line (csv_fields kind i ps t) @ LF1) (status_type ps)"
    for i c ps by (simp add: csv_row_def csv_fields_def)
  from status_loop_rows [OF this assms] show ?thesis by (simp add: csv_rows_def comp_def case_prod_unfold)
qed

lemma csv_format_page:
  assumes "sd_http d = Some hs" "typed_peers hs" "typed_peers (or_empty (sd_stream d))"
  shows "ngx_upstream_check_status_csv_format d flag = Some (map (\<lambda>ws. csv_line ws @ LF1)
    (csv_names # csv_rows ''http'' (status_listed flag 0 hs) @
     csv_rows ''stream'' (status_listed flag 0 (or_empty (sd_stream d)))))"
  using assms
  by (simp add: ngx_upstream_check_status_csv_format_def csv_loop pages_def csv_head_def csv_names_def)

lemma csv_fields_ok:
  assumes "csv_peer w ps" "i < 10 ^ 20" "csv_clean kind" "length kind \<le> 6"
  shows "list_all csv_clean (csv_fields kind i ps (the (status_type ps)))
    \<and> length (csv_line (csv_fields kind i ps (the (status_type ps))) @ LF1) \<le> w + 99"
proof -
  from assms(1) obtain t where t: "status_type ps = Some t" "csv_clean t" "csv_clean (row_upstream ps)"
    "csv_clean (row_name ps)" "length t + length (row_upstream ps) + length (row_name ps) \<le> w"
    by (auto simp: csv_peer_def split: option.splits)
  have "length (ngx_sprintf_num i) \<le> 20" using length_ngx_sprintf_num [of i 19] assms(2) by simp
  moreover have "length (status_word ps) \<le> 4" "csv_clean (status_word ps)"
    by (simp_all add: status_word_def csv_clean_def)
  ultimately show ?thesis
    using t assms(3,4) ui_length [of "sh_rise_count (snd ps)"] ui_length [of "sh_fall_count (snd ps)"]
      ui_length [of "uc_port (p_conf (fst ps))"]
    by (simp add: csv_fields_def sprintf_num_clean)
qed

lemma csv_rows_ok:
  assumes "list_all (csv_peer w) peers" "length peers \<le> 10 ^ 20" "csv_clean kind" "length kind \<le> 6"
    "ws \<in> set (csv_rows kind (status_listed flag 0 peers))"
  shows "ws \<noteq> [] \<and> list_all csv_clean ws \<and> length (csv_line ws @ LF1) \<le> w + 99"
proof -
  from assms(5) obtain i ps where i: "(i, ps) \<in> set (status_listed flag 0 peers)"
    and ws: "ws = csv_fields kind i ps (the (status_type ps))" by (auto simp: csv_rows_def)
  from status_listed_set [OF i] assms(1,2) have "csv_peer w ps" "i < 10 ^ 20"
    by (auto simp: list_all_iff)
  from csv_fields_ok [OF this assms(3,4)] ws show ?thesis by (simp add: csv_fields_def)
qed

lemma length_csv_rows: "length (csv_rows kind (status_listed flag i peers)) \<le> length peers"
  by (simp add: csv_rows_def length_status_listed status_count_def)

lemma length_concat_le:
  "(\<And>x. x \<in> set xs \<Longrightarrow> length x \<le> w) \<Longrightarrow> length (concat xs) \<le> length xs * w"
proof (induction xs)
  case (Cons x xs)
  then have "length x \<le> w" "length (concat xs) \<le> length xs * w" by simp_all
  then show ?case by simp
qed simp

lemma csv_page_length:
  assumes "\<And>ws. ws \<in> set rows \<Longrightarrow> ws \<noteq> [] \<and> list_all csv_clean ws \<and> length (csv_line ws @ LF1) \<le> w + 99"
    and "4 * (w + 99) \<le> 2 ^ k" "length rows \<le> n"
  shows "length (concat (map (\<lambda>ws. csv_line ws @ LF1) (csv_names # rows))) \<le> status_buffer_size n (2 ^ k)"
proof -
  let ?ls = "map (\<lambda>ws. csv_line ws @ LF1) rows"
  have "length (concat ?ls) \<le> length ?ls * (w + 99)"
    using assms(1) by (intro length_concat_le) auto
  also have "\<dots> \<le> n * (w + 99)" using assms(3) by simp
  finally have "length (concat ?ls) \<le> n * (w + 99)" .
  moreover have "length (csv_line csv_names @ LF1) \<le> 2 ^ k"
    using assms(2) by (simp add: csv_names_def)
  ultimately show ?thesis
    using status_buffer_size_ge [OF assms(2), of n] by (simp del: length_concat)
qed

subsection \<open>The handlers\<close>

text \<open>A GET request the http core and the allocator raise no obstacle to.\<close>

definition plain_get :: "status_request \<Rightarrow> bool" where
  "plain_get r =
     (sv_method r = NGX_HTTP_GET \<and> sv_discard_rc r = 0 \<and> sv_pcalloc r \<and> sv_temp_buf r
      \<and> sv_send_rc r = 0 \<and> \<not> sv_header_only r)"

lemma status_handler_page:
  assumes "plain_get r" "sc_format (status_parse_args fmt (sv_args r) \<lparr>sc_format = None, sc_flag = 0\<rparr>) = Some f"
    "sc_flag (status_parse_args fmt (sv_args r) \<lparr>sc_format = None, sc_flag = 0\<rparr>) = flag"
    "status_output d (st_output f) flag = Some texts"
    "length (concat texts) \<le> status_buffer_size n (sv_pagesize r)" "concat texts \<noteq> []"
  shows "status_handler fmt (Some n) null_rc d loc r =
    Some (sv_filter_rc r, Some (st_content_type f, concat texts))"
proof -
  have "foldl (buf_print (status_buffer_size n (sv_pagesize r))) [] texts = concat texts"
    using assms(5) by (simp add: foldl_buf_print del: length_concat)
  then show ?thesis
    using assms by (simp add: status_handler_def status_send_def plain_get_def Let_def)
qed

text \<open>The values of the argument \<open>status\<close> and the peers they ask for.\<close>

definition status_asks :: "string option \<Rightarrow> (peer_slot \<Rightarrow> bool) \<Rightarrow> bool" where
  "status_asks v want =
     (v = None \<and> want = (\<lambda>ps. True)
      \<or> v = Some ''down'' \<and> want = (\<lambda>ps. sh_down (snd ps) \<noteq> 0)
      \<or> v = Some ''up'' \<and> want = (\<lambda>ps. sh_down (snd ps) = 0))"

lemma status_parse_args_asks:
  assumes "ngx_http_arg args ''format'' = Some v" "status_asks (ngx_http_arg args ''status'') want"
  shows "\<exists>flag. status_parse_args fmt args \<lparr>sc_format = None, sc_flag = 0\<rparr> =
      \<lparr>sc_format = fmt v, sc_flag = flag\<rparr> \<and> status_shown flag = want"
proof -
  have "args \<noteq> []" using assms(1) by (auto simp: ngx_http_arg_def)
  then show ?thesis using assms
    by (auto simp: status_parse_args_def status_asks_def status_command_format_def
        status_command_status_def status_shown_def c_hd_def c_lower_def fun_eq_iff)
qed

subsection \<open>Entries of a json page\<close>

definition json_objects :: "(nat \<times> peer_slot) list \<Rightarrow> string list" where
  "json_objects rows = map (\<lambda>(i, ps). json_object i ps (the (status_type ps))) rows"

fun json_list :: "string list \<Rightarrow> string" where
  "json_list [] = []"
| "json_list [x] = x @ LF1"
| "json_list (x # xs) = x @ '','' @ LF1 @ json_list xs"

lemma json_list_Cons: "json_list (x # xs) = x @ (if xs = [] then [] else '','') @ LF1 @ json_list xs"
  by (cases xs) simp_all

lemma json_loop_counted:
  assumes "typed_peers peers"
  shows "n = c + status_count flag peers \<Longrightarrow>
    \<exists>ts. status_loop (json_row (\<lambda>i count. count = n)) flag i c peers = Some ts
      \<and> concat ts = json_list (json_objects (status_listed flag i peers))"
  using assms
proof (induction peers arbitrary: i c)
  case (Cons ps peers)
  show ?case
  proof (cases "status_shown flag ps")
    case True
    then have n: "n = Suc c + status_count flag peers" using Cons.prems by (simp add: status_count_def)
    have "typed_peers peers" using Cons.prems by (simp add: typed_peers_def)
    with n obtain ts where
      "status_loop (json_row (\<lambda>i count. count = n)) flag (Suc i) (Suc c) peers = Some ts"
      "concat ts = json_list (json_objects (status_listed flag (Suc i) peers))"
      using Cons.IH by blast
    moreover have "Suc c = n \<longleftrightarrow> json_objects (status_listed flag (Suc i) peers) = []"
      using n length_status_listed [of flag "Suc i" peers] by (auto simp: json_objects_def)
    moreover have "json_row (\<lambda>i count. count = n) i (Suc c) ps =
        Some (json_object i ps (the (status_type ps)) @ (if Suc c = n then [] else '','') @ LF1)"
      using Cons.prems(2) by (auto simp: json_row_def typed_peers_def)
    ultimately show ?thesis
      using True by (simp add: json_objects_def json_list_Cons)
  next
    case False
    then show ?thesis using Cons by (simp add: status_count_def typed_peers_def)
  qed
qed (simp add: json_objects_def)

lemma json_loop_indexed:
  assumes "typed_peers peers" "status_listed flag i peers \<noteq> []"
    "\<And>j ps. (j, ps) \<in> set (status_listed flag i peers) \<Longrightarrow> Suc j \<noteq> n"
  shows "\<exists>ts pre. status_loop (json_row (\<lambda>i count. Suc i = n)) flag i c peers = Some ts
    \<and> concat ts = pre @ ''},'' @ LF1"
  using assms
proof (induction peers arbitrary: i c)
  case (Cons ps peers)
  have t: "typed_peers peers" using Cons.prems(1) by (simp add: typed_peers_def)
  show ?case
  proof (cases "status_shown flag ps")
    case True
    with Cons.prems(3) [of i ps] have "Suc i \<noteq> n" by simp
    then have row: "json_row (\<lambda>i count. Suc i = n) i (Suc c) ps =
        Some (json_object i ps (the (status_type ps)) @ '','' @ LF1)"
      using Cons.prems(1) by (auto simp: json_row_def typed_peers_def)
    show ?thesis
    proof (cases "status_listed flag (Suc i) peers = []")
      case True
      then have "status_loop (json_row (\<lambda>i count. Suc i = n)) flag (Suc i) (Suc c) peers = Some []"
        using t by (simp add: status_loop_none)
      then show ?thesis using \<open>status_shown flag ps\<close> row by (simp add: json_object_def)
    next
      case False
      have "Suc j \<noteq> n" if "(j, qs) \<in> set (status_listed flag (Suc i) peers)" for j qs
        using that Cons.prems(3) [of j qs] by simp
      then obtain ts pre where
        "status_loop (json_row (\<lambda>i count. Suc i = n)) flag (Suc i) (Suc c) peers = Some ts"
        "concat ts = pre @ ''},'' @ LF1" using Cons.IH [OF t False, of "Suc c"] by blast
      then show ?thesis using \<open>status_shown flag ps\<close> row by simp
    qed
  next
    case False
    then show ?thesis using Cons.IH [OF t, of "Suc i" c] Cons.prems by simp
  qed
qed simp

subsection \<open>The handlers return\<close>

text \<open>The \<open>format\<close> pointers a location can have after parsing: unset, or set by an accepted directive.\<close>

definition accepted_loc ::
  "(string list \<Rightarrow> ngx_check_status_conf_t conf_ptr \<Rightarrow> conf_rc \<times> ngx_check_status_conf_t conf_ptr)
    \<Rightarrow> ngx_check_status_conf_t conf_ptr \<Rightarrow> bool" where
  "accepted_loc directive c = (c = Unset_Ptr \<or> (\<exists>args. directive args Unset_Ptr = (NGX_CONF_OK, c)))"

lemma http_status_html: "ngx_http_get_check_status_format_conf ''html'' \<noteq> None"
  by (simp add: ngx_http_get_check_status_format_conf_def ngx_http_check_status_formats_def c_hd_def)

lemma status_html: "status_get_check_status_format_conf ''html'' \<noteq> None"
  by (simp add: status_get_check_status_format_conf_def ngx_check_status_formats_def c_hd_def)

lemma accepted_loc_cases:
  "accepted_loc (status_directive fmt) c \<Longrightarrow> c = Unset_Ptr \<or> (\<exists>f. c = Ptr f)"
  by (auto simp: accepted_loc_def status_directive_def split: if_splits option.splits)

lemma status_merge_ptr:
  assumes "fmt ''html'' \<noteq> None" "accepted_loc (status_directive fmt) prev"
    "accepted_loc (status_directive fmt) conf"
  shows "\<exists>f. status_merge_loc_conf fmt prev conf = Ptr f"
  using accepted_loc_cases [OF assms(2)] accepted_loc_cases [OF assms(3)] assms(1)
  by (auto simp: status_merge_loc_conf_def)

lemma status_loop_total:
  assumes "\<And>i c ps. status_type ps \<noteq> None \<Longrightarrow> pr i c ps \<noteq> None" "typed_peers peers"
  shows "status_loop pr flag i c peers \<noteq> None"
  using assms(2)
proof (induction peers arbitrary: i c)
  case (Cons ps peers)
  moreover from Cons.prems have "pr i (Suc c) ps \<noteq> None" using assms(1) by (simp add: typed_peers_def)
  ultimately show ?case by (auto simp: typed_peers_def)
qed simp

lemma pages_total: "\<not> Option.is_none (pages ps) \<longleftrightarrow> list_all (\<lambda>p. \<not> Option.is_none p) ps"
proof -
  have "list_all (\<lambda>p. \<not> Option.is_none p) ps \<longleftrightarrow> None \<notin> set ps"
    by (induction ps) (auto simp: Option.is_none_def eq_commute [of None])
  then show ?thesis by (simp add: pages_def)
qed

lemma rows_total:
  assumes "typed_peers peers"
  shows "\<not> Option.is_none (status_loop html_row flag i c peers)"
    "\<not> Option.is_none (status_loop (json_row l) flag i c peers)"
    "\<not> Option.is_none (status_loop http_csv_row flag i c peers)"
    "\<not> Option.is_none (status_loop (csv_row k) flag i c peers)"
    "\<not> Option.is_none (status_loop (prometheus_row nm st v k) flag i c peers)"
  unfolding Option.is_none_def using assms
  by (intro status_loop_total; simp add: html_row_def json_row_def http_csv_row_def csv_row_def
      prometheus_row_def)+

lemma status_output_total:
  assumes "typed_peers (or_empty (sd_http d) @ or_empty (sd_stream d))" "sd_http d \<noteq> None"
  shows "status_output d fmt flag \<noteq> None"
proof -
  obtain hs where hs: "sd_http d = Some hs" using assms(2) by blast
  then have e: "or_empty (sd_http d) = hs" "or_empty (Some hs) = hs" by (simp_all add: or_empty_def)
  with assms(1) have t: "typed_peers hs" "typed_peers (or_empty (sd_stream d))"
    by (simp_all add: typed_peers_def)
  have "\<not> Option.is_none (status_output d fmt flag)"
    by (cases fmt) (simp_all add: status_output_def Let_def hs e pages_total rows_total t prometheus_rows_def
        ngx_upstream_check_status_html_format_def ngx_upstream_check_status_csv_format_def
        ngx_upstream_check_status_json_format_def ngx_http_upstream_check_status_prometheus_format_def
        ngx_http_upstream_check_status_html_format_def ngx_http_upstream_check_status_csv_format_def
        ngx_http_upstream_check_status_json_format_def)
  then show ?thesis by (simp add: Option.is_none_def)
qed

lemma status_handler_total:
  assumes "typed_peers (or_empty (sd_http d) @ or_empty (sd_stream d))"
    "nelts \<noteq> None \<Longrightarrow> sd_http d \<noteq> None" "nelts = None \<Longrightarrow> null_rc \<noteq> None"
  shows "status_handler fmt nelts null_rc d (Ptr f) r \<noteq> None"
proof -
  have "status_send d n g flag r \<noteq> None" if "sd_http d \<noteq> None" for n g flag
    using status_output_total [OF assms(1) that, of "st_output g" flag]
    by (auto simp: status_send_def Let_def)
  then show ?thesis
    using assms(2,3) by (auto simp: status_handler_def Let_def split: option.splits)
qed

lemma status_handler_null:
  "plain_get r \<Longrightarrow> status_handler fmt None None d loc r = None"
  by (auto simp: status_handler_def plain_get_def Let_def split: conf_ptr.splits option.splits)

subsection \<open>Samples\<close>

text \<open>Two servers of one upstream, the first of them down, and requests for their status.\<close>

definition sample_backend :: "nat \<Rightarrow> ngx_uint_t \<Rightarrow> peer_slot" where
  "sample_backend i down =
     (new_peer i ''web'' sample_conf \<lparr>a_sockaddr = [], a_name = ''10.0.0.1:80''\<rparr>,
      (new_slot no_addr)\<lparr>sh_down := down\<rparr>)"

definition sample_status :: status_data where
  "sample_status = \<lparr>sd_http = Some [sample_backend 0 1, sample_backend 1 0], sd_stream = None,
     sd_http_generation = 1, sd_stream_generation = 0\<rparr>"

definition sample_query :: status_request where
  "sample_query = \<lparr>sv_method = 2, sv_args = ''status=down&format=csv'', sv_discard_rc = 0, sv_pcalloc = True,
     sv_head_rc = 0, sv_head_only = False, sv_pagesize = 4096, sv_temp_buf = True, sv_send_rc = 0,
     sv_header_only = False, sv_filter_rc = 0\<rparr>"

lemma sample_backend_type [simp]:
  "status_type (sample_backend i down) = Some ''http''" "sh_down (snd (sample_backend i down)) = down"
  by (simp_all add: sample_backend_def new_peer_def status_type_def sample_conf_def ngx_check_types_def)

subsection \<open>Properties\<close>



text \<open>C25: the json page of the status module separates its entries. In both lists there is a comma
  and a line feed between two entries and a bare line feed after the last, whatever the filter
  hides.\<close>

theorem status_json_separated:
  assumes "sd_http d = Some hs" "typed_peers (hs @ or_empty (sd_stream d))"
  shows "map_option concat (ngx_upstream_check_status_json_format d flag) =
    Some (''{\"servers\": {'' @ LF1 @ ''  \"total\": '' @
      ngx_sprintf_num (status_count flag (or_empty (sd_stream d)) + status_count flag hs) @ '','' @ LF1 @
      ''  \"generation\": '' @ ui (sd_stream_generation d) @ '','' @ LF1 @
      ''  \"http\": ['' @ LF1 @ json_list (json_objects (status_listed flag 0 hs)) @ ''  ],'' @ LF1 @
      ''  \"stream\": ['' @ LF1 @ json_list (json_objects (status_listed flag 0 (or_empty (sd_stream d)))) @
      ''  ]'' @ LF1 @ ''}}'' @ LF1)"
proof -
  have t: "typed_peers hs" "typed_peers (or_empty (sd_stream d))"
    using assms(2) by (simp_all add: typed_peers_def)
  from json_loop_counted [OF t(1), of "status_count flag hs" 0 flag 0] obtain hts where
    "status_loop (json_row (\<lambda>i count. count = status_count flag hs)) flag 0 0 hs = Some hts"
    "concat hts = json_list (json_objects (status_listed flag 0 hs))" by auto
  moreover from json_loop_counted [OF t(2), of "status_count flag (or_empty (sd_stream d))" 0 flag 0]
    obtain sts where
    "status_loop (json_row (\<lambda>i count. count = status_count flag (or_empty (sd_stream d)))) flag 0 0
       (or_empty (sd_stream d)) = Some sts"
    "concat sts = json_list (json_objects (status_listed flag 0 (or_empty (sd_stream d))))" by auto
  ultimately show ?thesis
    using assms(1) by (simp add: ngx_upstream_check_status_json_format_def pages_def Let_def)
qed

lemma status_json_separated_witness:
  "\<exists>pre post. map_option concat (ngx_upstream_check_status_json_format sample_status 2) =
    Some (pre @ ''  \"http\": ['' @ LF1 @ json_object 1 (sample_backend 1 0) ''http'' @ LF1 @ ''  ],'' @ post)"
proof -
  have "sd_http sample_status = Some [sample_backend 0 1, sample_backend 1 0]"
    "typed_peers ([sample_backend 0 1, sample_backend 1 0] @ or_empty (sd_stream sample_status))"
    by (simp_all add: sample_status_def or_empty_def typed_peers_def)
  note page = status_json_separated [OF this, of 2]
  have "json_list (json_objects (status_listed 2 0 [sample_backend 0 1, sample_backend 1 0])) =
      json_object 1 (sample_backend 1 0) ''http'' @ LF1"
    by (simp add: status_shown_def json_objects_def)
  then show ?thesis
    unfolding page by (metis append.assoc)
qed

text \<open>C26: the json page of the http module does not. When the filter hides the last peer and shows
  another, the last entry is followed by a comma and the closing bracket.\<close>

theorem http_json_trailing_comma:
  assumes "typed_peers peers" "peers \<noteq> []" "\<not> status_shown flag (last peers)"
    "list_ex (status_shown flag) peers"
  shows "\<exists>pre. map_option concat (ngx_http_upstream_check_status_json_format gen peers flag) =
    Some (pre @ ''},'' @ LF1 @ ''  ]'' @ LF1 @ ''}}'' @ LF1)"
proof -
  let ?pr = "json_row (\<lambda>i count. Suc i = length peers)"
  have "status_listed flag 0 peers \<noteq> []"
    using assms(4) length_status_listed [of flag 0 peers]
    by (auto simp: status_count_def list_ex_iff filter_empty_conv)
  moreover have "Suc i \<noteq> length peers" if "(i, ps) \<in> set (status_listed flag 0 peers)" for i ps
  proof
    assume i: "Suc i = length peers"
    from that have "ps = peers ! i" "status_shown flag ps"
      by (auto simp: status_listed_def in_set_enumerate_eq)
    moreover from i have "peers ! i = last peers" using assms(2) by (simp add: last_conv_nth flip: i)
    ultimately show False using assms(3) by simp
  qed
  ultimately obtain ts pre where "status_loop ?pr flag 0 0 peers = Some ts" "concat ts = pre @ ''},'' @ LF1"
    using json_loop_indexed [OF assms(1), of flag 0 "length peers" 0] by blast
  then show ?thesis
    by (auto simp: ngx_http_upstream_check_status_json_format_def pages_def)
qed

lemma http_json_trailing_comma_witness:
  "\<exists>pre. map_option concat
     (ngx_http_upstream_check_status_json_format 1 [sample_backend 0 1, sample_backend 1 0] 1) =
    Some (pre @ ''},'' @ LF1 @ ''  ]'' @ LF1 @ ''}}'' @ LF1)"
  by (rule http_json_trailing_comma)
    (simp_all add: typed_peers_def status_shown_def)



end
