(* ===== verification/Spec2Isabelle.thy ===== *)
theory Spec2Isabelle
  imports Rr_Requests Consistent_Hash Random_Balance Check_Status
begin

text \<open>
  Active health checks of upstream servers: a verification of \<open>ngx_healthcheck_module\<close> (under
  \<open>src/tengine-master\<close>) and of the functions of nginx it is built on.

  \<^bold>\<open>The program.\<close> Every nginx worker runs the same checks. Each upstream server that is checked is a
  \<^emph>\<open>peer\<close>; its worker-local structure (\<open>ngx_upstream_check_peer_t\<close>) has two timers, a connection and a
  packet context, and one \<^emph>\<open>slot\<close> in shared memory (\<open>ngx_upstream_check_peer_shm_t\<close>) holds what the workers
  agree on: who is checking (\<open>owner\<close>), when, the counts of successes and failures in a row, and whether the
  peer is down. A timer starts a check (\<open>begin_handler\<close>): the worker claims the slot, connects, sends a
  request, receives and parses the answer, updates the slot and releases it. The load balancers ask
  \<open>check_peer_down\<close>, after adding their servers to the checks with \<open>add_peer\<close> while the configuration is
  read; when it has been read, the zone of the slots is created and inherits from the zone of the configuration
  before. There are two copies of the module, for http and for stream upstreams.

  \<^bold>\<open>The theories.\<close>
  \<^item> \<open>Ngx_Prelude\<close>: widths of the integers, bytes, lists, options and words.
  \<^item> \<open>Ngx_String\<close>: \<open>src/core/ngx_string.c\<close>, \<open>ngx_parse.c\<close> and \<open>ngx_murmurhash.c\<close> as far as the module uses
    them (comparison, search, numbers read and written, sizes, the hash).
  \<^item> \<open>Ngx_Inet\<close>: \<open>src/core/ngx_inet.c\<close>: IPv4 and IPv6 addresses read and written, sockaddrs, ports,
    comparison, CIDR blocks.
  \<^item> \<open>Ngx_Event\<close>: adding and expiring a timer, \<open>ngx_event_connect_peer\<close>.
  \<^item> \<open>Status_Line\<close>: \<open>ngx_upstream_check_http_parse_status_line\<close>, the resumable parser of a response head.
  \<^item> \<open>Check_Types\<close>: the structures of \<open>common.h.in\<close> as records, the tables of check types of both modules, the
    environment of a handler run.
  \<^item> \<open>Check_Packets\<close>, \<open>Fastcgi_Check\<close>: \<open>init\<close>, \<open>parse\<close> and \<open>reinit\<close> of each check type, the FastCGI
    request and response.
  \<^item> \<open>Check_Config\<close>: the directives of an \<open>upstream\<close> block and the creation and completion of its
    configuration.
  \<^item> \<open>Check_Peer\<close>, \<open>Peer_Inv\<close>: the handlers of the http module on the state of one worker, and their invariant.
  \<^item> \<open>Stream_Check\<close>: the handlers of the stream module; where the code is the same the definitions are proved
    equal to those of the http module.
  \<^item> \<open>Check_Workers\<close>: several workers on one shared memory, as a transition system.
  \<^item> \<open>Check_Shm\<close>: the list of peers, the main configuration, the zone with its name, creation and inheritance,
    and the start of the workers, for both modules.
  \<^item> \<open>Check_Status\<close>: \<open>ngx_healthcheck_status.c\<close> and the status functions of \<open>ngx_http_upstream_check_module.c\<close>:
    directives, query arguments (\<open>ngx_http_arg\<close>), the handlers and the html, csv, json and prometheus pages.
  \<^item> \<open>Round_Robin\<close>: \<open>src/http/ngx_http_upstream_round_robin.c\<close> and its stream twin: configuration, the choice of a peer,
    its release.
  \<^item> \<open>Ngx_Crc32\<close>: \<open>src/core/ngx_crc32.c\<close> and \<open>ngx_crc32.h\<close>, the checksum of the hash balancers.
  \<^item> \<open>Least_Conn\<close>: the balancers by least connections.
  \<^item> \<open>Hash_Balance\<close>: the balancers by the client's address (\<open>ngx_http_upstream_ip_hash_module.c\<close>) and by a key
    (\<open>ngx_http_upstream_hash_module.c\<close>, \<open>ngx_stream_upstream_hash_module.c\<close>), with the locks of the peers.
  \<^item> \<open>Consistent_Hash\<close>: the consistent hash of the same two files: the ring of points, the search, the choice.
  \<^item> \<open>Random_Balance\<close>: the random balancers of http and stream.
  \<^item> \<open>Rr_Requests\<close>: the requests on an upstream as a transition system, together with the checks.

  \<^bold>\<open>How code and model correspond.\<close> A definition has the name of the C function it translates; parts of a
  function (a loop, the code under one label) have names of their own. Bytes are \<open>char\<close>, buffers are lists of
  bytes in numbered blocks with offsets (\<open>mem\<close>), \<open>ngx_uint_t\<close> and \<open>ngx_msec_t\<close> are 64-bit words, so
  additions, the comparison of timer keys and the casts of \<open>NGX_ERROR\<close> wrap as in C. A handler takes the
  worker's state (\<open>check_proc\<close>) and returns the new one; \<open>None\<close> is undefined behaviour (a null pointer
  followed, a write behind a buffer). Function pointers are constructors of a datatype. What the kernel and
  the rest of nginx answer during one run of a handler is the record \<open>env\<close>: bytes that arrive, results of
  \<open>send\<close>, \<open>connect\<close>, allocations, the clock, the exit flags, the outcome of a regular expression, and the value of
  an uninitialised variable. Theorems hold for every environment unless they say otherwise.

  \<^bold>\<open>Interfaces.\<close> The locale \<open>packet_functions\<close> states what the handlers need of \<open>init\<close>, \<open>parse\<close> and \<open>reinit\<close> and
  is interpreted by the two packet theories; \<open>check_engine\<close> states what the workers need of a module's event
  function and is interpreted by both modules; \<open>check_type_table\<close> states what the \<open>check\<close> directive needs of the
  lookup of a type and is interpreted by both tables; \<open>rr_filter\<close> states what the choice of a peer needs of a
  module's conditions, \<open>check_registry\<close> what the balancer needs of \<open>add_peer\<close>, and both are interpreted by both modules;
  \<open>peer_attempt\<close> states what the search over primary and backup servers needs of an attempt on one list, follows from
  \<open>rr_filter\<close> for the round robin and is interpreted by least connections.

  \<^bold>\<open>What is shown.\<close> The handlers of one worker keep an invariant on its peers, and that lifts to all
  interleavings of the workers: no event of a peer whose parser is simple has undefined behaviour, a worker
  that owns a slot is checking the peer, a timeout ends a check, a worker told to exit becomes quiet. The slot's
  \<open>down\<close> flag is that of a reference machine with hysteresis. The head parser gives the same answer
  however the bytes are cut, accepts well-formed heads and stays in the buffer; the verdicts of the http and
  FastCGI checks are those of the response. Accepted directives give complete configurations, and printed
  directives, numbers, addresses and FastCGI parameters read back. A configuration that was accepted starts
  workers in states the invariant describes, and a reload keeps what was known of a server. The round robin
  hands out only peers their checks do not hold for down, finds one when there is one, is fair, and its
  counts and weights stay consistent whatever requests come and go. Least connections takes the least loaded peer; the
  hash balancers return, keep the clients of a network with one peer, and the consistent hash moves only the keys of
  a server that leaves; the array of its points is never overrun; random draws are by weight; the checksum is the
  CRC-32. The status handlers answer, a csv page is never cut off and reads back as the state of exactly the peers
  asked for, and the json page of the status module separates its entries. Some theorems state what the code does where it falls short of what it means to do: a lock that is never
  given back, checks that are not asked, two workers that check at once, a json page with a trailing comma, a null pointer when
  only stream servers are checked.

  \<^bold>\<open>Bounds.\<close> Every loop is a structural recursion or has a termination proof, but for the two loops of the FastCGI
  parser, which are partial functions and are shown to return; no definition uses fuel. The loops of the hash and
  random balancers end by the bound of twenty tries the code has; waiting for a lock that is never given back is
  \<open>None\<close>. \<open>qsort\<close> is any function that keeps the points and sorts them, \<open>ngx_random\<close> any sequence of numbers. The
  weights of the round robin are unbounded integers: they stay within the total weight, which the configuration keeps
  far below 64 bits.

  \<^bold>\<open>Not modelled.\<close> The http core that sends a status page (header, output filter, discarding the body) is
  the record of its results. The directives that choose a balancer set function pointers. Sessions of
  TLS connections, the rest of nginx and the system calls are outside the module; the Kubernetes operator in Go calls
  libraries that are not in the repository.
\<close>

end
